(* ===== verification/Prelude.thy ===== *)
theory Prelude
  imports Main "HOL-Library.Word"
begin

text \<open>
  Shared vocabulary of the development: machine integers and byte strings, the outcome
  type of fallible Rust code, checked indexing, and the generic list and word lemmas
  the component theories use.

  Rust's \<open>Result\<close> is the outcome \<open>Ok\<close> or \<open>Err\<close>; an out-of-bounds access or a failed
  \<open>expect\<close> is the third outcome \<open>Panic\<close>, so that the absence of panics is a theorem and
  not an assumption.  A Rust \<open>String\<close> is the HOL \<open>string\<close> of its UTF-8 bytes (a HOL
  \<open>char\<close> is a byte).
\<close>

unbundle bit_operations_syntax

type_synonym u8 = "8 word"
type_synonym u16 = "16 word"
type_synonym u32 = "32 word"
type_synonym bytes = "u8 list"
type_synonym instant = nat

named_theorems reader_simps "how a reader over a known remaining input behaves"
named_theorems codec_simps "unfolding rules of the frame codec"
named_theorems no_panic "operations that never panic"

subsection \<open>Outcomes\<close>

datatype ('e, 'a) result = Ok 'a | Err 'e | Panic

fun rbind :: "('e, 'a) result \<Rightarrow> ('a \<Rightarrow> ('e, 'b) result) \<Rightarrow> ('e, 'b) result" where
  "rbind (Ok a) f = f a"
| "rbind (Err e) f = Err e"
| "rbind Panic f = Panic"

fun ok_or :: "'a option \<Rightarrow> 'e \<Rightarrow> ('e, 'a) result" where
  "ok_or (Some a) e = Ok a"
| "ok_or None e = Err e"

definition ix :: "'a list \<Rightarrow> nat \<Rightarrow> ('e, 'a) result" where
  "ix xs i = (if i < length xs then Ok (xs ! i) else Panic)"

definition checked_sub :: "nat \<Rightarrow> nat \<Rightarrow> nat option" where
  "checked_sub a b = (if b \<le> a then Some (a - b) else None)"

definition range_slice :: "'a list \<Rightarrow> nat \<Rightarrow> nat \<Rightarrow> 'a list" where
  "range_slice xs i j = take (j - i) (drop i xs)"

fun is_panic :: "('e, 'a) result \<Rightarrow> bool" where
  "is_panic Panic = True"
| "is_panic (Ok a) = False"
| "is_panic (Err e) = False"

lemma rbind_cong [fundef_cong]:
  "m = m' \<Longrightarrow> (\<And>a. m' = Ok a \<Longrightarrow> f a = f' a) \<Longrightarrow> rbind m f = rbind m' f'"
  by (cases m') auto

lemma rbind_assoc: "rbind (rbind m f) g = rbind m (\<lambda>x. rbind (f x) g)"
  by (cases m) auto

lemma rbind_Ok_iff [simp]: "rbind m f = Ok b \<longleftrightarrow> (\<exists>a. m = Ok a \<and> f a = Ok b)"
  by (cases m) auto

lemma rbind_Err_iff: "rbind m f = Err e \<longleftrightarrow> m = Err e \<or> (\<exists>a. m = Ok a \<and> f a = Err e)"
  by (cases m) auto

lemma rbind_Panic_iff: "rbind m f = Panic \<longleftrightarrow> m = Panic \<or> (\<exists>a. m = Ok a \<and> f a = Panic)"
  by (cases m) auto

lemma rbind_not_Panic [intro]:
  "m \<noteq> Panic \<Longrightarrow> (\<And>a. m = Ok a \<Longrightarrow> f a \<noteq> Panic) \<Longrightarrow> rbind m f \<noteq> Panic"
  by (cases m) auto

lemma ok_or_Ok_iff [simp]: "ok_or x e = Ok a \<longleftrightarrow> x = Some a"
  by (cases x) auto

lemma ok_or_not_Panic [simp]: "ok_or x e \<noteq> Panic"
  by (cases x) auto

lemma is_panic_iff [simp]: "is_panic m \<longleftrightarrow> m = Panic"
  by (cases m) auto

lemma ix_Ok [simp]: "i < length xs \<Longrightarrow> ix xs i = Ok (xs ! i)"
  by (simp add: ix_def)

lemma ix_Panic_iff [simp]: "ix xs i = Panic \<longleftrightarrow> length xs \<le> i"
  by (auto simp: ix_def)

lemma ix_Ok_iff: "ix xs i = Ok x \<longleftrightarrow> i < length xs \<and> x = xs ! i"
  by (auto simp: ix_def)

lemma ix_not_Err [simp]: "ix xs i \<noteq> Err e"
  by (simp add: ix_def)

lemma checked_sub_Some [simp]: "b \<le> a \<Longrightarrow> checked_sub a b = Some (a - b)"
  by (simp add: checked_sub_def)

lemma checked_sub_None [simp]: "a < b \<Longrightarrow> checked_sub a b = None"
  by (simp add: checked_sub_def)

lemma checked_sub_Some_iff: "checked_sub a b = Some c \<longleftrightarrow> b \<le> a \<and> c = a - b"
  by (auto simp: checked_sub_def)

subsection \<open>Strings\<close>

definition as_bytes :: "string \<Rightarrow> bytes" where
  "as_bytes s = map of_char s"

definition of_bytes :: "bytes \<Rightarrow> string" where
  "of_bytes bs = map (\<lambda>b. char_of (unat b)) bs"

definition ascii_lower :: "char \<Rightarrow> char" where
  "ascii_lower c = (let n = (of_char c :: nat) in
     if 65 \<le> n \<and> n \<le> 90 then char_of (n + 32) else c)"

definition to_ascii_lowercase :: "string \<Rightarrow> string" where
  "to_ascii_lowercase s = map ascii_lower s"

definition eq_ignore_ascii_case :: "string \<Rightarrow> string \<Rightarrow> bool" where
  "eq_ignore_ascii_case a b \<longleftrightarrow> to_ascii_lowercase a = to_ascii_lowercase b"

fun show_nat :: "nat \<Rightarrow> string" where
  "show_nat n = (if n < 10 then [char_of (48 + n)]
     else show_nat (n div 10) @ [char_of (48 + n mod 10)])"

declare show_nat.simps [simp del]

text \<open>\<open>str::parse\<close> at an unsigned type with the given maximum: an optional plus sign and decimal digits.\<close>

definition digit_value :: "char \<Rightarrow> nat option" where
  "digit_value c = (let n = (of_char c :: nat) in if 48 \<le> n \<and> n \<le> 57 then Some (n - 48) else None)"

fun parse_digits :: "nat \<Rightarrow> string \<Rightarrow> nat \<Rightarrow> nat option" where
  "parse_digits mx [] acc = Some acc"
| "parse_digits mx (c # cs) acc =
     (case digit_value c of None \<Rightarrow> None
      | Some d \<Rightarrow> if mx < acc * 10 + d then None else parse_digits mx cs (acc * 10 + d))"

definition parse_unsigned :: "nat \<Rightarrow> string \<Rightarrow> nat option" where
  "parse_unsigned mx s =
     (let ds = (case s of c # cs \<Rightarrow> if c = CHR ''+'' then cs else s | [] \<Rightarrow> []) in
      if ds = [] then None else parse_digits mx ds 0)"

lemma unat_of_char [simp]: "unat (of_char c :: u8) = of_char c"
proof -
  have "(of_char c :: nat) < 256" by simp
  then have "unat (word_of_nat (of_char c) :: u8) = of_char c"
    by (simp add: unat_of_nat)
  then show ?thesis by (simp add: of_nat_of_char)
qed

lemma unat_u8_less [simp]: "unat (b :: u8) < 256"
  using unsigned_less [of b] by simp

lemma of_bytes_as_bytes [simp]: "of_bytes (as_bytes s) = s"
  by (simp add: of_bytes_def as_bytes_def o_def)

lemma as_bytes_of_bytes [simp]: "as_bytes (of_bytes bs) = bs"
proof -
  have "of_char (char_of (unat b) :: char) = (b :: u8)" for b
  proof -
    have "(of_char (char_of (unat b) :: char) :: nat) = unat b" by simp
    then have "unat (of_char (char_of (unat b) :: char) :: u8) = unat b" by simp
    then show ?thesis by (rule unsigned_word_eqI)
  qed
  then show ?thesis by (simp add: of_bytes_def as_bytes_def o_def)
qed

lemma length_as_bytes [simp]: "length (as_bytes s) = length s"
  by (simp add: as_bytes_def)

lemma length_of_bytes [simp]: "length (of_bytes s) = length s"
  by (simp add: of_bytes_def)

lemma as_bytes_inject [simp]: "as_bytes a = as_bytes b \<longleftrightarrow> a = b"
  by (metis of_bytes_as_bytes)

lemma length_to_ascii_lowercase [simp]: "length (to_ascii_lowercase s) = length s"
  by (simp add: to_ascii_lowercase_def)

lemma ascii_lower_idem [simp]: "ascii_lower (ascii_lower c) = ascii_lower c"
proof -
  have "(of_char c :: nat) < 256" by simp
  then show ?thesis by (auto simp: ascii_lower_def Let_def)
qed

lemma to_ascii_lowercase_idem [simp]:
  "to_ascii_lowercase (to_ascii_lowercase s) = to_ascii_lowercase s"
  by (simp add: to_ascii_lowercase_def)

subsection \<open>Word lemmas\<close>

lemma mask31_id: "unat (v :: u32) < 2 ^ 31 \<Longrightarrow> v AND 0x7fffffff = v"
proof -
  assume "unat v < 2 ^ 31"
  then have "unat (take_bit 31 v) = unat v"
    by (simp add: unsigned_take_bit_eq take_bit_nat_eq_self)
  then have "take_bit 31 v = v" by (rule unsigned_word_eqI)
  then show ?thesis
    by (simp add: take_bit_eq_mask mask_eq_exp_minus_1)
qed

subsection \<open>Incremental processing of a stream in chunks\<close>

text \<open>
  An operation that consumes chunks of input and emits outputs while it threads a state.
  When processing an appended input is processing the two halves in turn, how a stream is
  cut into chunks cannot be observed.
\<close>

fun feed_all :: "('c list \<Rightarrow> 's \<Rightarrow> ('e, 'o list \<times> 's) result) \<Rightarrow> 'c list list \<Rightarrow> 's
    \<Rightarrow> ('e, 'o list \<times> 's) result" where
  "feed_all push [] s = Ok ([], s)"
| "feed_all push (c # cs) s =
     rbind (push c s) (\<lambda>(xs, s'). rbind (feed_all push cs s') (\<lambda>(ys, s''). Ok (xs @ ys, s'')))"

locale incremental =
  fixes push :: "'c list \<Rightarrow> 's \<Rightarrow> ('e, 'o list \<times> 's) result"
    and inv :: "'s \<Rightarrow> bool"
  assumes push_Nil: "inv s \<Longrightarrow> push [] s = Ok ([], s)"
    and push_inv: "inv s \<Longrightarrow> push c s = Ok (xs, s') \<Longrightarrow> inv s'"
    and push_append: "inv s \<Longrightarrow>
      push (c @ c') s = rbind (push c s) (\<lambda>(xs, s'). rbind (push c' s') (\<lambda>(ys, s''). Ok (xs @ ys, s'')))"
begin

lemma feed_all_concat: "inv s \<Longrightarrow> feed_all push cs s = push (concat cs) s"
proof (induction cs arbitrary: s)
  case Nil
  then show ?case by (simp add: push_Nil)
next
  case (Cons c cs)
  then show ?case
    by (cases "push c s") (auto simp: push_append intro!: Cons.IH dest: push_inv)
qed

lemma feed_all_same_stream:
  "inv s \<Longrightarrow> concat cs = concat ds \<Longrightarrow> feed_all push cs s = feed_all push ds s"
  by (simp add: feed_all_concat)

end

subsection \<open>Parking and waking\<close>

text \<open>
  A resource that tasks wait for: \<open>ready\<close> says that a task could proceed, \<open>waiters\<close> lists
  the tasks parked on the resource, and a step reports the tasks it wakes.  If no step drops a
  waiter without waking it and none leaves a waiter behind in a ready state, then no wake-up
  is ever lost.
\<close>

inductive wake_run :: "('s \<Rightarrow> 'w list \<Rightarrow> 's \<Rightarrow> bool) \<Rightarrow> 's \<Rightarrow> 'w list \<Rightarrow> 's \<Rightarrow> bool" for step where
  wake_run_refl: "wake_run step s [] s"
| wake_run_step: "wake_run step s ws s' \<Longrightarrow> step s' vs s'' \<Longrightarrow> wake_run step s (ws @ vs) s''"

locale wakeup =
  fixes step :: "'s \<Rightarrow> 'w list \<Rightarrow> 's \<Rightarrow> bool"
    and ready :: "'s \<Rightarrow> bool"
    and waiters :: "'s \<Rightarrow> 'w list"
  assumes keeps_or_wakes: "step s ws s' \<Longrightarrow> set (waiters s) \<subseteq> set (waiters s') \<union> set ws"
    and none_parked_when_ready:
      "step s ws s' \<Longrightarrow> (waiters s \<noteq> [] \<longrightarrow> \<not> ready s) \<Longrightarrow> waiters s' \<noteq> [] \<Longrightarrow> \<not> ready s'"
begin

lemma run_keeps_or_wakes: "wake_run step s ws s' \<Longrightarrow> set (waiters s) \<subseteq> set (waiters s') \<union> set ws"
proof (induction rule: wake_run.induct)
  case (wake_run_step s ws s' vs s'')
  then show ?case using keeps_or_wakes [of s' vs s''] by auto
qed simp

lemma run_none_parked_when_ready:
  "wake_run step s ws s' \<Longrightarrow> (waiters s \<noteq> [] \<longrightarrow> \<not> ready s) \<Longrightarrow> waiters s' \<noteq> [] \<longrightarrow> \<not> ready s'"
proof (induction rule: wake_run.induct)
  case (wake_run_step s ws s' vs s'')
  then show ?case using none_parked_when_ready [of s' vs s''] by blast
qed simp

lemma no_lost_wakeup:
  assumes "wake_run step s ws s'" and "waiters s \<noteq> [] \<longrightarrow> \<not> ready s"
    and "t \<in> set (waiters s)" and "ready s'"
  shows "t \<in> set ws"
proof -
  have "waiters s' = []"
    using run_none_parked_when_ready [OF assms(1,2)] assms(4) by blast
  then show ?thesis using run_keeps_or_wakes [OF assms(1)] assms(3) by auto
qed

end

end
