(* ===== verification/Flow.thy ===== *)
theory Flow
  imports Prelude
begin

text \<open>
  \<open>h2ts-client/src/flow.rs\<close>: one send-side flow-control window.  A waker is the number of
  the task it wakes; an operation that wakes tasks returns them in order.  The window's
  \<open>i64\<close> is an \<open>int\<close>: \<open>send_window_no_overflow\<close> bounds how far any number of operations
  can move it.
\<close>

type_synonym task = nat

record send_window =
  sw_available :: int
  sw_wakers :: "task list"
  sw_closed :: bool

definition sw_new :: "int \<Rightarrow> send_window" where
  "sw_new initial = \<lparr>sw_available = initial, sw_wakers = [], sw_closed = False\<rparr>"

definition sw_wake :: "send_window \<Rightarrow> send_window \<times> task list" where
  "sw_wake w = (w\<lparr>sw_wakers := []\<rparr>, sw_wakers w)"

definition sw_update :: "int \<Rightarrow> send_window \<Rightarrow> send_window \<times> task list" where
  "sw_update increment w =
     (let w' = w\<lparr>sw_available := sw_available w + increment\<rparr> in
      if 0 < sw_available w' then sw_wake w' else (w', []))"

definition sw_adjust :: "int \<Rightarrow> send_window \<Rightarrow> send_window \<times> task list" where
  "sw_adjust delta w =
     (let w' = w\<lparr>sw_available := sw_available w + delta\<rparr> in
      if 0 < sw_available w' then sw_wake w' else (w', []))"

definition sw_consume :: "int \<Rightarrow> send_window \<Rightarrow> send_window" where
  "sw_consume n w = w\<lparr>sw_available := sw_available w - n\<rparr>"

definition sw_is_ready :: "send_window \<Rightarrow> bool" where
  "sw_is_ready w \<longleftrightarrow> 0 < sw_available w \<or> sw_closed w"

definition sw_register_waker :: "task \<Rightarrow> send_window \<Rightarrow> send_window" where
  "sw_register_waker t w = w\<lparr>sw_wakers := sw_wakers w @ [t]\<rparr>"

definition sw_close :: "send_window \<Rightarrow> send_window \<times> task list" where
  "sw_close w = sw_wake (w\<lparr>sw_closed := True\<rparr>)"

text \<open>
  The steps of a window under its clients: a grant, a settings change, a body pump that
  consumes what a positive check confirmed, a pump that parks because the window is not
  ready (\<open>pump_chunk\<close> registers only then), and teardown.
\<close>

inductive sw_step :: "send_window \<Rightarrow> task list \<Rightarrow> send_window \<Rightarrow> bool" where
  step_update: "sw_update inc w = (w', ws) \<Longrightarrow> sw_step w ws w'"
| step_adjust: "sw_adjust delta w = (w', ws) \<Longrightarrow> sw_step w ws w'"
| step_consume: "0 < n \<Longrightarrow> n \<le> sw_available w \<Longrightarrow> sw_step w [] (sw_consume n w)"
| step_register: "\<not> sw_is_ready w \<Longrightarrow> sw_step w [] (sw_register_waker t w)"
| step_close: "sw_close w = (w', ws) \<Longrightarrow> sw_step w ws w'"

datatype sw_op = OpUpdate int | OpAdjust int | OpConsume int | OpRegister task | OpClose

fun sw_apply :: "sw_op \<Rightarrow> send_window \<Rightarrow> send_window" where
  "sw_apply (OpUpdate n) w = fst (sw_update n w)"
| "sw_apply (OpAdjust n) w = fst (sw_adjust n w)"
| "sw_apply (OpConsume n) w = sw_consume n w"
| "sw_apply (OpRegister t) w = sw_register_waker t w"
| "sw_apply OpClose w = fst (sw_close w)"

fun sw_op_amount :: "sw_op \<Rightarrow> int" where
  "sw_op_amount (OpUpdate n) = n"
| "sw_op_amount (OpAdjust n) = n"
| "sw_op_amount (OpConsume n) = - n"
| "sw_op_amount (OpRegister t) = 0"
| "sw_op_amount OpClose = 0"

lemmas sw_defs = sw_new_def sw_wake_def sw_update_def sw_adjust_def sw_consume_def sw_is_ready_def
  sw_register_waker_def sw_close_def

lemma sw_available_ops [simp]:
  "sw_available (sw_new n) = n"
  "sw_available (fst (sw_update n w)) = sw_available w + n"
  "sw_available (fst (sw_adjust n w)) = sw_available w + n"
  "sw_available (sw_consume n w) = sw_available w - n"
  "sw_available (sw_register_waker t w) = sw_available w"
  "sw_available (fst (sw_close w)) = sw_available w"
  by (simp_all add: sw_defs Let_def)

lemma sw_closed_ops [simp]:
  "sw_closed (sw_new n) = False"
  "sw_closed (fst (sw_update n w)) = sw_closed w"
  "sw_closed (fst (sw_adjust n w)) = sw_closed w"
  "sw_closed (sw_consume n w) = sw_closed w"
  "sw_closed (sw_register_waker t w) = sw_closed w"
  "sw_closed (fst (sw_close w)) = True"
  by (simp_all add: sw_defs Let_def)

definition sw_inv :: "send_window \<Rightarrow> bool" where
  "sw_inv w \<longleftrightarrow> (sw_wakers w \<noteq> [] \<longrightarrow> \<not> sw_is_ready w)"

lemma sw_inv_new [simp]: "sw_inv (sw_new n)"
  by (simp add: sw_inv_def sw_defs)

lemma sw_inv_ops [intro]:
  "sw_inv w \<Longrightarrow> sw_inv (fst (sw_update n w))"
  "sw_inv w \<Longrightarrow> sw_inv (fst (sw_adjust n w))"
  "sw_inv w \<Longrightarrow> 0 \<le> n \<Longrightarrow> sw_inv (sw_consume n w)"
  "\<not> sw_is_ready w \<Longrightarrow> sw_inv (sw_register_waker t w)"
  "sw_inv (fst (sw_close w))"
  by (auto simp: sw_inv_def sw_defs Let_def)

interpretation sw: wakeup sw_step sw_is_ready sw_wakers
proof
  fix s ws s'
  assume "sw_step s ws s'"
  then show "set (sw_wakers s) \<subseteq> set (sw_wakers s') \<union> set ws"
    by (cases rule: sw_step.cases) (auto simp: sw_defs Let_def split: if_splits)
next
  fix s ws s'
  assume "sw_step s ws s'" and "sw_wakers s \<noteq> [] \<longrightarrow> \<not> sw_is_ready s" and "sw_wakers s' \<noteq> []"
  then show "\<not> sw_is_ready s'"
    by (cases rule: sw_step.cases) (auto simp: sw_defs Let_def split: if_splits)
qed

lemma sw_available_fold:
  "sw_available (fold sw_apply ops w) = sw_available w + sum_list (map sw_op_amount ops)"
proof (induction ops arbitrary: w)
  case (Cons op ops)
  then show ?case by (cases op) auto
qed simp

lemma abs_sum_list_le: "\<forall>x \<in> set xs. \<bar>x\<bar> \<le> (b :: int) \<Longrightarrow> \<bar>sum_list xs\<bar> \<le> b * int (length xs)"
  by (induction xs) (auto simp: algebra_simps)

text \<open>
  No wake-up of an upload is lost: a body pump that parked on a window which had no
  capacity has been woken by every run of grants, settings changes, sends of other pumps and
  teardown that leaves the window ready.
\<close>

theorem send_window_no_lost_wakeup:
  assumes "wake_run sw_step w woken w'" and "sw_inv w"
    and "t \<in> set (sw_wakers w)" and "sw_is_ready w'"
  shows "t \<in> set woken"
  using sw.no_lost_wakeup [OF assms(1) _ assms(3,4)] assms(2) by (simp add: sw_inv_def)

theorem send_window_no_lost_wakeup_witness:
  "\<exists>w' woken. wake_run sw_step (sw_register_waker 7 (sw_new 0)) woken w' \<and> sw_is_ready w'
     \<and> 7 \<in> set woken"
proof -
  let ?w = "sw_register_waker 7 (sw_new 0)"
  let ?w' = "\<lparr>sw_available = 5, sw_wakers = [], sw_closed = False\<rparr>"
  have "sw_update 5 ?w = (?w', [7])" by (simp add: sw_defs)
  from sw_step.step_update [OF this] have run: "wake_run sw_step ?w ([] @ [7]) ?w'"
    by (rule wake_run.wake_run_step [OF wake_run.wake_run_refl])
  have ready: "sw_is_ready ?w'" by (simp add: sw_defs)
  have "7 \<in> set ([] @ [7 :: task])"
    by (rule send_window_no_lost_wakeup [OF run _ _ ready]) (simp_all add: sw_defs sw_inv_def)
  with run ready show ?thesis by blast
qed

text \<open>
  The signed 64-bit window counter cannot overflow: a window that starts within 32 bits
  and sees fewer than \<open>2^32 - 2\<close> operations, each of at most \<open>2^31\<close> (a WINDOW\_UPDATE
  increment, a settings delta or a DATA frame is no larger), stays strictly inside the range of
  \<open>i64\<close>.
\<close>

theorem send_window_no_overflow:
  assumes "\<bar>initial\<bar> \<le> 2 ^ 32" and "\<forall>op \<in> set ops. \<bar>sw_op_amount op\<bar> \<le> 2 ^ 31"
    and "length ops < 2 ^ 32 - 2"
  shows "- (2 ^ 63) < sw_available (fold sw_apply ops (sw_new initial))
     \<and> sw_available (fold sw_apply ops (sw_new initial)) < 2 ^ 63"
proof -
  have "\<bar>sum_list (map sw_op_amount ops)\<bar> \<le> 2 ^ 31 * int (length ops)"
    using abs_sum_list_le [of "map sw_op_amount ops" "2 ^ 31"] assms(2) by simp
  moreover have "int (length ops) < 2 ^ 32 - 2" using assms(3) by simp
  ultimately have "\<bar>initial + sum_list (map sw_op_amount ops)\<bar> < 2 ^ 63"
    using assms(1) by simp
  then show ?thesis by (simp add: sw_available_fold abs_less_iff)
qed

theorem send_window_no_overflow_witness:
  "sw_available (fold sw_apply [OpUpdate (2 ^ 31), OpConsume 16384] (sw_new 65535)) < 2 ^ 63"
  using send_window_no_overflow [of 65535 "[OpUpdate (2 ^ 31), OpConsume 16384]"] by simp

end
