(* ===== verification/Errors.thy ===== *)
theory Errors
  imports Prelude
begin

text \<open>
  \<open>h2ts-client/src/errors.rs\<close>: the HTTP/2 error codes with their wire values and names,
  and the error value the client's fallible operations return.
\<close>

datatype error_code =
    NoError
  | ProtocolError
  | InternalError
  | FlowControlError
  | SettingsTimeout
  | StreamClosed
  | FrameSizeError
  | RefusedStream
  | Cancel
  | CompressionError
  | ConnectError
  | EnhanceYourCalm
  | InadequateSecurity
  | Http11Required

record h2error =
  he_code :: error_code
  he_message :: "string option"
  he_stream_id :: "u32 option"

type_synonym 'a h2result = "(h2error, 'a) result"

fun ec_value :: "error_code \<Rightarrow> u32" where
  "ec_value NoError = 0x0"
| "ec_value ProtocolError = 0x1"
| "ec_value InternalError = 0x2"
| "ec_value FlowControlError = 0x3"
| "ec_value SettingsTimeout = 0x4"
| "ec_value StreamClosed = 0x5"
| "ec_value FrameSizeError = 0x6"
| "ec_value RefusedStream = 0x7"
| "ec_value Cancel = 0x8"
| "ec_value CompressionError = 0x9"
| "ec_value ConnectError = 0xa"
| "ec_value EnhanceYourCalm = 0xb"
| "ec_value InadequateSecurity = 0xc"
| "ec_value Http11Required = 0xd"

definition ec_from_value :: "u32 \<Rightarrow> error_code option" where
  "ec_from_value v =
     (if v = 0x0 then Some NoError
      else if v = 0x1 then Some ProtocolError
      else if v = 0x2 then Some InternalError
      else if v = 0x3 then Some FlowControlError
      else if v = 0x4 then Some SettingsTimeout
      else if v = 0x5 then Some StreamClosed
      else if v = 0x6 then Some FrameSizeError
      else if v = 0x7 then Some RefusedStream
      else if v = 0x8 then Some Cancel
      else if v = 0x9 then Some CompressionError
      else if v = 0xa then Some ConnectError
      else if v = 0xb then Some EnhanceYourCalm
      else if v = 0xc then Some InadequateSecurity
      else if v = 0xd then Some Http11Required
      else None)"

fun ec_name :: "error_code \<Rightarrow> string" where
  "ec_name NoError = ''NO_ERROR''"
| "ec_name ProtocolError = ''PROTOCOL_ERROR''"
| "ec_name InternalError = ''INTERNAL_ERROR''"
| "ec_name FlowControlError = ''FLOW_CONTROL_ERROR''"
| "ec_name SettingsTimeout = ''SETTINGS_TIMEOUT''"
| "ec_name StreamClosed = ''STREAM_CLOSED''"
| "ec_name FrameSizeError = ''FRAME_SIZE_ERROR''"
| "ec_name RefusedStream = ''REFUSED_STREAM''"
| "ec_name Cancel = ''CANCEL''"
| "ec_name CompressionError = ''COMPRESSION_ERROR''"
| "ec_name ConnectError = ''CONNECT_ERROR''"
| "ec_name EnhanceYourCalm = ''ENHANCE_YOUR_CALM''"
| "ec_name InadequateSecurity = ''INADEQUATE_SECURITY''"
| "ec_name Http11Required = ''HTTP_1_1_REQUIRED''"

definition h2error_new :: "error_code \<Rightarrow> string \<Rightarrow> h2error" where
  "h2error_new c m = \<lparr>he_code = c, he_message = Some m, he_stream_id = None\<rparr>"

definition h2error_code :: "error_code \<Rightarrow> h2error" where
  "h2error_code c = \<lparr>he_code = c, he_message = None, he_stream_id = None\<rparr>"

definition h2error_stream :: "error_code \<Rightarrow> string \<Rightarrow> u32 \<Rightarrow> h2error" where
  "h2error_stream c m sid = \<lparr>he_code = c, he_message = Some m, he_stream_id = Some sid\<rparr>"

definition h2error_display :: "h2error \<Rightarrow> string" where
  "h2error_display e = (case he_message e of
      Some m \<Rightarrow> ec_name (he_code e) @ '': '' @ m
    | None \<Rightarrow> ec_name (he_code e))"

lemma he_code_new [simp]: "he_code (h2error_new c m) = c"
  by (simp add: h2error_new_def)

lemma he_code_stream [simp]: "he_code (h2error_stream c m sid) = c"
  by (simp add: h2error_stream_def)

lemma ec_from_value_value [simp]: "ec_from_value (ec_value c) = Some c"
  by (cases c) (simp_all add: ec_from_value_def)

lemma ec_value_from_value: "ec_from_value v = Some c \<Longrightarrow> ec_value c = v"
  by (auto simp: ec_from_value_def split: if_splits)

text \<open>
  The wire value of an error code identifies it: a code read back from its wire value is
  itself, a wire value that names a code is that code's value, and the known wire values are
  exactly those below 14.
\<close>

theorem error_code_wire_roundtrip:
  "ec_from_value (ec_value c) = Some c
   \<and> (ec_from_value v = Some d \<longleftrightarrow> v = ec_value d)
   \<and> (ec_from_value v = None \<longleftrightarrow> 14 \<le> unat v)"
proof (intro conjI)
  show "ec_from_value v = Some d \<longleftrightarrow> v = ec_value d"
    using ec_value_from_value by auto
  have "v \<in> {0,1,2,3,4,5,6,7,8,9,10,11,12,13}" if "unat v < 14"
  proof -
    have "unat v \<in> {0,1,2,3,4,5,6,7,8,9,10,11,12,13}"
      using that by simp presburger
    then have "word_of_nat (unat v) \<in> (word_of_nat :: nat \<Rightarrow> u32) ` {0,1,2,3,4,5,6,7,8,9,10,11,12,13}"
      by (rule imageI)
    then show ?thesis by simp
  qed
  then show "ec_from_value v = None \<longleftrightarrow> 14 \<le> unat v"
    by (cases "unat v < 14") (auto simp: ec_from_value_def split: if_splits)
qed simp

end
