(* ===== verification/Huffman.thy ===== *)
theory Huffman
  imports Huffman_Table Errors
begin

text \<open>
  \<open>h2ts-client/src/hpack/huffman.rs\<close>: the Huffman encoder, which sets bits in a zeroed
  buffer and pads the last byte with ones, and the decoder, which walks a binary trie.
\<close>

subsection \<open>Encoder\<close>

text \<open>The bits of a code, most significant of its \<open>nbits\<close> first: \<open>for i in (0..nbits).rev()\<close>.\<close>

definition code_bits :: "u32 \<times> nat \<Rightarrow> bool list" where
  "code_bits c = map (\<lambda>i. drop_bit i (fst c) AND 1 \<noteq> 0) (rev [0..<snd c])"

definition huffman_code :: "u8 \<Rightarrow> u32 \<times> nat" where
  "huffman_code b = HUFFMAN_CODES ! unat b"

definition encoded_bit_length :: "bytes \<Rightarrow> nat" where
  "encoded_bit_length input = sum_list (map (\<lambda>b. snd (huffman_code b)) input)"

definition div_ceil8 :: "nat \<Rightarrow> nat" where
  "div_ceil8 n = (n + 7) div 8"

definition set_out_bit :: "nat \<Rightarrow> bytes \<Rightarrow> bytes h2result" where
  "set_out_bit pos out =
     rbind (ix out (drop_bit 3 pos)) (\<lambda>v.
     Ok (out[drop_bit 3 pos := v OR drop_bit (pos AND 7) 0x80]))"

fun encode_bits :: "bool list \<Rightarrow> bytes \<Rightarrow> nat \<Rightarrow> (bytes \<times> nat) h2result" where
  "encode_bits [] out pos = Ok (out, pos)"
| "encode_bits (b # bs) out pos =
     rbind (if b then set_out_bit pos out else Ok out) (\<lambda>out. encode_bits bs out (pos + 1))"

fun encode_bytes :: "bytes \<Rightarrow> bytes \<Rightarrow> nat \<Rightarrow> (bytes \<times> nat) h2result" where
  "encode_bytes [] out pos = Ok (out, pos)"
| "encode_bytes (b # bs) out pos =
     rbind (encode_bits (code_bits (huffman_code b)) out pos) (\<lambda>(out, pos). encode_bytes bs out pos)"

lemma nat_and_7: "n AND 7 = (n :: nat) mod 8"
proof -
  have "n AND mask 3 = n mod 2 ^ 3" by (simp flip: take_bit_eq_mask add: take_bit_eq_mod)
  then show ?thesis by (simp add: mask_eq_exp_minus_1)
qed

function pad_ones :: "bytes \<Rightarrow> nat \<Rightarrow> bytes h2result" where
  "pad_ones out pos =
     (if pos AND 7 \<noteq> 0 then rbind (set_out_bit pos out) (\<lambda>out. pad_ones out (pos + 1)) else Ok out)"
  by pat_completeness auto
termination
  by (relation "measure (\<lambda>(out, pos). if pos mod 8 = 0 then 0 else 8 - pos mod 8)")
     (auto simp: nat_and_7 mod_Suc)

declare pad_ones.simps [simp del]

definition huffman_encode :: "bytes \<Rightarrow> bytes h2result" where
  "huffman_encode input =
     rbind (encode_bytes input (replicate (div_ceil8 (encoded_bit_length input)) 0) 0)
       (\<lambda>(out, pos). pad_ones out pos)"

definition huffman_shorter :: "bytes \<Rightarrow> bool" where
  "huffman_shorter input \<longleftrightarrow> div_ceil8 (encoded_bit_length input) < length input"

subsection \<open>Decoder\<close>

datatype trie_node = TrieNode (child0: "trie_node option") (child1: "trie_node option") (symbol: "nat option")

definition trie_default :: trie_node where
  "trie_default = TrieNode None None None"

definition child :: "trie_node \<Rightarrow> bool \<Rightarrow> trie_node option" where
  "child n b = (if b then child1 n else child0 n)"

definition get_or_default :: "trie_node option \<Rightarrow> trie_node" where
  "get_or_default c = (case c of Some n \<Rightarrow> n | None \<Rightarrow> trie_default)"

fun trie_insert :: "bool list \<Rightarrow> nat \<Rightarrow> trie_node \<Rightarrow> trie_node" where
  "trie_insert [] sm n = TrieNode (child0 n) (child1 n) (Some sm)"
| "trie_insert (b # bs) sm n =
     (if b then TrieNode (child0 n) (Some (trie_insert bs sm (get_or_default (child1 n)))) (symbol n)
      else TrieNode (Some (trie_insert bs sm (get_or_default (child0 n)))) (child1 n) (symbol n))"

definition build_trie :: trie_node where
  "build_trie = fold (\<lambda>(sm, c). trie_insert (code_bits c) sm) (enumerate 0 HUFFMAN_CODES) trie_default"

record huff_state =
  hs_out :: bytes
  hs_node :: trie_node
  hs_partial_bits :: nat
  hs_all_ones :: bool

definition huffman_error :: "string \<Rightarrow> h2error" where
  "huffman_error m = h2error_new CompressionError m"

definition decode_bit :: "trie_node \<Rightarrow> bool \<Rightarrow> huff_state \<Rightarrow> huff_state h2result" where
  "decode_bit root b s =
     (let ones = (if b then hs_all_ones s else False) in
      case child (hs_node s) b of
        None \<Rightarrow> Err (huffman_error ''invalid Huffman code'')
      | Some n \<Rightarrow>
          (case symbol n of
             Some sm \<Rightarrow>
               if sm = HUFFMAN_EOS then Err (huffman_error ''EOS symbol in Huffman stream'')
               else Ok (s\<lparr>hs_out := hs_out s @ [word_of_nat sm], hs_node := root,
                         hs_partial_bits := 0, hs_all_ones := True\<rparr>)
           | None \<Rightarrow>
               Ok (s\<lparr>hs_node := n, hs_partial_bits := hs_partial_bits s + 1, hs_all_ones := ones\<rparr>)))"

fun decode_bits :: "trie_node \<Rightarrow> bool list \<Rightarrow> huff_state \<Rightarrow> huff_state h2result" where
  "decode_bits root [] s = Ok s"
| "decode_bits root (b # bs) s = rbind (decode_bit root b s) (\<lambda>s. decode_bits root bs s)"

definition byte_bits :: "u8 \<Rightarrow> bool list" where
  "byte_bits v = map (\<lambda>i. drop_bit i v AND 1 \<noteq> 0) (rev [0..<8])"

definition huffman_decode_with :: "trie_node \<Rightarrow> bytes \<Rightarrow> bytes h2result" where
  "huffman_decode_with root input =
     rbind (decode_bits root (concat (map byte_bits input))
              \<lparr>hs_out = [], hs_node = root, hs_partial_bits = 0, hs_all_ones = True\<rparr>)
       (\<lambda>s. if hs_node s \<noteq> root \<and> (7 < hs_partial_bits s \<or> \<not> hs_all_ones s)
            then Err (huffman_error ''invalid Huffman padding'')
            else Ok (hs_out s))"

definition huffman_decode :: "bytes \<Rightarrow> bytes h2result" where
  "huffman_decode input = huffman_decode_with build_trie input"

subsection \<open>Code bits\<close>

lemma code_bits_bit: "code_bits c = map (bit (fst c)) (rev [0..<snd c])"
  by (simp add: code_bits_def bit_iff_odd_drop_bit and_one_eq odd_iff_mod_2_eq_one)

lemma length_code_bits [simp]: "length (code_bits c) = snd c"
  by (simp add: code_bits_def)

subsection \<open>The table is a complete canonical code\<close>

text \<open>
  \<open>next_code n s xs\<close> runs through the table and checks that the codes of length \<open>n\<close> are
  consecutive from \<open>s\<close>; \<open>canonical\<close> checks that the codes of length \<open>n + 1\<close> start at
  twice the end of those of length \<open>n\<close>.
\<close>

fun next_code :: "nat \<Rightarrow> nat \<Rightarrow> (u32 \<times> nat) list \<Rightarrow> nat option" where
  "next_code n s [] = Some s"
| "next_code n s ((c, m) # xs) =
     (if m = n then if unat c = s then next_code n (s + 1) xs else None else next_code n s xs)"

fun canonical :: "nat \<Rightarrow> nat \<Rightarrow> nat \<Rightarrow> (u32 \<times> nat) list \<Rightarrow> nat option" where
  "canonical n 0 s xs = Some s"
| "canonical n (Suc k) s xs =
     (case next_code n s xs of None \<Rightarrow> None | Some e \<Rightarrow> canonical (n + 1) k (2 * e) xs)"

lemma next_code_weak_cong: "n = n' \<Longrightarrow> s = s' \<Longrightarrow> next_code n s xs = next_code n' s' xs"
  by simp

lemma canonical_weak_cong:
  "n = n' \<Longrightarrow> k = k' \<Longrightarrow> s = s' \<Longrightarrow> canonical n k s xs = canonical n' k' s' xs"
  by simp

lemma canonical_numeral:
  "canonical n (numeral k) s xs =
     (case next_code n s xs of None \<Rightarrow> None | Some e \<Rightarrow> canonical (n + 1) (pred_numeral k) (2 * e) xs)"
  by (simp add: numeral_eq_Suc)

lemma table_canonical: "canonical 5 26 0 HUFFMAN_CODES = Some (2 ^ 31)"
  unfolding huffman_table
  by (simp add: canonical_numeral cong: next_code_weak_cong canonical_weak_cong)

lemma table_lengths: "list_all (\<lambda>(c, n). 5 \<le> n \<and> n \<le> 30 \<and> unat c < 2 ^ n) HUFFMAN_CODES"
  unfolding huffman_table by simp

lemma next_code_bounds:
  "next_code n s xs = Some e \<Longrightarrow> s \<le> e \<and> (\<forall>c. (c, n) \<in> set xs \<longrightarrow> s \<le> unat c \<and> unat c < e)"
  by (induction n s xs rule: next_code.induct) (fastforce split: if_splits)+

lemma next_code_inj:
  "next_code n s xs = Some e \<Longrightarrow> i < length xs \<Longrightarrow> j < length xs \<Longrightarrow> xs ! i = (c, n) \<Longrightarrow> xs ! j = (c, n)
   \<Longrightarrow> i = j"
proof (induction n s xs arbitrary: i j rule: next_code.induct)
  case (2 n s c' m xs)
  have tail: "False" if "m = n" "xs ! k = (c, n)" "k < length xs" "c' = c" for k
    using 2(3) next_code_bounds [of n "s + 1" xs e] that nth_mem [OF that(3)] by (auto split: if_splits)
  show ?case
  proof (cases i; cases j)
    fix i' j' assume ij: "i = Suc i'" "j = Suc j'"
    then show ?thesis
      using 2(1) [of i' j'] 2(2) [of i' j'] 2(3-) by (cases "m = n") (auto split: if_splits)
  qed (use 2(4-) tail in auto)
qed simp

lemma canonical_split:
  "canonical n k s xs = Some e \<Longrightarrow> n \<le> m \<Longrightarrow> m < n + k \<Longrightarrow>
   \<exists>sm em. next_code m sm xs = Some em \<and> s * 2 ^ (m - n) \<le> sm
     \<and> canonical (m + 1) (n + k - m - 1) (2 * em) xs = Some e"
proof (induction n k s xs rule: canonical.induct)
  case (2 n k s xs)
  obtain e' where e': "next_code n s xs = Some e'" "canonical (n + 1) k (2 * e') xs = Some e"
    using 2(2) by (auto split: option.splits)
  show ?case
  proof (cases "m = n")
    case True
    then show ?thesis using e' by auto
  next
    case False
    then obtain sm em where *: "next_code m sm xs = Some em" "2 * e' * 2 ^ (m - (n + 1)) \<le> sm"
        "canonical (m + 1) (n + 1 + k - m - 1) (2 * em) xs = Some e"
      using 2(1) [OF e'(1,2)] 2(3,4) by auto
    have "s * 2 ^ (m - n) \<le> e' * (2 * 2 ^ (m - (n + 1)))"
      using next_code_bounds [OF e'(1)] 2(3) False by (simp add: power_eq_if)
    then show ?thesis using * by (intro exI [of _ sm] exI [of _ em]) (simp add: ac_simps)
  qed
qed simp

lemma code_bits_prefix:
  assumes "code_bits (d, m) = code_bits (c, n) @ r" and "unat c < 2 ^ n" and "unat d < 2 ^ m"
  shows "n \<le> m \<and> unat c = unat d div 2 ^ (m - n)"
proof
  have "length (code_bits (d, m)) = length (code_bits (c, n) @ r)" using assms(1) by simp
  then show nm: "n \<le> m" by simp
  have bits: "bit c i = bit d (i + (m - n))" if "i < n" for i
  proof -
    let ?k = "n - 1 - i"
    have "code_bits (c, n) ! ?k = code_bits (d, m) ! ?k"
      using assms(1) that by (simp add: nth_append)
    moreover have "code_bits (c, n) ! ?k = bit c i" using that by (simp add: code_bits_bit rev_nth)
    moreover have "code_bits (d, m) ! ?k = bit d (i + (m - n))"
    proof -
      have "m - Suc ?k = i + (m - n)" using that nm by simp
      then show ?thesis using that nm by (simp add: code_bits_bit rev_nth del: diff_Suc_eq_diff_pred)
    qed
    ultimately show ?thesis by simp
  qed
  have small: "\<not> bit v i" if "v < 2 ^ l" "l \<le> i" for v l i :: nat
    using that by (metis bit_take_bit_iff linorder_not_le take_bit_nat_eq_self)
  have "bit (unat c) i = bit (drop_bit (m - n) (unat d)) i" for i
  proof (cases "i < n")
    case True
    then show ?thesis
      using bits by (simp add: bit_drop_bit_eq add.commute bit_unsigned_iff)
  next
    case False
    then show ?thesis using small assms(2,3) nm by (simp add: bit_drop_bit_eq)
  qed
  then have "unat c = drop_bit (m - n) (unat d)" by (rule bit_eqI)
  then show "unat c = unat d div 2 ^ (m - n)" by (simp add: drop_bit_eq_div)
qed

lemma code_entry: "i < 257 \<Longrightarrow> HUFFMAN_CODES ! i = (c, n) \<Longrightarrow> 5 \<le> n \<and> n \<le> 30 \<and> unat c < 2 ^ n"
  using table_lengths by (auto simp: list_all_length)

lemma prefix_free:
  assumes i: "i < 257" and j: "j < 257"
    and pre: "code_bits (HUFFMAN_CODES ! j) = code_bits (HUFFMAN_CODES ! i) @ r"
  shows "i = j \<and> r = []"
proof -
  obtain c n d m where e: "HUFFMAN_CODES ! i = (c, n)" "HUFFMAN_CODES ! j = (d, m)" by fastforce
  note li = code_entry [OF i e(1)] and lj = code_entry [OF j e(2)]
  have mem: "(c, n) \<in> set HUFFMAN_CODES" "(d, m) \<in> set HUFFMAN_CODES"
    using i j e nth_mem [of i HUFFMAN_CODES] nth_mem [of j HUFFMAN_CODES] by auto
  have le: "n \<le> m" and c: "unat c = unat d div 2 ^ (m - n)"
    using code_bits_prefix [of d m c n r] pre li lj by (auto simp: e)
  obtain s t where s: "next_code n s HUFFMAN_CODES = Some t"
      "canonical (n + 1) (30 - n) (2 * t) HUFFMAN_CODES = Some (2 ^ 31)"
    using canonical_split [OF table_canonical, of n] li by auto
  have "m = n"
  proof (rule ccontr)
    assume "m \<noteq> n"
    then obtain s' t' where s': "next_code m s' HUFFMAN_CODES = Some t'" "2 * t * 2 ^ (m - (n + 1)) \<le> s'"
      using canonical_split [OF s(2), of m] le lj by auto
    have "(2 :: nat) ^ (m - n) = 2 * 2 ^ (m - (n + 1))" using \<open>m \<noteq> n\<close> le by (simp add: power_eq_if)
    then have "t * 2 ^ (m - n) \<le> s'" using s'(2) by simp
    also have "s' \<le> unat d" using next_code_bounds [OF s'(1)] mem(2) by blast
    finally have "t * 2 ^ (m - n) \<le> unat d" .
    then have "t \<le> unat c" by (simp add: c less_eq_div_iff_mult_less_eq)
    then show False using next_code_bounds [OF s(1)] mem(1) by auto
  qed
  then have "c = d" using c by (simp add: unsigned_word_eqI)
  then have "i = j" using next_code_inj [OF s(1)] e i j \<open>m = n\<close> by simp
  then show ?thesis using pre by simp
qed

subsection \<open>The trie finds exactly the codes\<close>

fun node_at :: "trie_node \<Rightarrow> bool list \<Rightarrow> trie_node option" where
  "node_at n [] = Some n"
| "node_at n (b # bs) = (case child n b of None \<Rightarrow> None | Some m \<Rightarrow> node_at m bs)"

definition symbol_at :: "trie_node \<Rightarrow> bool list \<Rightarrow> nat option" where
  "symbol_at n p = (case node_at n p of None \<Rightarrow> None | Some m \<Rightarrow> symbol m)"

lemma symbol_at_simps [simp]:
  "symbol_at n [] = symbol n"
  "symbol_at n (b # bs) = (case child n b of None \<Rightarrow> None | Some m \<Rightarrow> symbol_at m bs)"
  by (simp_all add: symbol_at_def split: option.split)

lemma node_at_append: "node_at n (p @ q) = (case node_at n p of None \<Rightarrow> None | Some m \<Rightarrow> node_at m q)"
  by (induction p arbitrary: n) (auto split: option.split)

lemma symbol_at_default [simp]: "symbol_at trie_default p = None"
  by (cases p) (simp_all add: trie_default_def child_def)

lemma symbol_at_insert: "symbol_at (trie_insert p s t) q = (if p = q then Some s else symbol_at t q)"
proof (induction p arbitrary: q t)
  case Nil
  then show ?case by (cases q) (simp_all add: child_def)
next
  case (Cons b p)
  then show ?case
    by (cases q) (auto simp: child_def get_or_default_def split: option.split)
qed

definition insert_all :: "(nat \<times> bool list) list \<Rightarrow> trie_node \<Rightarrow> trie_node" where
  "insert_all xs t = fold (\<lambda>(s, p). trie_insert p s) xs t"

lemma symbol_at_insert_all_other: "p \<notin> snd ` set xs \<Longrightarrow> symbol_at (insert_all xs t) p = symbol_at t p"
  by (induction xs arbitrary: t) (auto simp: insert_all_def symbol_at_insert)

lemma symbol_at_insert_all:
  "distinct (map snd xs) \<Longrightarrow> (s, p) \<in> set xs \<Longrightarrow> symbol_at (insert_all xs t) p = Some s"
proof (induction xs arbitrary: t)
  case (Cons x xs)
  have step: "insert_all (x # xs) t = insert_all xs (trie_insert (snd x) (fst x) t)" for x
    by (simp add: insert_all_def case_prod_unfold)
  show ?case
  proof (cases "x = (s, p)")
    case True
    then show ?thesis
      using Cons.prems symbol_at_insert_all_other [of p xs "trie_insert p s t"]
      by (simp add: step symbol_at_insert)
  next
    case False
    then show ?thesis using Cons by (simp add: step)
  qed
qed simp

lemma build_trie_insert_all:
  "build_trie = insert_all (map (apsnd code_bits) (enumerate 0 HUFFMAN_CODES)) trie_default"
  by (simp add: build_trie_def insert_all_def fold_map comp_def case_prod_unfold)

lemma symbol_at_build_trie:
  "symbol_at build_trie p = Some s \<longleftrightarrow> s < 257 \<and> p = code_bits (HUFFMAN_CODES ! s)"
proof -
  let ?xs = "map (apsnd code_bits) (enumerate 0 HUFFMAN_CODES)"
  have xs: "?xs = map (\<lambda>i. (i, code_bits (HUFFMAN_CODES ! i))) [0..<257]"
    by (rule nth_equalityI) (simp_all add: nth_enumerate_eq)
  have set: "(s, p) \<in> set ?xs \<longleftrightarrow> s < 257 \<and> p = code_bits (HUFFMAN_CODES ! s)" for s p
    unfolding xs by auto
  have dist: "distinct (map snd ?xs)"
    by (auto simp: distinct_conv_nth nth_enumerate_eq dest: prefix_free [where r = "[]"])
  show ?thesis
  proof (cases "\<exists>t. (t, p) \<in> set ?xs")
    case True
    then obtain t where t: "(t, p) \<in> set ?xs" by blast
    then have "symbol_at build_trie p = Some t"
      unfolding build_trie_insert_all by (rule symbol_at_insert_all [OF dist])
    moreover have "s < 257 \<Longrightarrow> p = code_bits (HUFFMAN_CODES ! s) \<Longrightarrow> s = t"
      using t prefix_free [of s t "[]"] by (simp only: set) simp
    ultimately show ?thesis using t by (auto simp only: set option.inject)
  next
    case False
    then have "symbol_at build_trie p = None"
      unfolding build_trie_insert_all by (subst symbol_at_insert_all_other) (auto simp only: symbol_at_default snd_conv)
    then show ?thesis using False by (simp add: set del: set_map)
  qed
qed

lemma inner_no_symbol:
  "s < 257 \<Longrightarrow> code_bits (HUFFMAN_CODES ! s) = p @ q \<Longrightarrow> q \<noteq> [] \<Longrightarrow> symbol_at build_trie p = None"
  using symbol_at_build_trie [of p] prefix_free [of _ s q] by (cases "symbol_at build_trie p") auto

subsection \<open>Decoding\<close>

definition unpack :: "bytes \<Rightarrow> bool list" where
  "unpack out = concat (map byte_bits out)"

lemma unpack_simps [simp]: "unpack [] = []" "unpack (v # out) = byte_bits v @ unpack out"
  by (simp_all add: unpack_def)

definition code_stream :: "bytes \<Rightarrow> bool list" where
  "code_stream xs = concat (map (\<lambda>b. code_bits (huffman_code b)) xs)"

lemma code_stream_simps [simp]:
  "code_stream [] = []"
  "code_stream (b # bs) = code_bits (huffman_code b) @ code_stream bs"
  "code_stream (xs @ ys) = code_stream xs @ code_stream ys"
  by (simp_all add: code_stream_def)

definition at_path :: "bool list \<Rightarrow> huff_state \<Rightarrow> bool" where
  "at_path p s \<longleftrightarrow> node_at build_trie p = Some (hs_node s) \<and> hs_partial_bits s = length p
     \<and> hs_all_ones s = list_all id p"

lemma at_path_Nil: "at_path [] s \<longleftrightarrow> hs_node s = build_trie \<and> hs_partial_bits s = 0 \<and> hs_all_ones s"
  by (auto simp: at_path_def)

lemma node_at_size: "node_at n p = Some m \<Longrightarrow> p \<noteq> [] \<Longrightarrow> size m < size n"
proof (induction p arbitrary: n)
  case (Cons b p)
  obtain k where k: "child n b = Some k" "node_at k p = Some m"
    using Cons.prems(1) by (auto split: option.splits)
  then have "size k < size n" by (cases n) (auto simp: child_def split: if_splits)
  then show ?case using Cons.IH [OF k(2)] k(2) by (cases "p = []") auto
qed simp

lemma at_path_root: "at_path p s \<Longrightarrow> hs_node s = build_trie \<longleftrightarrow> p = []"
  using node_at_size [of build_trie p build_trie] by (auto simp: at_path_def)

lemma decode_bit_at:
  assumes "at_path p s"
  shows "decode_bit build_trie b s =
    (case node_at build_trie (p @ [b]) of
       None \<Rightarrow> Err (huffman_error ''invalid Huffman code'')
     | Some n \<Rightarrow> (case symbol_at build_trie (p @ [b]) of
         None \<Rightarrow> Ok (s\<lparr>hs_node := n, hs_partial_bits := length p + 1, hs_all_ones := list_all id (p @ [b])\<rparr>)
       | Some sm \<Rightarrow> if sm = 256 then Err (huffman_error ''EOS symbol in Huffman stream'')
           else Ok (s\<lparr>hs_out := hs_out s @ [word_of_nat sm], hs_node := build_trie,
                     hs_partial_bits := 0, hs_all_ones := True\<rparr>)))"
  using assms
  by (auto simp: at_path_def decode_bit_def node_at_append symbol_at_def HUFFMAN_EOS_def split: option.split)

lemma huffman_code_of_nat: "sm < 256 \<Longrightarrow> huffman_code (word_of_nat sm) = HUFFMAN_CODES ! sm"
  by (simp add: huffman_code_def unat_of_nat)

lemma decode_bit_sound:
  assumes "at_path p s" and "decode_bit build_trie b s = Ok s'"
  shows "\<exists>p'. at_path p' s' \<and> code_stream (hs_out s') @ p' = code_stream (hs_out s) @ p @ [b]"
proof (cases "symbol_at build_trie (p @ [b])")
  case None
  then show ?thesis
    using assms(2) by (intro exI [of _ "p @ [b]"]) (auto simp: decode_bit_at [OF assms(1)] at_path_def split: option.splits)
next
  case (Some sm)
  then have "sm < 257" "p @ [b] = code_bits (HUFFMAN_CODES ! sm)" by (simp_all add: symbol_at_build_trie)
  then show ?thesis
    using assms(2) Some huffman_code_of_nat [of sm]
    by (intro exI [of _ "[]"]) (auto simp: decode_bit_at [OF assms(1)] at_path_Nil split: option.splits if_splits)
qed

lemma decode_bits_sound:
  "decode_bits build_trie bs s = Ok s' \<Longrightarrow> at_path p s \<Longrightarrow>
   \<exists>p'. at_path p' s' \<and> code_stream (hs_out s') @ p' = code_stream (hs_out s) @ p @ bs"
proof (induction bs arbitrary: s p)
  case (Cons b bs)
  then obtain s1 where s1: "decode_bit build_trie b s = Ok s1" "decode_bits build_trie bs s1 = Ok s'" by auto
  then obtain p1 where "at_path p1 s1" "code_stream (hs_out s1) @ p1 = code_stream (hs_out s) @ p @ [b]"
    using decode_bit_sound [OF Cons.prems(2)] by blast
  then show ?case using Cons.IH [OF s1(2)] by (metis append.assoc append_Cons append_Nil)
qed auto

lemma node_at_prefix: "s < 257 \<Longrightarrow> code_bits (HUFFMAN_CODES ! s) = p @ q \<Longrightarrow> \<exists>n. node_at build_trie p = Some n"
  using symbol_at_build_trie [of "p @ q" s] by (auto simp: symbol_at_def node_at_append split: option.splits)

lemma decode_code_rest:
  "sm < 256 \<Longrightarrow> code_bits (HUFFMAN_CODES ! sm) = p @ q \<Longrightarrow> q \<noteq> [] \<Longrightarrow> at_path p s \<Longrightarrow>
   decode_bits build_trie q s = Ok (s\<lparr>hs_out := hs_out s @ [word_of_nat sm], hs_node := build_trie,
     hs_partial_bits := 0, hs_all_ones := True\<rparr>)"
proof (induction q arbitrary: p s)
  case (Cons b q)
  obtain n where n: "node_at build_trie (p @ [b]) = Some n"
    using node_at_prefix [of sm "p @ [b]" q] Cons.prems(1,2) by auto
  show ?case
  proof (cases "q = []")
    case True
    then have "symbol_at build_trie (p @ [b]) = Some sm"
      using Cons.prems(1,2) by (simp add: symbol_at_build_trie)
    then show ?thesis using Cons.prems(1) n True by (simp add: decode_bit_at [OF Cons.prems(4)])
  next
    case False
    then have none: "symbol_at build_trie (p @ [b]) = None"
      using inner_no_symbol [of sm "p @ [b]" q] Cons.prems(1,2) by simp
    let ?s = "s\<lparr>hs_node := n, hs_partial_bits := length p + 1, hs_all_ones := list_all id (p @ [b])\<rparr>"
    have "at_path (p @ [b]) ?s" using n by (simp add: at_path_def)
    from Cons.IH [OF Cons.prems(1) _ False this] show ?thesis
      using Cons.prems(2) n none by (simp add: decode_bit_at [OF Cons.prems(4)])
  qed
qed simp

lemma decode_bits_append:
  "decode_bits root (xs @ ys) s = rbind (decode_bits root xs s) (decode_bits root ys)"
  by (induction xs arbitrary: s) (auto simp: rbind_assoc intro!: rbind_cong)

lemma code_bits_nonempty: "code_bits (huffman_code b) \<noteq> []"
proof -
  obtain c n where cn: "HUFFMAN_CODES ! unat b = (c, n)" by fastforce
  have "unat b < 257" by (rule order_less_trans [OF unat_u8_less]) simp
  from code_entry [OF this cn] show ?thesis
    by (simp add: huffman_code_def cn flip: length_greater_0_conv)
qed

lemma decode_code_stream:
  "at_path [] s \<Longrightarrow> decode_bits build_trie (code_stream xs) s = Ok (s\<lparr>hs_out := hs_out s @ xs\<rparr>)"
proof (induction xs arbitrary: s)
  case (Cons b xs)
  have "decode_bits build_trie (code_bits (huffman_code b)) s =
      Ok (s\<lparr>hs_out := hs_out s @ [b], hs_node := build_trie, hs_partial_bits := 0, hs_all_ones := True\<rparr>)"
    using decode_code_rest [of "unat b" "[]" "code_bits (huffman_code b)" s] Cons.prems code_bits_nonempty
    by (simp add: huffman_code_def)
  then show ?case using Cons by (simp add: decode_bits_append at_path_Nil)
qed simp

lemma eos_code: "code_bits (HUFFMAN_CODES ! 256) = replicate 30 True"
  unfolding huffman_table by (simp add: code_bits_bit numeral_eq_Suc)

lemma all_ones_replicate: "list_all id p \<Longrightarrow> p = replicate (length p) True"
  by (induction p) auto

lemma decode_ones:
  "length p + k \<le> 7 \<Longrightarrow> list_all id p \<Longrightarrow> at_path p s \<Longrightarrow>
   \<exists>s'. decode_bits build_trie (replicate k True) s = Ok s' \<and> hs_out s' = hs_out s \<and> hs_all_ones s'
     \<and> hs_partial_bits s' \<le> 7"
proof (induction k arbitrary: p s)
  case (Suc k)
  have "p @ [True] = replicate (length p + 1) True"
    using all_ones_replicate [OF Suc.prems(2)] by (metis replicate_add replicate_0 replicate_Suc One_nat_def)
  moreover have "30 = (length p + 1) + (30 - (length p + 1))" using Suc.prems(1) by simp
  ultimately have eos: "code_bits (HUFFMAN_CODES ! 256) = (p @ [True]) @ replicate (30 - (length p + 1)) True"
    by (metis eos_code replicate_add)
  obtain n where n: "node_at build_trie (p @ [True]) = Some n"
    using node_at_prefix [of 256, OF _ eos] by auto
  have none: "symbol_at build_trie (p @ [True]) = None"
    using inner_no_symbol [of 256, OF _ eos] Suc.prems(1) by auto
  let ?s = "s\<lparr>hs_node := n, hs_partial_bits := length p + 1, hs_all_ones := list_all id (p @ [True])\<rparr>"
  have "at_path (p @ [True]) ?s" using n by (simp add: at_path_def)
  from Suc.IH [OF _ _ this] show ?case
    using Suc.prems n none by (simp add: decode_bit_at [OF Suc.prems(3)] id_def)
qed (auto simp: at_path_def)

lemma huffman_decode_iff:
  "huffman_decode x = Ok y \<longleftrightarrow>
     (\<exists>k \<le> 7. unpack x = code_stream y @ replicate k True)"
proof
  let ?s0 = "\<lparr>hs_out = [], hs_node = build_trie, hs_partial_bits = 0, hs_all_ones = True\<rparr>"
  have s0: "at_path [] ?s0" by (simp add: at_path_Nil)
  assume "huffman_decode x = Ok y"
  then obtain s where s: "decode_bits build_trie (unpack x) ?s0 = Ok s"
      "hs_node s \<noteq> build_trie \<longrightarrow> hs_partial_bits s \<le> 7 \<and> hs_all_ones s" "hs_out s = y"
    by (auto simp: huffman_decode_def huffman_decode_with_def unpack_def [symmetric] split: if_splits)
  obtain p where p: "at_path p s" "code_stream y @ p = unpack x"
    using decode_bits_sound [OF s(1) s0] s(3) by auto
  have "length p \<le> 7 \<and> list_all id p"
    using s(2) p(1) at_path_root [OF p(1)] by (cases "p = []") (auto simp: at_path_def)
  moreover then have "p = replicate (length p) True" using all_ones_replicate by blast
  ultimately show "\<exists>k \<le> 7. unpack x = code_stream y @ replicate k True"
    using p(2) by metis
next
  let ?s0 = "\<lparr>hs_out = [], hs_node = build_trie, hs_partial_bits = 0, hs_all_ones = True\<rparr>"
  assume "\<exists>k \<le> 7. unpack x = code_stream y @ replicate k True"
  then obtain k where k: "k \<le> 7" "unpack x = code_stream y @ replicate k True" by blast
  have "decode_bits build_trie (code_stream y) ?s0 = Ok (?s0\<lparr>hs_out := y\<rparr>)"
    using decode_code_stream [of ?s0 y] by (simp add: at_path_Nil)
  moreover obtain s' where "decode_bits build_trie (replicate k True) (?s0\<lparr>hs_out := y\<rparr>) = Ok s'"
      "hs_out s' = y" "hs_all_ones s'" "hs_partial_bits s' \<le> 7"
    using decode_ones [of "[]" k "?s0\<lparr>hs_out := y\<rparr>"] k(1) by (auto simp: at_path_Nil)
  ultimately show "huffman_decode x = Ok y"
    by (simp add: huffman_decode_def huffman_decode_with_def unpack_def [symmetric] decode_bits_append k(2))
qed

subsection \<open>Encoding\<close>

lemma byte_bits_bit: "byte_bits v = map (bit v) (rev [0..<8])"
  by (simp add: byte_bits_def bit_iff_odd_drop_bit and_one_eq odd_iff_mod_2_eq_one)

lemma length_byte_bits [simp]: "length (byte_bits v) = 8"
  by (simp add: byte_bits_def)

lemma length_unpack [simp]: "length (unpack out) = 8 * length out"
  by (induction out) simp_all

lemma byte_bits_inj: "byte_bits v = byte_bits w \<Longrightarrow> v = w"
proof -
  assume eq: "byte_bits v = byte_bits w"
  have "bit v n = bit w n" if "n < 8" for n
    using arg_cong [OF eq, of "\<lambda>l. l ! (7 - n)"] that by (simp add: byte_bits_bit rev_nth)
  then show ?thesis by (intro bit_word_eqI) simp
qed

lemma unpack_inj: "unpack x = unpack y \<Longrightarrow> x = y"
proof (induction x arbitrary: y)
  case Nil
  then have "length (unpack y) = 0" by simp
  then show ?case by (cases y) simp_all
next
  case (Cons v x)
  then have "length (unpack y) = 8 * length (v # x)" by (metis length_unpack)
  then obtain w y' where y: "y = w # y'" by (cases y) auto
  then have "byte_bits v = byte_bits w \<and> unpack x = unpack y'" using Cons.prems by simp
  then show ?case using Cons.IH byte_bits_inj y by blast
qed

lemma unpack_zeros: "unpack (replicate n 0) = replicate (8 * n) False"
proof -
  have "byte_bits 0 = replicate 8 False" by (simp add: byte_bits_bit numeral_eq_Suc)
  then show ?thesis by (induction n) (simp_all flip: replicate_add)
qed

lemma byte_bits_set: "j < 8 \<Longrightarrow> byte_bits (v OR drop_bit j 0x80) = (byte_bits v)[j := True]"
proof (rule nth_equalityI)
  fix i assume j: "j < 8" and "i < length (byte_bits (v OR drop_bit j 0x80))"
  then have i: "i < 8" by simp
  have 80: "bit (0x80 :: u8) n \<longleftrightarrow> n = 7" if "n < 8" for n
  proof -
    have "(0x80 :: u8) = 2 ^ 7" by simp
    then show ?thesis using that by (simp only: bit_exp_iff) (auto simp: possible_bit_word)
  qed
  have "bit (0x80 :: u8) (j + (7 - i)) \<longleftrightarrow> j = i"
  proof (cases "j + (7 - i) < 8")
    case True
    then show ?thesis using 80 [OF True] i by auto
  next
    case False
    then have "\<not> bit (0x80 :: u8) (j + (7 - i))" using bit_imp_le_length [of "0x80 :: u8" "j + (7 - i)"] by auto
    then show ?thesis using False i by auto
  qed
  then show "byte_bits (v OR drop_bit j 0x80) ! i = (byte_bits v)[j := True] ! i"
    using i j by (auto simp: byte_bits_bit rev_nth bit_or_iff bit_drop_bit_eq nth_list_update)
qed simp

lemma unpack_update:
  "i < length out \<Longrightarrow> j < 8 \<Longrightarrow> unpack (out[i := out ! i OR drop_bit j 0x80]) = (unpack out)[8 * i + j := True]"
proof (induction out arbitrary: i)
  case (Cons v out)
  then show ?case
    by (cases i) (simp_all add: byte_bits_set list_update_append)
qed simp

lemma set_out_bit_Ok:
  assumes "pos < 8 * length out"
  shows "\<exists>out'. set_out_bit pos out = Ok out' \<and> unpack out' = (unpack out)[pos := True]"
proof -
  have "pos div 8 < length out" using assms by simp
  then show ?thesis
    using unpack_update [of "pos div 8" out "pos mod 8"]
    by (simp add: set_out_bit_def drop_bit_eq_div nat_and_7)
qed

lemma encode_bits_Ok:
  "unpack out = d @ replicate (length bs + k) False \<Longrightarrow>
   \<exists>out'. encode_bits bs out (length d) = Ok (out', length (d @ bs)) \<and> unpack out' = d @ bs @ replicate k False"
proof (induction bs arbitrary: out d)
  case (Cons b bs)
  have "length d < 8 * length out" using arg_cong [OF Cons.prems, of length] by simp
  then obtain out1 where out1: "(if b then set_out_bit (length d) out else Ok out) = Ok out1"
      "unpack out1 = (if b then (unpack out)[length d := True] else unpack out)"
    using set_out_bit_Ok [of "length d" out] by (cases b) auto
  then have "unpack out1 = (d @ [b]) @ replicate (length bs + k) False"
    using Cons.prems by (simp add: list_update_append)
  from Cons.IH [OF this] show ?case by (auto simp: out1(1))
qed simp

lemma encode_bytes_Ok:
  "unpack out = d @ replicate (length (code_stream input) + k) False \<Longrightarrow>
   \<exists>out'. encode_bytes input out (length d) = Ok (out', length (d @ code_stream input))
     \<and> unpack out' = d @ code_stream input @ replicate k False"
proof (induction input arbitrary: out d)
  case (Cons b input)
  let ?c = "code_bits (huffman_code b)"
  have "unpack out = d @ replicate (length ?c + (length (code_stream input) + k)) False"
    using Cons.prems by (simp add: ac_simps)
  from encode_bits_Ok [OF this] obtain out1 where out1: "encode_bits ?c out (length d) = Ok (out1, length (d @ ?c))"
      "unpack out1 = (d @ ?c) @ replicate (length (code_stream input) + k) False" by auto
  from Cons.IH [OF out1(2)] show ?case using out1(1) by (auto simp: add.assoc)
qed simp

lemma pad_ones_Ok:
  "unpack out = d @ replicate k False \<Longrightarrow> k < 8 \<Longrightarrow>
   \<exists>out'. pad_ones out (length d) = Ok out' \<and> unpack out' = d @ replicate k True"
proof (induction k arbitrary: out d)
  case 0
  then have "length d = 8 * length out" using length_unpack [of out] by simp
  then show ?case using 0 by (simp add: pad_ones.simps [of out] nat_and_7)
next
  case (Suc k)
  have len: "length d + Suc k = 8 * length out" using arg_cong [OF Suc.prems(1), of length] by simp
  then obtain out1 where out1: "set_out_bit (length d) out = Ok out1" "unpack out1 = (unpack out)[length d := True]"
    using set_out_bit_Ok [of "length d" out] by auto
  have "unpack out1 = (d @ [True]) @ replicate k False"
    using out1(2) Suc.prems(1) by (simp add: list_update_append)
  moreover have "length d mod 8 \<noteq> 0" using len Suc.prems(2) by presburger
  ultimately show ?case
    using Suc.IH [of out1 "d @ [True]"] Suc.prems(2) by (auto simp: pad_ones.simps [of out] nat_and_7 out1(1))
qed

lemma length_code_stream: "length (code_stream input) = encoded_bit_length input"
  by (induction input) (simp_all add: encoded_bit_length_def)

lemma huffman_encode_Ok:
  "\<exists>out k. huffman_encode input = Ok out \<and> k \<le> 7 \<and> unpack out = code_stream input @ replicate k True
     \<and> length out = div_ceil8 (encoded_bit_length input)"
proof -
  let ?n = "encoded_bit_length input"
  define k where "k = 8 * div_ceil8 ?n - ?n"
  have k: "k < 8" "8 * div_ceil8 ?n = ?n + k" unfolding k_def div_ceil8_def by presburger+
  have "unpack (replicate (div_ceil8 ?n) 0) = [] @ replicate (length (code_stream input) + k) False"
    by (simp add: unpack_zeros k(2) length_code_stream)
  from encode_bytes_Ok [OF this] obtain out1 where out1:
      "encode_bytes input (replicate (div_ceil8 ?n) 0) 0 = Ok (out1, length (code_stream input))"
      "unpack out1 = code_stream input @ replicate k False" by auto
  from pad_ones_Ok [OF out1(2) k(1)] obtain out where out:
      "pad_ones out1 (length (code_stream input)) = Ok out" "unpack out = code_stream input @ replicate k True"
    by blast
  have "length out = div_ceil8 ?n"
    using arg_cong [OF out(2), of length] k(2) by (simp add: length_code_stream)
  then show ?thesis using out1(1) out k(1) by (auto simp: huffman_encode_def)
qed

lemma decode_bit_no_panic: "decode_bit root b s \<noteq> Panic"
  by (simp add: decode_bit_def Let_def split: option.split)

lemma decode_bits_no_panic: "decode_bits root bs s \<noteq> Panic"
  by (induction bs arbitrary: s) (auto simp: rbind_Panic_iff decode_bit_no_panic)

lemma huffman_decode_no_panic [no_panic]: "huffman_decode x \<noteq> Panic"
  by (auto simp: huffman_decode_def huffman_decode_with_def rbind_Panic_iff decode_bits_no_panic)

lemma huffman_decode_encode_iff: "huffman_decode x = Ok y \<longleftrightarrow> huffman_encode y = Ok x"
proof -
  obtain out k where e: "huffman_encode y = Ok out" "k \<le> 7"
      "unpack out = code_stream y @ replicate k True"
    using huffman_encode_Ok by blast
  have "out = x" if "unpack x = code_stream y @ replicate j True" "j \<le> 7" for j
  proof -
    have "8 * length x = length (code_stream y) + j" "8 * length out = length (code_stream y) + k"
      using arg_cong [OF that(1), of length] arg_cong [OF e(3), of length] by simp_all
    then have "j = k" using that(2) e(2) by presburger
    then show ?thesis using that(1) e(3) by (intro unpack_inj) simp
  qed
  then show ?thesis using e by (auto simp: huffman_decode_iff)
qed

text \<open>
  C3. The Huffman decoder is exactly the inverse of the encoder.  Decoding \<open>x\<close> yields \<open>y\<close> if
  and only if \<open>x\<close> is the encoding of \<open>y\<close>: every byte string survives the round trip, and an
  input that is not the output of the encoder (a code that is not in the table, the
  end-of-string symbol, more than seven or not all-one padding bits) is not accepted.
\<close>

theorem huffman_decode_inverts_encode: "huffman_decode x = Ok y \<longleftrightarrow> huffman_encode y = Ok x"
  by (rule huffman_decode_encode_iff)

text \<open>
  \<open>huffman_shorter\<close>, which computes the length only, answers true exactly when the
  Huffman encoder (which never indexes out of its buffer) produces fewer bytes than the input.
\<close>

theorem huffman_shorter_decides:
  "huffman_shorter input \<longleftrightarrow>
     (\<exists>out. huffman_encode input = Ok out \<and> length out < length input)"
  using huffman_encode_Ok [of input] by (auto simp: huffman_shorter_def)

end
