(* ===== verification/Bytes.thy ===== *)
theory Bytes
  imports Errors
begin

text \<open>
  \<open>h2ts-client/src/bytes.rs\<close>: the growable big-endian writer and the cursor reader.
  Fixed-width reads of the reader panic past the end of the buffer, exactly where the
  Rust slice index does; \<open>br_bytes\<close> is the fallible slice read.
\<close>

subsection \<open>Big-endian conversions\<close>

definition be16 :: "u16 \<Rightarrow> bytes" where
  "be16 v = [ucast (drop_bit 8 v), ucast v]"

definition be32 :: "u32 \<Rightarrow> bytes" where
  "be32 v = [ucast (drop_bit 24 v), ucast (drop_bit 16 v), ucast (drop_bit 8 v), ucast v]"

definition from_be16 :: "u8 \<Rightarrow> u8 \<Rightarrow> u16" where
  "from_be16 a b = push_bit 8 (ucast a) OR ucast b"

definition from_be32 :: "u8 \<Rightarrow> u8 \<Rightarrow> u8 \<Rightarrow> u8 \<Rightarrow> u32" where
  "from_be32 a b c d =
     push_bit 24 (ucast a) OR push_bit 16 (ucast b) OR push_bit 8 (ucast c) OR ucast d"

definition from_be24 :: "u8 \<Rightarrow> u8 \<Rightarrow> u8 \<Rightarrow> u32" where
  "from_be24 a b c = push_bit 16 (ucast a) OR push_bit 8 (ucast b) OR ucast c"

lemma length_be16 [simp]: "length (be16 v) = 2"
  by (simp add: be16_def)

lemma length_be32 [simp]: "length (be32 v) = 4"
  by (simp add: be32_def)

lemma from_be16_be16 [simp]:
  "from_be16 (ucast (drop_bit 8 v)) (ucast v) = v"
  by (rule bit_word_eqI) (auto simp: from_be16_def bit_simps not_less)

lemma from_be32_be32 [simp]:
  "from_be32 (ucast (drop_bit 24 v)) (ucast (drop_bit 16 v)) (ucast (drop_bit 8 v)) (ucast v) = v"
proof (rule bit_word_eqI)
  fix n :: nat
  assume "n < LENGTH(32)"
  then show "bit (from_be32 (ucast (drop_bit 24 v)) (ucast (drop_bit 16 v))
      (ucast (drop_bit 8 v)) (ucast v)) n \<longleftrightarrow> bit v n"
    by (cases "n < 8"; cases "n < 16"; cases "n < 24") (auto simp: from_be32_def bit_simps)
qed

lemma from_be24_be24:
  "from_be24 (ucast (drop_bit 16 v)) (ucast (drop_bit 8 v)) (ucast v) = take_bit 24 v"
proof (rule bit_word_eqI)
  fix n :: nat
  assume "n < LENGTH(32)"
  then show "bit (from_be24 (ucast (drop_bit 16 v)) (ucast (drop_bit 8 v)) (ucast v)) n
      \<longleftrightarrow> bit (take_bit 24 v) n"
    by (cases "n < 8"; cases "n < 16") (auto simp: from_be24_def bit_simps)
qed

subsection \<open>ByteWriter\<close>

record byte_writer =
  bw_buf :: bytes

definition bw_new :: byte_writer where
  "bw_new = \<lparr>bw_buf = []\<rparr>"

definition bw_with_capacity :: "nat \<Rightarrow> byte_writer" where
  "bw_with_capacity cap = \<lparr>bw_buf = []\<rparr>"

definition bw_len :: "byte_writer \<Rightarrow> nat" where
  "bw_len w = length (bw_buf w)"

definition bw_is_empty :: "byte_writer \<Rightarrow> bool" where
  "bw_is_empty w \<longleftrightarrow> bw_buf w = []"

definition bw_u8 :: "u8 \<Rightarrow> byte_writer \<Rightarrow> byte_writer" where
  "bw_u8 v w = w\<lparr>bw_buf := bw_buf w @ [v]\<rparr>"

definition bw_u16 :: "u16 \<Rightarrow> byte_writer \<Rightarrow> byte_writer" where
  "bw_u16 v w = w\<lparr>bw_buf := bw_buf w @ be16 v\<rparr>"

definition bw_u24 :: "u32 \<Rightarrow> byte_writer \<Rightarrow> byte_writer" where
  "bw_u24 v w = w\<lparr>bw_buf := bw_buf w @ range_slice (be32 v) 1 4\<rparr>"

definition bw_u32 :: "u32 \<Rightarrow> byte_writer \<Rightarrow> byte_writer" where
  "bw_u32 v w = w\<lparr>bw_buf := bw_buf w @ be32 v\<rparr>"

definition bw_bytes :: "bytes \<Rightarrow> byte_writer \<Rightarrow> byte_writer" where
  "bw_bytes b w = w\<lparr>bw_buf := bw_buf w @ b\<rparr>"

definition bw_into_vec :: "byte_writer \<Rightarrow> bytes" where
  "bw_into_vec w = bw_buf w"

lemma be24_slice [simp]:
  "range_slice (be32 v) (Suc 0) 4 = [ucast (drop_bit 16 v), ucast (drop_bit 8 v), ucast v]"
  by (simp add: be32_def range_slice_def)

lemma bw_buf_ops [simp]:
  "bw_buf bw_new = []"
  "bw_buf (bw_with_capacity cap) = []"
  "bw_buf (bw_u8 b w) = bw_buf w @ [b]"
  "bw_buf (bw_u16 h w) = bw_buf w @ be16 h"
  "bw_buf (bw_u24 v w) = bw_buf w @ [ucast (drop_bit 16 v), ucast (drop_bit 8 v), ucast v]"
  "bw_buf (bw_u32 v w) = bw_buf w @ be32 v"
  "bw_buf (bw_bytes bs w) = bw_buf w @ bs"
  "bw_into_vec w = bw_buf w"
  by (simp_all add: bw_new_def bw_with_capacity_def bw_u8_def bw_u16_def bw_u24_def bw_u32_def
      bw_bytes_def bw_into_vec_def)

subsection \<open>ByteReader\<close>

record byte_reader =
  br_buf :: bytes
  br_cursor :: nat

definition br_new :: "bytes \<Rightarrow> byte_reader" where
  "br_new b = \<lparr>br_buf = b, br_cursor = 0\<rparr>"

definition br_remaining :: "byte_reader \<Rightarrow> nat" where
  "br_remaining r = length (br_buf r) - br_cursor r"

definition br_advance :: "nat \<Rightarrow> byte_reader \<Rightarrow> byte_reader" where
  "br_advance n r = r\<lparr>br_cursor := br_cursor r + n\<rparr>"

definition br_u8 :: "byte_reader \<Rightarrow> ('e, u8 \<times> byte_reader) result" where
  "br_u8 r = rbind (ix (br_buf r) (br_cursor r)) (\<lambda>v. Ok (v, br_advance 1 r))"

definition br_u16 :: "byte_reader \<Rightarrow> ('e, u16 \<times> byte_reader) result" where
  "br_u16 r =
     rbind (ix (br_buf r) (br_cursor r)) (\<lambda>a.
     rbind (ix (br_buf r) (br_cursor r + 1)) (\<lambda>b.
     Ok (from_be16 a b, br_advance 2 r)))"

definition br_u24 :: "byte_reader \<Rightarrow> ('e, u32 \<times> byte_reader) result" where
  "br_u24 r =
     rbind (ix (br_buf r) (br_cursor r)) (\<lambda>a.
     rbind (ix (br_buf r) (br_cursor r + 1)) (\<lambda>b.
     rbind (ix (br_buf r) (br_cursor r + 2)) (\<lambda>c.
     Ok (from_be24 a b c, br_advance 3 r))))"

definition br_u32 :: "byte_reader \<Rightarrow> ('e, u32 \<times> byte_reader) result" where
  "br_u32 r =
     rbind (ix (br_buf r) (br_cursor r)) (\<lambda>a.
     rbind (ix (br_buf r) (br_cursor r + 1)) (\<lambda>b.
     rbind (ix (br_buf r) (br_cursor r + 2)) (\<lambda>c.
     rbind (ix (br_buf r) (br_cursor r + 3)) (\<lambda>d.
     Ok (from_be32 a b c d, br_advance 4 r)))))"

definition br_bytes :: "nat \<Rightarrow> byte_reader \<Rightarrow> bytes option \<times> byte_reader" where
  "br_bytes n r =
     (if br_remaining r < n then (None, r)
      else (Some (range_slice (br_buf r) (br_cursor r) (br_cursor r + n)), br_advance n r))"

definition br_peek :: "byte_reader \<Rightarrow> ('e, u8) result" where
  "br_peek r = ix (br_buf r) (br_cursor r)"

text \<open>
  The abstraction of a reader is the input it has not consumed yet.  The cursor never
  passes the end of the buffer: \<open>wf_reader\<close>.
\<close>

definition br_rest :: "byte_reader \<Rightarrow> bytes" where
  "br_rest r = drop (br_cursor r) (br_buf r)"

definition wf_reader :: "byte_reader \<Rightarrow> bool" where
  "wf_reader r \<longleftrightarrow> br_cursor r \<le> length (br_buf r)"

lemma br_rest_new [simp]: "br_rest (br_new b) = b"
  by (simp add: br_rest_def br_new_def)

lemma wf_reader_new [simp]: "wf_reader (br_new b)"
  by (simp add: wf_reader_def br_new_def)

lemma br_remaining_rest [simp]: "br_remaining r = length (br_rest r)"
  by (simp add: br_remaining_def br_rest_def)

lemma br_rest_advance [simp]: "br_rest (br_advance n r) = drop n (br_rest r)"
  by (simp add: br_rest_def br_advance_def add.commute)

lemma wf_reader_advance: "n \<le> length (br_rest r) \<Longrightarrow> wf_reader r \<Longrightarrow> wf_reader (br_advance n r)"
  by (auto simp: wf_reader_def br_advance_def br_rest_def)

lemma ix_rest: "ix (br_buf r) (br_cursor r + k) = ix (br_rest r) k"
  by (auto simp: ix_def br_rest_def)

lemma ix_rest0: "ix (br_buf r) (br_cursor r) = ix (br_rest r) 0"
  using ix_rest [of r 0] by simp

lemma br_u8_rest [reader_simps]:
  "br_u8 r = (case br_rest r of a # _ \<Rightarrow> Ok (a, br_advance 1 r) | [] \<Rightarrow> Panic)"
  unfolding br_u8_def ix_rest0 by (simp add: ix_def split: list.split)

lemma br_peek_rest [reader_simps]:
  "br_peek r = (case br_rest r of a # _ \<Rightarrow> Ok a | [] \<Rightarrow> Panic)"
  unfolding br_peek_def ix_rest0 by (simp add: ix_def split: list.split)

lemma br_u16_rest [reader_simps]:
  "br_u16 r = (case br_rest r of a # b # _ \<Rightarrow> Ok (from_be16 a b, br_advance 2 r) | _ \<Rightarrow> Panic)"
  unfolding br_u16_def ix_rest0 ix_rest
  by (auto simp: ix_def split: list.split)

lemma br_u24_rest [reader_simps]:
  "br_u24 r = (case br_rest r of a # b # c # _ \<Rightarrow> Ok (from_be24 a b c, br_advance 3 r) | _ \<Rightarrow> Panic)"
  unfolding br_u24_def ix_rest0 ix_rest
  by (auto simp: ix_def numeral_2_eq_2 split: list.split)

lemma br_u32_rest [reader_simps]:
  "br_u32 r = (case br_rest r of
      a # b # c # d # _ \<Rightarrow> Ok (from_be32 a b c d, br_advance 4 r) | _ \<Rightarrow> Panic)"
  unfolding br_u32_def ix_rest0 ix_rest
  by (auto simp: ix_def numeral_2_eq_2 numeral_3_eq_3 split: list.split)

lemma br_bytes_rest [reader_simps]:
  "br_bytes n r =
     (if length (br_rest r) < n then (None, r) else (Some (take n (br_rest r)), br_advance n r))"
  by (simp add: br_bytes_def range_slice_def br_rest_def)

lemma br_u32_be32:
  "br_rest r = be32 v @ rest \<Longrightarrow> br_u32 r = Ok (v, br_advance 4 r)"
  by (simp add: br_u32_rest be32_def)

lemma br_u16_be16:
  "br_rest r = be16 v @ rest \<Longrightarrow> br_u16 r = Ok (v, br_advance 2 r)"
  by (simp add: br_u16_rest be16_def)

lemma br_u8_Panic_iff [simp]: "br_u8 r = Panic \<longleftrightarrow> br_rest r = []"
  by (simp add: br_u8_rest split: list.split)

lemma br_peek_Panic_iff [simp]: "br_peek r = Panic \<longleftrightarrow> br_rest r = []"
  by (simp add: br_peek_rest split: list.split)

lemma br_u16_Panic_iff [simp]: "br_u16 r = Panic \<longleftrightarrow> length (br_rest r) < 2"
  by (auto simp: br_u16_rest split: list.split)

lemma br_u32_Panic_iff [simp]: "br_u32 r = Panic \<longleftrightarrow> length (br_rest r) < 4"
  by (auto simp: br_u32_rest split: list.split)

lemma reader_not_Err [simp]: "br_u8 r \<noteq> Err e" "br_u16 r \<noteq> Err e" "br_u32 r \<noteq> Err e" "br_peek r \<noteq> Err e"
  by (auto simp: br_u8_rest br_u16_rest br_u32_rest br_peek_rest split: list.split)

lemma br_u8_OkD: "br_u8 r = Ok (v, r') \<Longrightarrow> br_rest r = v # br_rest r'"
  by (auto simp: br_u8_rest split: list.splits)

lemma br_u16_OkD: "br_u16 r = Ok (v, r') \<Longrightarrow> br_rest r' = drop 2 (br_rest r) \<and> 2 \<le> length (br_rest r)"
  by (auto simp: br_u16_rest split: list.splits)

lemma br_u32_OkD: "br_u32 r = Ok (v, r') \<Longrightarrow> br_rest r' = drop 4 (br_rest r) \<and> 4 \<le> length (br_rest r)"
  by (auto simp: br_u32_rest split: list.splits)

end
