(* ===== verification/Utf8.thy ===== *)
theory Utf8
  imports Prelude
begin

text \<open>
  UTF-8 as the program uses it: \<open>decode_utf8\<close> of \<open>h2ts-client/src/bytes.rs\<close> is
  \<open>String::from_utf8_lossy\<close>, which copies well-formed characters and replaces every maximal
  ill-formed sequence by the replacement character.  A Rust \<open>String\<close> is always valid
  UTF-8, the predicate \<open>valid_utf8\<close>.
\<close>

definition byte_or_zero :: "bytes \<Rightarrow> nat \<Rightarrow> u8" where
  "byte_or_zero xs i = (if i < length xs then xs ! i else 0)"

definition utf8_cont :: "u8 \<Rightarrow> bool" where
  "utf8_cont c \<longleftrightarrow> 0x80 \<le> c \<and> c \<le> 0xbf"

definition utf8_second3 :: "u8 \<Rightarrow> u8 \<Rightarrow> bool" where
  "utf8_second3 b c \<longleftrightarrow>
     (if b = 0xe0 then 0xa0 \<le> c \<and> c \<le> 0xbf
      else if b = 0xed then 0x80 \<le> c \<and> c \<le> 0x9f
      else utf8_cont c)"

definition utf8_second4 :: "u8 \<Rightarrow> u8 \<Rightarrow> bool" where
  "utf8_second4 b c \<longleftrightarrow>
     (if b = 0xf0 then 0x90 \<le> c \<and> c \<le> 0xbf
      else if b = 0xf4 then 0x80 \<le> c \<and> c \<le> 0x8f
      else utf8_cont c)"

text \<open>The number of bytes of the next chunk, and whether it is a well-formed character.\<close>

definition utf8_chunk :: "u8 \<Rightarrow> u8 \<Rightarrow> u8 \<Rightarrow> u8 \<Rightarrow> nat \<times> bool" where
  "utf8_chunk b c d e =
     (if b < 0x80 then (1, True)
      else if 0xc2 \<le> b \<and> b \<le> 0xdf then (if utf8_cont c then (2, True) else (1, False))
      else if 0xe0 \<le> b \<and> b \<le> 0xef then
        (if \<not> utf8_second3 b c then (1, False)
         else if \<not> utf8_cont d then (2, False) else (3, True))
      else if 0xf0 \<le> b \<and> b \<le> 0xf4 then
        (if \<not> utf8_second4 b c then (1, False)
         else if \<not> utf8_cont d then (2, False)
         else if \<not> utf8_cont e then (3, False) else (4, True))
      else (1, False))"

definition utf8_next :: "bytes \<Rightarrow> nat \<times> bool" where
  "utf8_next bs =
     utf8_chunk (byte_or_zero bs 0) (byte_or_zero bs 1) (byte_or_zero bs 2) (byte_or_zero bs 3)"

definition utf8_replacement :: bytes where
  "utf8_replacement = [0xef, 0xbf, 0xbd]"

lemma utf8_next_pos [simp]: "0 < fst (utf8_next bs)"
  by (simp add: utf8_next_def utf8_chunk_def)

lemma utf8_next_neq_0 [simp]: "fst (utf8_next bs) \<noteq> 0"
  using utf8_next_pos [of bs] by linarith

function from_utf8_lossy :: "bytes \<Rightarrow> bytes" where
  "from_utf8_lossy bs =
     (if bs = [] then []
      else (if snd (utf8_next bs) then take (fst (utf8_next bs)) bs else utf8_replacement)
             @ from_utf8_lossy (drop (fst (utf8_next bs)) bs))"
  by pat_completeness auto
termination
  by (relation "measure length") (auto simp: length_greater_0_conv)

function valid_utf8 :: "bytes \<Rightarrow> bool" where
  "valid_utf8 bs =
     (if bs = [] then True else snd (utf8_next bs) \<and> valid_utf8 (drop (fst (utf8_next bs)) bs))"
  by pat_completeness auto
termination
  by (relation "measure length") (auto simp: length_greater_0_conv)

declare from_utf8_lossy.simps [simp del] valid_utf8.simps [simp del]

definition decode_utf8 :: "bytes \<Rightarrow> string" where
  "decode_utf8 b = of_bytes (from_utf8_lossy b)"

lemma valid_utf8_Nil [simp]: "valid_utf8 []"
  by (simp add: valid_utf8.simps [of "[]"])

lemma from_utf8_lossy_Nil [simp]: "from_utf8_lossy [] = []"
  by (simp add: from_utf8_lossy.simps [of "[]"])

lemma from_utf8_lossy_valid: "valid_utf8 bs \<Longrightarrow> from_utf8_lossy bs = bs"
proof (induction bs rule: valid_utf8.induct)
  case (1 bs)
  then show ?case
    by (cases "bs = []") (simp_all add: valid_utf8.simps [of bs] from_utf8_lossy.simps [of bs])
qed

lemma decode_utf8_valid: "valid_utf8 (as_bytes s) \<Longrightarrow> decode_utf8 (as_bytes s) = s"
  by (simp add: decode_utf8_def from_utf8_lossy_valid)

lemma byte_or_zero_high: "0x80 \<le> byte_or_zero xs i \<Longrightarrow> i < length xs"
  by (auto simp: byte_or_zero_def split: if_splits)

lemma byte_or_zero_take_append:
  "i < n \<Longrightarrow> n \<le> length xs \<Longrightarrow> byte_or_zero (take n xs @ ys) i = byte_or_zero xs i"
  by (simp add: byte_or_zero_def nth_append)

lemma utf8_cont_high: "utf8_cont (byte_or_zero xs i) \<Longrightarrow> i < length xs"
  by (auto simp: utf8_cont_def dest: byte_or_zero_high)

lemma utf8_second_cont:
  "utf8_second3 b c \<Longrightarrow> utf8_cont c" "utf8_second4 b c \<Longrightarrow> utf8_cont c"
proof -
  have "0xa0 \<le> c \<Longrightarrow> 0x80 \<le> c" "0x90 \<le> c \<Longrightarrow> 0x80 \<le> c" "c \<le> 0x9f \<Longrightarrow> c \<le> 0xbf" "c \<le> 0x8f \<Longrightarrow> c \<le> 0xbf"
    by unat_arith+
  then show "utf8_second3 b c \<Longrightarrow> utf8_cont c" "utf8_second4 b c \<Longrightarrow> utf8_cont c"
    by (auto simp: utf8_second3_def utf8_second4_def utf8_cont_def split: if_splits)
qed

lemma utf8_chunk_True:
  "utf8_chunk b c d e = (n, True) \<Longrightarrow> 1 \<le> n \<and> n \<le> 4
     \<and> (2 \<le> n \<longrightarrow> utf8_cont c) \<and> (3 \<le> n \<longrightarrow> utf8_cont d) \<and> (4 \<le> n \<longrightarrow> utf8_cont e)"
  by (auto simp: utf8_chunk_def dest!: utf8_second_cont split: if_splits)

lemma utf8_chunk_stable:
  "utf8_chunk b c d e = (n, True) \<Longrightarrow> (2 \<le> n \<Longrightarrow> c' = c) \<Longrightarrow> (3 \<le> n \<Longrightarrow> d' = d) \<Longrightarrow> (4 \<le> n \<Longrightarrow> e' = e)
   \<Longrightarrow> utf8_chunk b c' d' e' = (n, True)"
  by (auto simp: utf8_chunk_def split: if_splits)

lemma utf8_next_chunk:
  assumes "bs \<noteq> []" and "utf8_next bs = (n, True)"
  shows "n \<le> length bs" and "utf8_next (take n bs @ ys) = (n, True)"
proof -
  note c = utf8_chunk_True [OF assms(2) [unfolded utf8_next_def]]
  have "4 \<le> n \<Longrightarrow> 3 < length bs" "3 \<le> n \<Longrightarrow> 2 < length bs" "2 \<le> n \<Longrightarrow> 1 < length bs"
    using c utf8_cont_high by blast+
  moreover have "0 < length bs" using assms(1) by simp
  ultimately show le: "n \<le> length bs" using c by linarith
  show "utf8_next (take n bs @ ys) = (n, True)"
    using c utf8_chunk_stable [OF assms(2) [unfolded utf8_next_def]]
    by (simp add: utf8_next_def byte_or_zero_take_append [OF _ le])
qed

lemma valid_utf8_char:
  assumes "bs \<noteq> []" and "snd (utf8_next bs)"
  shows "valid_utf8 (take (fst (utf8_next bs)) bs @ ys) \<longleftrightarrow> valid_utf8 ys"
proof -
  obtain n where n: "utf8_next bs = (n, True)" using assms(2) by (cases "utf8_next bs") simp
  then have "n \<noteq> 0" using utf8_next_neq_0 [of bs] by simp
  then show ?thesis
    using assms(1) utf8_next_chunk [OF assms(1) n] by (subst valid_utf8.simps) (simp add: n)
qed

lemma valid_utf8_replacement: "valid_utf8 (utf8_replacement @ ys) \<longleftrightarrow> valid_utf8 ys"
proof -
  have "utf8_next (utf8_replacement @ ys) = (3, True)"
    by (simp add: utf8_next_def utf8_chunk_def utf8_replacement_def byte_or_zero_def utf8_second3_def utf8_cont_def)
  then show ?thesis by (subst valid_utf8.simps) (simp add: utf8_replacement_def)
qed

lemma valid_from_utf8_lossy: "valid_utf8 (from_utf8_lossy bs)"
proof (induction bs rule: from_utf8_lossy.induct)
  case (1 bs)
  then show ?case
    by (cases "bs = []")
       (simp_all add: from_utf8_lossy.simps [of bs] valid_utf8_char valid_utf8_replacement)
qed

lemma valid_decode_utf8: "valid_utf8 (as_bytes (decode_utf8 b))"
  by (simp add: decode_utf8_def valid_from_utf8_lossy)

lemma valid_utf8_append: "valid_utf8 xs \<Longrightarrow> valid_utf8 (xs @ ys) \<longleftrightarrow> valid_utf8 ys"
proof (induction xs rule: valid_utf8.induct)
  case (1 xs)
  show ?case
  proof (cases "xs = []")
    case False
    let ?n = "fst (utf8_next xs)"
    have ok: "snd (utf8_next xs)" and rest: "valid_utf8 (drop ?n xs)"
      using 1(2) False by (simp_all add: valid_utf8.simps [of xs])
    have "valid_utf8 (take ?n xs @ (drop ?n xs @ ys)) \<longleftrightarrow> valid_utf8 (drop ?n xs @ ys)"
      using False ok by (rule valid_utf8_char)
    then show ?thesis using 1(1) [OF False rest] by (simp flip: append_assoc)
  qed simp
qed

subsection \<open>ASCII lower-casing keeps strings valid\<close>

definition lower_byte :: "u8 \<Rightarrow> u8" where
  "lower_byte b = (if 65 \<le> b \<and> b \<le> 90 then b + 32 else b)"

lemma lower_byte_cases: "lower_byte b = b \<or> b < 0x80 \<and> lower_byte b < 0x80"
proof -
  have "b + 32 < 0x80 \<and> b < 0x80" if "65 \<le> b" "b \<le> 90" using that by unat_arith
  then show ?thesis by (auto simp: lower_byte_def)
qed

lemma of_char_ascii_lower: "(of_char (ascii_lower c) :: u8) = lower_byte (of_char c)"
proof -
  let ?n = "of_char c :: nat"
  have n: "unat (of_char c :: u8) = ?n" by simp
  have iff: "65 \<le> (of_char c :: u8) \<and> (of_char c :: u8) \<le> 90 \<longleftrightarrow> 65 \<le> ?n \<and> ?n \<le> 90"
    by (simp add: word_le_nat_alt n)
  have "unat (of_char (ascii_lower c) :: u8) = unat (lower_byte (of_char c))"
  proof (cases "65 \<le> ?n \<and> ?n \<le> 90")
    case True
    then have "unat ((of_char c :: u8) + 32) = ?n + 32" by (simp add: unat_word_ariths n)
    then show ?thesis using True iff by (simp add: ascii_lower_def lower_byte_def)
  next
    case False
    then show ?thesis using iff by (auto simp: ascii_lower_def lower_byte_def)
  qed
  then show ?thesis by (rule unsigned_word_eqI)
qed

lemma as_bytes_lower: "as_bytes (to_ascii_lowercase s) = map lower_byte (as_bytes s)"
  by (simp add: as_bytes_def to_ascii_lowercase_def of_char_ascii_lower)

lemma utf8_low_byte: "c < 0x80 \<Longrightarrow> \<not> utf8_cont c"
  by (simp add: utf8_cont_def not_le)

lemma utf8_next_lower: "utf8_next (map lower_byte bs) = utf8_next bs"
proof -
  let ?f = "\<lambda>i. byte_or_zero (map lower_byte bs) i" and ?g = "\<lambda>i. byte_or_zero bs i"
  have low: "?f i = ?g i \<or> ?f i < 0x80 \<and> ?g i < 0x80" for i
    using lower_byte_cases [of "bs ! i"] by (auto simp: byte_or_zero_def)
  have cont: "utf8_cont (?f i) = utf8_cont (?g i)" for i
    using low [of i] utf8_low_byte [of "?f i"] utf8_low_byte [of "?g i"] by auto
  have second: "utf8_second3 b (?f i) = utf8_second3 b (?g i)" "utf8_second4 b (?f i) = utf8_second4 b (?g i)" for i b
    using low [of i] utf8_low_byte [of "?f i"] utf8_low_byte [of "?g i"]
      utf8_second_cont [of b "?f i"] utf8_second_cont [of b "?g i"] by auto
  show ?thesis
  proof (cases "?f 0 = ?g 0")
    case True
    then show ?thesis by (simp only: utf8_next_def utf8_chunk_def cont second)
  next
    case False
    then show ?thesis using low [of 0] by (simp add: utf8_next_def utf8_chunk_def)
  qed
qed

lemma valid_utf8_lower: "valid_utf8 bs \<Longrightarrow> valid_utf8 (map lower_byte bs)"
proof (induction bs rule: valid_utf8.induct)
  case (1 bs)
  then show ?case
    by (cases "bs = []") (simp_all add: valid_utf8.simps [of bs] valid_utf8.simps [of "map lower_byte bs"]
        utf8_next_lower drop_map)
qed

lemma valid_utf8_to_ascii_lowercase:
  "valid_utf8 (as_bytes s) \<Longrightarrow> valid_utf8 (as_bytes (to_ascii_lowercase s))"
  by (simp add: as_bytes_lower valid_utf8_lower)

end
