(* ===== verification/Hpack.thy ===== *)
theory Hpack
  imports Huffman Static_Table Bytes Utf8
begin

text \<open>
  \<open>h2ts-client/src/hpack/mod.rs\<close>: prefix integers, strings, the decoder with its dynamic
  table and the stateless encoder.

  The crate is built for 64-bit hosts and for \<open>wasm32\<close>, where \<open>usize\<close> has 32 bits, so the
  integer reader takes the width \<open>W\<close> of \<open>usize\<close> and keeps the wrap-around of shifts and
  additions in a release build.  Subtractions that would underflow are the outcome \<open>Panic\<close>.
\<close>

definition ENTRY_OVERHEAD :: nat where
  "ENTRY_OVERHEAD = 32"

definition DEFAULT_TABLE_SIZE :: nat where
  "DEFAULT_TABLE_SIZE = 4096"

record header =
  hd_name :: string
  hd_value :: string
  hd_never_index :: bool

definition header_new :: "string \<Rightarrow> string \<Rightarrow> header" where
  "header_new n v = \<lparr>hd_name = n, hd_value = v, hd_never_index = False\<rparr>"

definition header_never_indexed :: "string \<Rightarrow> string \<Rightarrow> header" where
  "header_never_indexed n v = \<lparr>hd_name = n, hd_value = v, hd_never_index = True\<rparr>"

definition compression_error :: "string \<Rightarrow> h2error" where
  "compression_error m = h2error_new CompressionError m"

subsection \<open>Prefix integers\<close>

function write_integer_rest :: "nat \<Rightarrow> byte_writer \<Rightarrow> byte_writer" where
  "write_integer_rest rest w =
     (if 128 \<le> rest then write_integer_rest (rest div 128) (bw_u8 (word_of_nat (rest mod 128) + 128) w)
      else bw_u8 (word_of_nat rest) w)"
  by pat_completeness auto
termination
  by (relation "measure fst") auto

declare write_integer_rest.simps [simp del]

definition write_integer :: "nat \<Rightarrow> nat \<Rightarrow> u8 \<Rightarrow> byte_writer \<Rightarrow> byte_writer" where
  "write_integer v prefix_bits flags w =
     (let mx = 2 ^ prefix_bits - 1 in
      if v < mx then bw_u8 (flags OR word_of_nat v) w
      else write_integer_rest (v - mx) (bw_u8 (flags OR word_of_nat mx) w))"

definition usize_shl :: "nat \<Rightarrow> nat \<Rightarrow> nat \<Rightarrow> nat" where
  "usize_shl W v n = (v * 2 ^ (n mod W)) mod 2 ^ W"

definition usize_add :: "nat \<Rightarrow> nat \<Rightarrow> nat \<Rightarrow> nat" where
  "usize_add W a b = (a + b) mod 2 ^ W"

function read_integer_loop :: "nat \<Rightarrow> nat \<Rightarrow> nat \<Rightarrow> byte_reader \<Rightarrow> (nat \<times> byte_reader) h2result" where
  "read_integer_loop W v shift r =
     (if br_remaining r = 0 then Err (compression_error ''truncated integer'')
      else rbind (br_u8 r) (\<lambda>(b, r).
        let v = usize_add W v (usize_shl W (unat (b AND 0x7f)) shift); shift = shift + 7 in
        if 42 < shift then Err (compression_error ''integer overflow'')
        else if b AND 0x80 = 0 then Ok (v, r)
        else read_integer_loop W v shift r))"
  by pat_completeness auto
termination
  by (relation "measure (\<lambda>(W, v, shift, r). br_remaining r)") (auto dest: br_u8_OkD)

declare read_integer_loop.simps [simp del]

definition read_integer :: "nat \<Rightarrow> nat \<Rightarrow> byte_reader \<Rightarrow> (nat \<times> byte_reader) h2result" where
  "read_integer W prefix_bits r =
     (let mx = 2 ^ prefix_bits - 1 in
      rbind (br_u8 r) (\<lambda>(b, r).
        let v = unat (b AND word_of_nat mx) in
        if v < mx then Ok (v, r) else read_integer_loop W v 0 r))"

subsection \<open>Strings\<close>

definition write_string :: "string \<Rightarrow> byte_writer \<Rightarrow> byte_writer h2result" where
  "write_string s w =
     (let raw = as_bytes s in
      if huffman_shorter raw then
        rbind (huffman_encode raw) (\<lambda>encoded.
        Ok (bw_bytes encoded (write_integer (length encoded) 7 0x80 w)))
      else Ok (bw_bytes raw (write_integer (length raw) 7 0 w)))"

definition read_string :: "nat \<Rightarrow> byte_reader \<Rightarrow> (string \<times> byte_reader) h2result" where
  "read_string W r =
     (if br_remaining r = 0 then Err (compression_error ''truncated string'')
      else rbind (br_peek r) (\<lambda>p.
        let huffman = (p AND 0x80 \<noteq> 0) in
        rbind (read_integer W 7 r) (\<lambda>(len, r).
        if br_remaining r < len then Err (compression_error ''string length exceeds block'')
        else case br_bytes len r of (raw, r) \<Rightarrow>
          rbind (ok_or raw (compression_error ''truncated string'')) (\<lambda>raw.
          rbind (if huffman then huffman_decode raw else Ok raw) (\<lambda>decoded.
          Ok (decode_utf8 decoded, r))))))"

subsection \<open>Static table maps\<close>

record StaticMaps =
  name_to_index :: "string \<rightharpoonup> nat"
  pair_to_index :: "string \<rightharpoonup> nat"

definition pair_key :: "string \<Rightarrow> string \<Rightarrow> string" where
  "pair_key n v = n @ [CHR 0x00] @ v"

definition or_insert :: "'k \<Rightarrow> 'v \<Rightarrow> ('k \<rightharpoonup> 'v) \<Rightarrow> ('k \<rightharpoonup> 'v)" where
  "or_insert k v m = (case m k of None \<Rightarrow> m(k \<mapsto> v) | Some _ \<Rightarrow> m)"

fun add_static_entries :: "nat \<Rightarrow> (string \<times> string) list \<Rightarrow> StaticMaps \<Rightarrow> StaticMaps" where
  "add_static_entries i [] m = m"
| "add_static_entries i ((n, v) # xs) m =
     add_static_entries (i + 1) xs
       (m\<lparr>name_to_index := or_insert n (i + 1) (name_to_index m),
          pair_to_index := (pair_to_index m)(pair_key n v \<mapsto> i + 1)\<rparr>)"

definition static_maps :: StaticMaps where
  "static_maps = add_static_entries 0 STATIC_TABLE \<lparr>name_to_index = Map.empty, pair_to_index = Map.empty\<rparr>"

subsection \<open>Decoder\<close>

record hpack_decoder =
  dynamic :: "(string \<times> string) list"
  table_size :: nat
  max_size :: nat
  protocol_max :: nat

definition hpack_decoder_new :: "nat \<Rightarrow> hpack_decoder" where
  "hpack_decoder_new mx = \<lparr>dynamic = [], table_size = 0, max_size = mx, protocol_max = mx\<rparr>"

definition hpack_decoder_default :: hpack_decoder where
  "hpack_decoder_default = hpack_decoder_new DEFAULT_TABLE_SIZE"

definition entry_size :: "string \<times> string \<Rightarrow> nat" where
  "entry_size e = length (fst e) + length (snd e) + ENTRY_OVERHEAD"

text \<open>\<open>while size + extra > max_size && !dynamic.is_empty()\<close>: pop the oldest entry.\<close>

function evict :: "nat \<Rightarrow> hpack_decoder \<Rightarrow> hpack_decoder h2result" where
  "evict extra d =
     (if max_size d < table_size d + extra \<and> dynamic d \<noteq> [] then
        (let removed = last (dynamic d) in
         if entry_size removed \<le> table_size d
         then evict extra (d\<lparr>dynamic := butlast (dynamic d), table_size := table_size d - entry_size removed\<rparr>)
         else Panic)
      else Ok d)"
  by pat_completeness auto
termination
  by (relation "measure (\<lambda>(extra, d). length (dynamic d))") auto

declare evict.simps [simp del]

definition apply_max_size :: "nat \<Rightarrow> hpack_decoder \<Rightarrow> hpack_decoder h2result" where
  "apply_max_size new_size d =
     (if protocol_max d < new_size then Err (compression_error ''dynamic table size update too large'')
      else evict 0 (d\<lparr>max_size := new_size\<rparr>))"

definition set_protocol_max_size :: "nat \<Rightarrow> hpack_decoder \<Rightarrow> hpack_decoder h2result" where
  "set_protocol_max_size n d =
     (let d = d\<lparr>protocol_max := n\<rparr> in
      if n < max_size d then (case apply_max_size n d of Err _ \<Rightarrow> Ok d | res \<Rightarrow> res) else Ok d)"

definition entry_at :: "nat \<Rightarrow> hpack_decoder \<Rightarrow> (string \<times> string) h2result" where
  "entry_at index d =
     (if 1 \<le> index \<and> index \<le> STATIC_TABLE_LENGTH then ix STATIC_TABLE (index - 1)
      else if index < STATIC_TABLE_LENGTH + 1 then Panic
      else let di = index - STATIC_TABLE_LENGTH - 1 in
        if di < length (dynamic d) then Ok (dynamic d ! di)
        else Err (compression_error (''invalid HPACK index '' @ show_nat index)))"

definition table_insert :: "string \<Rightarrow> string \<Rightarrow> hpack_decoder \<Rightarrow> hpack_decoder h2result" where
  "table_insert n v d =
     (let es = length n + length v + ENTRY_OVERHEAD in
      rbind (evict es d) (\<lambda>d.
      if es \<le> max_size d
      then Ok (d\<lparr>dynamic := (n, v) # dynamic d, table_size := table_size d + es\<rparr>)
      else Ok (d\<lparr>dynamic := [], table_size := 0\<rparr>)))"

definition read_name :: "nat \<Rightarrow> hpack_decoder \<Rightarrow> nat \<Rightarrow> byte_reader \<Rightarrow> (string \<times> byte_reader) h2result" where
  "read_name W d name_index r =
     (if name_index = 0 then read_string W r
      else rbind (entry_at name_index d) (\<lambda>e. Ok (fst e, r)))"

text \<open>
  One iteration of the loop of \<open>decode\<close>.  Every iteration changes the table only after the
  last fallible read, so an error leaves the table as the iteration found it.
\<close>

definition decode_field :: "nat \<Rightarrow> hpack_decoder \<Rightarrow> byte_reader
    \<Rightarrow> (header list \<times> hpack_decoder \<times> byte_reader) h2result" where
  "decode_field W d r =
     rbind (br_peek r) (\<lambda>first.
     if first AND 0x80 \<noteq> 0 then
       rbind (read_integer W 7 r) (\<lambda>(index, r).
       if index = 0 then Err (compression_error ''indexed field with index 0'')
       else rbind (entry_at index d) (\<lambda>(n, v). Ok ([header_new n v], d, r)))
     else if first AND 0x40 \<noteq> 0 then
       rbind (read_integer W 6 r) (\<lambda>(name_index, r).
       rbind (read_name W d name_index r) (\<lambda>(n, r).
       rbind (read_string W r) (\<lambda>(v, r).
       rbind (table_insert n v d) (\<lambda>d. Ok ([header_new n v], d, r)))))
     else if first AND 0x20 \<noteq> 0 then
       rbind (read_integer W 5 r) (\<lambda>(new_size, r).
       rbind (apply_max_size new_size d) (\<lambda>d. Ok ([], d, r)))
     else
       rbind (read_integer W 4 r) (\<lambda>(name_index, r).
       rbind (read_name W d name_index r) (\<lambda>(n, r).
       rbind (read_string W r) (\<lambda>(v, r). Ok ([header_new n v], d, r)))))"

lemma read_integer_loop_progress:
  "read_integer_loop W v shift r = Ok (v', r') \<Longrightarrow> length (br_rest r') \<le> length (br_rest r)"
proof (induction W v shift r rule: read_integer_loop.induct)
  case (1 W v shift r)
  then show ?case
    by (fastforce simp: read_integer_loop.simps [of W v shift r] Let_def dest: br_u8_OkD split: if_splits)
qed

lemma read_integer_progress:
  "read_integer W p r = Ok (v, r') \<Longrightarrow> length (br_rest r') < length (br_rest r)"
  by (fastforce simp: read_integer_def Let_def dest: br_u8_OkD read_integer_loop_progress split: if_splits)

lemma read_string_progress:
  "read_string W r = Ok (s, r') \<Longrightarrow> length (br_rest r') \<le> length (br_rest r)"
  by (fastforce simp: read_string_def Let_def br_bytes_rest dest: read_integer_progress split: if_splits)

lemma read_name_progress:
  "read_name W d i r = Ok (s, r') \<Longrightarrow> length (br_rest r') \<le> length (br_rest r)"
  by (auto simp: read_name_def dest: read_string_progress split: if_splits)

lemma decode_field_progress:
  "decode_field W d r = Ok (hs, d', r') \<Longrightarrow> length (br_rest r') < length (br_rest r)"
  by (fastforce simp: decode_field_def dest: read_integer_progress read_string_progress read_name_progress
      split: if_splits)

function decode_loop :: "nat \<Rightarrow> hpack_decoder \<Rightarrow> byte_reader \<Rightarrow> header list \<Rightarrow> header list h2result \<times> hpack_decoder" where
  "decode_loop W d r headers =
     (if 0 < br_remaining r then
        (case decode_field W d r of
           Ok (hs, d', r') \<Rightarrow> decode_loop W d' r' (headers @ hs)
         | Err e \<Rightarrow> (Err e, d)
         | Panic \<Rightarrow> (Panic, d))
      else (Ok headers, d))"
  by pat_completeness auto
termination
  by (relation "measure (\<lambda>(W, d, r, headers). br_remaining r)") (auto dest: decode_field_progress)

declare decode_loop.simps [simp del]

definition hpack_decode :: "nat \<Rightarrow> bytes \<Rightarrow> hpack_decoder \<Rightarrow> header list h2result \<times> hpack_decoder" where
  "hpack_decode W block d = decode_loop W d (br_new block) []"

subsection \<open>Encoder\<close>

definition encode_header :: "header \<Rightarrow> byte_writer \<Rightarrow> byte_writer h2result" where
  "encode_header h w =
     (let n = to_ascii_lowercase (hd_name h); v = hd_value h in
      case pair_to_index static_maps (pair_key n v) of
        Some index \<Rightarrow> Ok (write_integer index 7 0x80 w)
      | None \<Rightarrow>
          let flags = (if hd_never_index h then 0x10 else 0x00) in
          rbind (case name_to_index static_maps n of
                   Some name_index \<Rightarrow> Ok (write_integer name_index 4 flags w)
                 | None \<Rightarrow> write_string n (write_integer 0 4 flags w)) (\<lambda>w.
          write_string v w))"

fun encode_headers :: "header list \<Rightarrow> byte_writer \<Rightarrow> byte_writer h2result" where
  "encode_headers [] w = Ok w"
| "encode_headers (h # hs) w = rbind (encode_header h w) (encode_headers hs)"

definition hpack_encode :: "header list \<Rightarrow> bytes h2result" where
  "hpack_encode headers =
     rbind (encode_headers headers (bw_with_capacity 256)) (\<lambda>w. Ok (bw_into_vec w))"


subsection \<open>Prefix integers survive the round trip\<close>

function rest_bytes :: "nat \<Rightarrow> bytes" where
  "rest_bytes n = (if 128 \<le> n then (word_of_nat (n mod 128) + 128) # rest_bytes (n div 128) else [word_of_nat n])"
  by pat_completeness auto
termination by (relation "measure id") auto

declare rest_bytes.simps [simp del]

definition int_bytes :: "nat \<Rightarrow> nat \<Rightarrow> u8 \<Rightarrow> bytes" where
  "int_bytes v p flags = (if v < 2 ^ p - 1 then [flags OR word_of_nat v]
     else (flags OR word_of_nat (2 ^ p - 1)) # rest_bytes (v - (2 ^ p - 1)))"

lemma write_integer_rest_buf: "write_integer_rest n w = bw_bytes (rest_bytes n) w"
proof (induction n w rule: write_integer_rest.induct)
  case (1 n w)
  then show ?case
    by (simp add: write_integer_rest.simps [of n w] rest_bytes.simps [of n] bw_bytes_def bw_u8_def)
qed

lemma write_integer_buf: "write_integer v p f w = bw_bytes (int_bytes v p f) w"
  by (simp add: write_integer_def int_bytes_def Let_def write_integer_rest_buf bw_bytes_def bw_u8_def)

lemma br_advance_advance [simp]: "br_advance m (br_advance n r) = br_advance (n + m) r"
  by (simp add: br_advance_def add.assoc)

lemma unat_and_7f: "unat ((b :: u8) AND 0x7f) = unat b mod 128"
proof -
  have "b AND 0x7f = take_bit 7 b" by (simp add: take_bit_eq_mask mask_eq_exp_minus_1)
  then have "unat (b AND 0x7f) = take_bit 7 (unat b)" by (simp only: unsigned_take_bit_eq)
  then show ?thesis by (simp add: take_bit_eq_mod)
qed

lemma and_80_eq_0: "(b :: u8) AND 0x80 = 0 \<longleftrightarrow> unat b < 128"
proof -
  have "b AND 0x80 = 0 \<longleftrightarrow> \<not> bit b 7" using and_exp_eq_0_iff_not_bit [of b 7] by simp
  also have "\<dots> \<longleftrightarrow> \<not> bit (unat b) 7" by (simp add: bit_unsigned_iff)
  also have "\<dots> \<longleftrightarrow> unat b < 128"
  proof -
    have "unat b div 128 = 1" if "\<not> unat b < 128" by (rule div_nat_eqI) (use that in simp_all)
    then show ?thesis by (cases "unat b < 128") (simp_all add: bit_iff_odd)
  qed
  finally show ?thesis .
qed

lemma unat_small: "n < 256 \<Longrightarrow> unat (word_of_nat n :: u8) = n"
  by (simp add: unat_of_nat)

lemma unat_cont_byte: "unat (word_of_nat (n mod 128) + 128 :: u8) = n mod 128 + 128"
proof -
  have "n mod 128 < 128" by simp
  then have "unat (word_of_nat (n mod 128) :: u8) = n mod 128" by (intro unat_small) linarith
  then show ?thesis using \<open>n mod 128 < 128\<close> by (simp add: unat_word_ariths)
qed

lemma usize_shl_exact: "x * 2 ^ s < 2 ^ W \<Longrightarrow> usize_shl W x s = x * 2 ^ s"
proof (cases "x = 0")
  case False
  assume lt: "x * 2 ^ s < 2 ^ W"
  moreover have "2 ^ s \<le> x * 2 ^ s" using False by simp
  ultimately have "(2 :: nat) ^ s < 2 ^ W" by (rule order_le_less_trans [rotated])
  then have "s < W" by simp
  then show ?thesis using lt by (simp add: usize_shl_def)
qed (simp add: usize_shl_def)

lemma read_integer_loop_rest_bytes:
  assumes "br_rest r = rest_bytes n @ tl'" and "v + n * 2 ^ (7 * k) < 2 ^ W" and "n < 2 ^ (42 - 7 * k)" and "k \<le> 5"
  shows "read_integer_loop W v (7 * k) r = Ok (v + n * 2 ^ (7 * k), br_advance (length (rest_bytes n)) r)"
  using assms
proof (induction n arbitrary: r v k rule: rest_bytes.induct)
  case (1 n)
  show ?case
  proof (cases "128 \<le> n")
    case False
    then have "br_rest r = word_of_nat n # tl'" using 1(2) by (simp add: rest_bytes.simps [of n])
    moreover have "unat (word_of_nat n :: u8) = n" using False by (intro unat_small) simp
    ultimately show ?thesis
      using False 1(3,5) by (simp add: read_integer_loop.simps [of W v "7 * k"] br_u8_rest Let_def
          unat_and_7f and_80_eq_0 usize_shl_exact usize_add_def rest_bytes.simps [of n])
  next
    case True
    let ?b = "word_of_nat (n mod 128) + 128 :: u8"
    let ?v = "v + (n mod 128) * 2 ^ (7 * k)"
    have rest: "br_rest r = ?b # rest_bytes (n div 128) @ tl'"
      using 1(2) True by (simp add: rest_bytes.simps [of n])
    have "(2 :: nat) ^ 7 < 2 ^ (42 - 7 * k)" using True 1(4) by (simp add: order_le_less_trans)
    then have "7 < 42 - 7 * k" by (rule power_less_imp_less_exp [rotated]) simp
    then have k: "k + 1 \<le> 5" by simp
    have split: "?v + (n div 128) * 2 ^ (7 * (k + 1)) = v + n * 2 ^ (7 * k)"
    proof -
      have "n * 2 ^ (7 * k) = (n mod 128 + n div 128 * 128) * 2 ^ (7 * k)" by simp
      also have "\<dots> = (n mod 128) * 2 ^ (7 * k) + (n div 128) * (2 ^ (7 * k) * 128)"
        by (simp only: add_mult_distrib mult.assoc mult.commute [of "2 ^ (7 * k)"])
      finally show ?thesis by (simp add: power_add)
    qed
    have small: "n div 128 < 2 ^ (42 - 7 * (k + 1))"
    proof -
      have "(2 :: nat) ^ (42 - 7 * k) = 2 ^ (42 - 7 * (k + 1)) * 128"
      proof -
        have "42 - 7 * k = (42 - 7 * (k + 1)) + 7" using k by simp
        then have "(2 :: nat) ^ (42 - 7 * k) = 2 ^ ((42 - 7 * (k + 1)) + 7)" by (rule arg_cong)
        then show ?thesis by (simp only: power_add) simp
      qed
      then show ?thesis using 1(4) by (simp add: less_mult_imp_div_less)
    qed
    have fits: "?v < 2 ^ W" using 1(3) split by linarith
    then have "usize_shl W (n mod 128) (7 * k) = (n mod 128) * 2 ^ (7 * k)"
      by (intro usize_shl_exact) linarith
    then have step: "read_integer_loop W v (7 * k) r = read_integer_loop W ?v (7 * (k + 1)) (br_advance 1 r)"
      using rest k fits by (simp add: read_integer_loop.simps [of W v "7 * k"] br_u8_rest Let_def unat_and_7f
          and_80_eq_0 unat_cont_byte usize_add_def add.commute [of "7 * k" 7])
    have "read_integer_loop W ?v (7 * (k + 1)) (br_advance 1 r) =
        Ok (?v + (n div 128) * 2 ^ (7 * (k + 1)), br_advance (length (rest_bytes (n div 128))) (br_advance 1 r))"
      using 1(1) [OF True, of "br_advance 1 r" ?v "k + 1"] rest split 1(3) small k by simp
    then show ?thesis unfolding step split using True by (simp add: rest_bytes.simps [of n])
  qed
qed

lemma unat_prefix:
  assumes "f AND mask p = (0 :: u8)" and "v < 2 ^ p" and "p \<le> 7"
  shows "unat ((f OR word_of_nat v) AND word_of_nat (2 ^ p - 1)) = v"
proof -
  have m: "word_of_nat (2 ^ p - 1) = (mask p :: u8)" by (simp add: mask_eq_exp_minus_1 of_nat_diff)
  have "(2 :: nat) ^ p \<le> 2 ^ 7" using assms(3) by (simp only: power_increasing_iff)
  then have "unat (word_of_nat v :: u8) = v" using assms(2) by (intro unat_small) simp
  then have "unat (take_bit p (word_of_nat v :: u8)) = v"
    using assms(2) by (simp add: unsigned_take_bit_eq take_bit_nat_eq_self)
  moreover have "(f OR word_of_nat v) AND mask p = take_bit p (word_of_nat v)"
    using assms(1) by (simp add: bit.conj_disj_distrib2 take_bit_eq_mask)
  ultimately show ?thesis by (simp only: m)
qed

lemma read_integer_int_bytes:
  assumes "br_rest r = int_bytes v p f @ tl'" and f: "f AND mask p = 0" and p: "1 \<le> p" "p \<le> 7"
    and v: "v < 2 ^ W" "v < 2 ^ 42"
  shows "read_integer W p r = Ok (v, br_advance (length (int_bytes v p f)) r)"
proof (cases "v < 2 ^ p - 1")
  case True
  then have "br_rest r = (f OR word_of_nat v) # tl'" using assms(1) by (simp add: int_bytes_def)
  moreover have "v < 2 ^ p" using True by simp
  ultimately show ?thesis
    using True unat_prefix [OF f _ p(2), of v]
    by (simp add: read_integer_def Let_def br_u8_rest int_bytes_def del: of_nat_diff)
next
  case False
  let ?mx = "2 ^ p - 1 :: nat"
  have rest: "br_rest r = (f OR word_of_nat ?mx) # rest_bytes (v - ?mx) @ tl'"
    using assms(1) False by (simp add: int_bytes_def)
  have "unat ((f OR word_of_nat ?mx) AND word_of_nat ?mx) = ?mx" by (rule unat_prefix [OF f _ p(2)]) simp
  then have "read_integer W p r = read_integer_loop W ?mx 0 (br_advance 1 r)"
    using rest by (simp add: read_integer_def Let_def br_u8_rest)
  also have "\<dots> = Ok (v, br_advance (length (int_bytes v p f)) r)"
  proof -
    have "br_rest (br_advance 1 r) = rest_bytes (v - ?mx) @ tl'" using rest by simp
    moreover have "?mx + (v - ?mx) * 2 ^ (7 * 0) < 2 ^ W" "v - ?mx < 2 ^ (42 - 7 * 0)"
      using v False order_le_less_trans [OF diff_le_self v(2), of ?mx] by simp_all
    ultimately have "read_integer_loop W ?mx (7 * 0) (br_advance 1 r) =
        Ok (?mx + (v - ?mx) * 2 ^ (7 * 0), br_advance (length (rest_bytes (v - ?mx))) (br_advance 1 r))"
      by (rule read_integer_loop_rest_bytes) simp
    then show ?thesis using False by (simp add: int_bytes_def)
  qed
  finally show ?thesis .
qed

subsection \<open>Strings survive the round trip\<close>

definition string_bytes :: "string \<Rightarrow> bytes" where
  "string_bytes s =
     (let raw = as_bytes s in
      if huffman_shorter raw
      then (case huffman_encode raw of Ok e \<Rightarrow> int_bytes (length e) 7 0x80 @ e | _ \<Rightarrow> [])
      else int_bytes (length raw) 7 0 @ raw)"

lemma bw_bytes_bytes [simp]: "bw_bytes b (bw_bytes a w) = bw_bytes (a @ b) w"
  by (simp add: bw_bytes_def)

lemma write_string_buf: "write_string s w = Ok (bw_bytes (string_bytes s) w)"
  using huffman_encode_Ok [of "as_bytes s"]
  by (auto simp: write_string_def string_bytes_def Let_def write_integer_buf)

lemma int_bytes_Cons: "\<exists>v' bs. int_bytes v p f = (f OR word_of_nat v') # bs \<and> v' < 2 ^ p"
proof (cases "v < 2 ^ p - 1")
  case True
  then show ?thesis by (intro exI [of _ v]) (simp add: int_bytes_def)
next
  case False
  then show ?thesis by (intro exI [of _ "2 ^ p - 1 :: nat"]) (simp add: int_bytes_def)
qed

lemma length_huffman_shorter: "huffman_shorter raw \<Longrightarrow> huffman_encode raw = Ok e \<Longrightarrow> length e < length raw"
  using huffman_encode_Ok [of raw] by (auto simp: huffman_shorter_def)

lemma flag_80:
  "v < 128 \<Longrightarrow> (0x80 OR word_of_nat v :: u8) AND 0x80 \<noteq> 0" "v < 128 \<Longrightarrow> (0 OR word_of_nat v :: u8) AND 0x80 = 0"
proof -
  assume v: "v < 128"
  then have "unat (word_of_nat v :: u8) = v" by (intro unat_small) simp
  then have "(word_of_nat v :: u8) AND 0x80 = 0" using v by (simp add: and_80_eq_0)
  then show "(0x80 OR word_of_nat v :: u8) AND 0x80 \<noteq> 0" "(0 OR word_of_nat v :: u8) AND 0x80 = 0"
    by (simp_all add: bit.conj_disj_distrib2)
qed

lemma read_string_frag:
  assumes rest: "br_rest r = int_bytes (length e) 7 f @ e @ tl'"
    and f: "f = 0x80 \<and> huffman_decode e = Ok raw \<or> f = 0 \<and> raw = e"
    and len: "length e < 2 ^ W" "length e < 2 ^ 42"
  shows "read_string W r = Ok (decode_utf8 raw, br_advance (length (int_bytes (length e) 7 f @ e)) r)"
proof -
  obtain v bs where v: "int_bytes (length e) 7 f = (f OR word_of_nat v) # bs" "v < 128"
    using int_bytes_Cons [of "length e" 7 f] by auto
  have "f AND mask 7 = 0" using f by (auto simp: mask_eq_exp_minus_1)
  with read_integer_int_bytes [OF rest, of W] len
  have ri: "read_integer W 7 r = Ok (length e, br_advance (length (int_bytes (length e) 7 f)) r)" by simp
  have "br_peek r = Ok (f OR word_of_nat v)" using rest v(1) by (simp add: br_peek_rest)
  moreover have "((f OR word_of_nat v) AND 0x80 \<noteq> 0) = (f = 0x80)"
    using f flag_80 [OF v(2)] by auto
  moreover have "br_rest r \<noteq> []" using rest v(1) by simp
  ultimately show ?thesis
    using rest ri f by (auto simp: read_string_def Let_def br_bytes_rest)
qed

lemma read_string_bytes:
  assumes "br_rest r = string_bytes s @ tl'" and "valid_utf8 (as_bytes s)" and "length s < 2 ^ W" "length s < 2 ^ 42"
  shows "read_string W r = Ok (s, br_advance (length (string_bytes s)) r)"
proof (cases "huffman_shorter (as_bytes s)")
  case True
  obtain e where e: "huffman_encode (as_bytes s) = Ok e" using huffman_encode_Ok by blast
  then have dec: "huffman_decode e = Ok (as_bytes s)" by (simp add: huffman_decode_encode_iff)
  have sb: "string_bytes s = int_bytes (length e) 7 0x80 @ e" using True e by (simp add: string_bytes_def)
  have "length e < length s" using length_huffman_shorter [OF True e] by simp
  then show ?thesis
    using read_string_frag [where r = r and e = e and f = "0x80" and W = W and raw = "as_bytes s" and tl' = tl'] assms sb dec by (simp add: decode_utf8_valid)
next
  case False
  then have sb: "string_bytes s = int_bytes (length s) 7 0 @ as_bytes s" by (simp add: string_bytes_def)
  then show ?thesis
    using read_string_frag [where r = r and e = "as_bytes s" and f = 0 and W = W and raw = "as_bytes s" and tl' = tl'] assms by (simp add: decode_utf8_valid)
qed


subsection \<open>Header fields survive the round trip\<close>

lemma pair_key_inj: "CHR 0x00 \<notin> set n \<Longrightarrow> CHR 0x00 \<notin> set n' \<Longrightarrow> pair_key n v = pair_key n' v' \<Longrightarrow> n = n' \<and> v = v'"
proof (induction n arbitrary: n')
  case Nil
  then show ?case by (cases n') (auto simp: pair_key_def)
next
  case (Cons c n)
  then show ?case by (cases n') (auto simp: pair_key_def)
qed

lemma pair_key_nul: "CHR 0x00 \<notin> set (n @ v) \<Longrightarrow> pair_key n' v' = pair_key n v \<Longrightarrow> n' = n \<and> v' = v"
proof -
  assume nul: "CHR 0x00 \<notin> set (n @ v)" and eq: "pair_key n' v' = pair_key n v"
  have "count_list (pair_key n v) (CHR 0x00) = 1" using nul by (simp add: pair_key_def)
  moreover have "count_list (pair_key n' v') (CHR 0x00) = count_list n' (CHR 0x00) + 1 + count_list v' (CHR 0x00)"
    by (simp add: pair_key_def)
  ultimately have "count_list n' (CHR 0x00) = 0" using eq by simp
  then have "CHR 0x00 \<notin> set n'" by (simp add: count_list_0_iff)
  then show ?thesis using pair_key_inj [of n' n v' v] eq nul by simp
qed

lemma static_no_nul: "list_all (\<lambda>(n, v). CHR 0x00 \<notin> set (n @ v)) STATIC_TABLE"
  unfolding STATIC_TABLE_def by simp

lemma add_static_entries_pair:
  "pair_to_index (add_static_entries i xs m) k = Some j \<Longrightarrow>
   pair_to_index m k = Some j \<or> (i < j \<and> j \<le> i + length xs \<and> (case xs ! (j - i - 1) of (n, v) \<Rightarrow> k = pair_key n v))"
proof (induction i xs m rule: add_static_entries.induct)
  case (2 i n v xs m)
  then consider (old) "pair_to_index m k = Some j" | (new) "k = pair_key n v" "j = i + 1"
    | (later) "i + 1 < j" "j \<le> i + 1 + length xs" "case xs ! (j - (i + 1) - 1) of (n, v) \<Rightarrow> k = pair_key n v"
    by (auto split: if_splits)
  then show ?case
  proof cases
    case later
    then have "j - i - 1 = Suc (j - (i + 1) - 1)" by simp
    then show ?thesis using later by auto
  qed simp_all
qed simp

lemma add_static_entries_name:
  "name_to_index (add_static_entries i xs m) k = Some j \<Longrightarrow>
   name_to_index m k = Some j \<or> (i < j \<and> j \<le> i + length xs \<and> k = fst (xs ! (j - i - 1)))"
proof (induction i xs m rule: add_static_entries.induct)
  case (2 i n v xs m)
  then consider (old) "name_to_index m k = Some j" | (new) "k = n" "j = i + 1"
    | (later) "i + 1 < j" "j \<le> i + 1 + length xs" "k = fst (xs ! (j - (i + 1) - 1))"
    by (auto simp: or_insert_def split: if_splits option.splits)
  then show ?case
  proof cases
    case later
    then have "j - i - 1 = Suc (j - (i + 1) - 1)" by simp
    then show ?thesis using later by simp
  qed simp_all
qed simp

lemma pair_to_index_sound:
  assumes "pair_to_index static_maps (pair_key n v) = Some j"
  shows "1 \<le> j \<and> j \<le> 61 \<and> STATIC_TABLE ! (j - 1) = (n, v)"
proof -
  obtain n' v' where j: "1 \<le> j" "j \<le> 61" "STATIC_TABLE ! (j - 1) = (n', v')" "pair_key n v = pair_key n' v'"
    using add_static_entries_pair [OF assms [unfolded static_maps_def]]
    by (cases "STATIC_TABLE ! (j - 1)") auto
  have "j - 1 < length STATIC_TABLE" using j(1,2) by simp
  from nth_mem [OF this] have "(n', v') \<in> set STATIC_TABLE" by (simp only: j(3))
  then have "CHR 0x00 \<notin> set (n' @ v')" using static_no_nul by (auto simp: list_all_iff)
  from pair_key_nul [OF this j(4)] show ?thesis using j by simp
qed

lemma name_to_index_sound:
  assumes "name_to_index static_maps n = Some j"
  shows "1 \<le> j \<and> j \<le> 61 \<and> fst (STATIC_TABLE ! (j - 1)) = n"
  using add_static_entries_name [OF assms [unfolded static_maps_def]] by auto

definition header_bytes :: "header \<Rightarrow> bytes" where
  "header_bytes h =
     (let n = to_ascii_lowercase (hd_name h); v = hd_value h; flags = (if hd_never_index h then 0x10 else 0) in
      case pair_to_index static_maps (pair_key n v) of
        Some index \<Rightarrow> int_bytes index 7 0x80
      | None \<Rightarrow> (case name_to_index static_maps n of
                   Some i \<Rightarrow> int_bytes i 4 flags | None \<Rightarrow> int_bytes 0 4 flags @ string_bytes n) @ string_bytes v)"

lemma encode_header_buf: "encode_header h w = Ok (bw_bytes (header_bytes h) w)"
  by (simp add: encode_header_def header_bytes_def Let_def write_string_buf write_integer_buf split: option.split)

lemma encode_headers_buf: "encode_headers hs w = Ok (bw_bytes (concat (map header_bytes hs)) w)"
proof (induction hs arbitrary: w)
  case Nil
  then show ?case by (simp add: bw_bytes_def)
qed (simp add: encode_header_buf)

lemma hpack_encode_bytes: "hpack_encode hs = Ok (concat (map header_bytes hs))"
  by (simp add: hpack_encode_def encode_headers_buf)

definition wire_header :: "header \<Rightarrow> header" where
  "wire_header h = header_new (to_ascii_lowercase (hd_name h)) (hd_value h)"

text \<open>The strings of a header: Rust strings, short enough for the integer coding.\<close>

definition sendable :: "nat \<Rightarrow> header \<Rightarrow> bool" where
  "sendable W h \<longleftrightarrow> valid_utf8 (as_bytes (hd_name h)) \<and> valid_utf8 (as_bytes (hd_value h))
     \<and> length (hd_name h) < 2 ^ min W 42 \<and> length (hd_value h) < 2 ^ min W 42"

lemma entry_at_static: "1 \<le> i \<Longrightarrow> i \<le> 61 \<Longrightarrow> entry_at i d = Ok (STATIC_TABLE ! (i - 1))"
  by (simp add: entry_at_def)

lemma low_flags:
  assumes "f = 0 \<or> f = (0x10 :: u8)" and "v < 16"
  shows "(f OR word_of_nat v) AND 0x80 = 0" "(f OR word_of_nat v) AND 0x40 = 0" "(f OR word_of_nat v) AND 0x20 = 0"
proof -
  have "unat (word_of_nat v :: u8) = v" using assms(2) by (intro unat_small) simp
  then have "unat (take_bit 4 (word_of_nat v :: u8)) = unat (word_of_nat v :: u8)"
    using assms(2) by (simp add: unsigned_take_bit_eq take_bit_nat_eq_self)
  then have "word_of_nat v = take_bit 4 (word_of_nat v :: u8)" by (metis unsigned_word_eqI)
  then have v: "word_of_nat v = (word_of_nat v :: u8) AND 15" by (simp add: take_bit_eq_mask mask_eq_exp_minus_1)
  have "(word_of_nat v :: u8) AND x = 0" if "15 AND x = 0" for x
  proof -
    have "(word_of_nat v :: u8) AND x = word_of_nat v AND (15 AND x)"
      by (subst v) (simp only: and.assoc)
    then show ?thesis using that by simp
  qed
  from this [of "0x80"] this [of "0x40"] this [of "0x20"]
  have "(word_of_nat v :: u8) AND 0x80 = 0" "(word_of_nat v :: u8) AND 0x40 = 0" "(word_of_nat v :: u8) AND 0x20 = 0"
    by simp_all
  then show "(f OR word_of_nat v) AND 0x80 = 0" "(f OR word_of_nat v) AND 0x40 = 0" "(f OR word_of_nat v) AND 0x20 = 0"
    using assms(1) by (auto simp: bit.conj_disj_distrib2)
qed


lemma decode_field_indexed:
  assumes "br_rest r = int_bytes i 7 0x80 @ tl'" and "1 \<le> i" "i \<le> 61" and W: "6 \<le> W"
  shows "decode_field W d r =
    Ok ([header_new (fst (STATIC_TABLE ! (i - 1))) (snd (STATIC_TABLE ! (i - 1)))], d,
        br_advance (length (int_bytes i 7 0x80)) r)"
proof -
  obtain v bs where v: "int_bytes i 7 0x80 = (0x80 OR word_of_nat v) # bs" "v < 128"
    using int_bytes_Cons [of i 7 "0x80"] by auto
  have "(2 :: nat) ^ 6 \<le> 2 ^ W" using W by (simp only: power_increasing_iff)
  then have "i < 2 ^ W" using assms(3) by simp
  with read_integer_int_bytes [OF assms(1), of W] assms(3)
  have ri: "read_integer W 7 r = Ok (i, br_advance (length (int_bytes i 7 0x80)) r)"
    by (simp add: mask_eq_exp_minus_1)
  have "br_peek r = (Ok (0x80 OR word_of_nat v) :: u8 h2result)" using assms(1) v(1) by (simp add: br_peek_rest)
  then show ?thesis
    using ri flag_80(1) [OF v(2)] assms(2,3)
    by (simp add: decode_field_def entry_at_static case_prod_unfold)
qed

lemma decode_field_literal:
  assumes rest: "br_rest r = int_bytes i 4 f @ tl'" and f: "f = 0 \<or> f = 0x10" and i: "i \<le> 61" and W: "6 \<le> W"
    and name: "read_name W d i (br_advance (length (int_bytes i 4 f)) r) = Ok (n, r1)"
    and val: "read_string W r1 = Ok (v, r2)"
  shows "decode_field W d r = Ok ([header_new n v], d, r2)"
proof -
  obtain x bs where x: "int_bytes i 4 f = (f OR word_of_nat x) # bs" "x < 16"
    using int_bytes_Cons [of i 4 f] by auto
  have "(2 :: nat) ^ 6 \<le> 2 ^ W" using W by (simp only: power_increasing_iff)
  then have "i < 2 ^ W" using i by simp
  moreover have "f AND mask 4 = 0" using f by (auto simp: mask_eq_exp_minus_1)
  ultimately have ri: "read_integer W 4 r = Ok (i, br_advance (length (int_bytes i 4 f)) r)"
    using read_integer_int_bytes [OF rest, of W] i by simp
  have "br_peek r = (Ok (f OR word_of_nat x) :: u8 h2result)" using rest x(1) by (simp add: br_peek_rest)
  then show ?thesis using ri low_flags [OF f x(2)] name val by (simp add: decode_field_def)
qed

lemma decode_field_header:
  assumes rest: "br_rest r = header_bytes h @ tl'" and h: "sendable W h" and W: "6 \<le> W"
  shows "decode_field W d r = Ok ([wire_header h], d, br_advance (length (header_bytes h)) r)"
proof -
  let ?n = "to_ascii_lowercase (hd_name h)" and ?v = "hd_value h" and ?f = "if hd_never_index h then 0x10 else 0 :: u8"
  have pow: "(2 :: nat) ^ min W 42 \<le> 2 ^ W" "(2 :: nat) ^ min W 42 \<le> 2 ^ 42"
    by (rule power_increasing; simp)+
  have ok: "valid_utf8 (as_bytes ?n)" "valid_utf8 (as_bytes ?v)" "length ?n < 2 ^ W" "length ?n < 2 ^ 42"
      "length ?v < 2 ^ W" "length ?v < 2 ^ 42"
    using h pow order_less_le_trans unfolding sendable_def length_to_ascii_lowercase
    by (blast intro: valid_utf8_to_ascii_lowercase)+
  have f: "?f = 0 \<or> ?f = 0x10" by simp
  show ?thesis
  proof (cases "pair_to_index static_maps (pair_key ?n ?v)")
    case (Some j)
    then have hb: "header_bytes h = int_bytes j 7 0x80" by (simp add: header_bytes_def)
    show ?thesis
      using pair_to_index_sound [OF Some] decode_field_indexed [of r j tl' W d] rest W
      by (simp add: hb wire_header_def)
  next
    case None
    show ?thesis
    proof (cases "name_to_index static_maps ?n")
      case (Some i)
      note s = name_to_index_sound [OF Some]
      have hb: "header_bytes h = int_bytes i 4 ?f @ string_bytes ?v"
        using None Some by (simp add: header_bytes_def Let_def)
      let ?r1 = "br_advance (length (int_bytes i 4 ?f)) r"
      have "read_string W ?r1 = Ok (?v, br_advance (length (string_bytes ?v)) ?r1)"
        by (rule read_string_bytes [where tl' = tl']) (use rest hb ok in simp_all)
      moreover have "read_name W d i ?r1 = Ok (?n, ?r1)"
        using s by (simp add: read_name_def entry_at_static)
      ultimately show ?thesis
        using decode_field_literal [of r i ?f "string_bytes ?v @ tl'" W d ?n ?r1] rest hb s W f
        by (simp add: wire_header_def)
    next
      case none: None
      have hb: "header_bytes h = int_bytes 0 4 ?f @ string_bytes ?n @ string_bytes ?v"
        using None none by (simp add: header_bytes_def Let_def)
      let ?r1 = "br_advance (length (int_bytes 0 4 ?f)) r"
      let ?r2 = "br_advance (length (string_bytes ?n)) ?r1"
      have "read_string W ?r1 = Ok (?n, ?r2)"
        by (rule read_string_bytes [where tl' = "string_bytes ?v @ tl'"]) (use rest hb ok in simp_all)
      moreover have "read_string W ?r2 = Ok (?v, br_advance (length (string_bytes ?v)) ?r2)"
        by (rule read_string_bytes [where tl' = tl']) (use rest hb ok in simp_all)
      ultimately show ?thesis
        using decode_field_literal [of r 0 ?f "string_bytes ?n @ string_bytes ?v @ tl'" W d ?n ?r2] rest hb W f
        by (simp add: wire_header_def read_name_def add.assoc)
    qed
  qed
qed

lemma header_bytes_nonempty: "header_bytes h \<noteq> []"
  using int_bytes_Cons [of _ 7 "0x80"] int_bytes_Cons [of _ 4]
  by (auto simp: header_bytes_def Let_def int_bytes_def split: option.split)

lemma decode_loop_headers:
  "br_rest r = concat (map header_bytes hs) \<Longrightarrow> list_all (sendable W) hs \<Longrightarrow> 6 \<le> W \<Longrightarrow>
   decode_loop W d r acc = (Ok (acc @ map wire_header hs), d)"
proof (induction hs arbitrary: r acc)
  case (Cons h hs)
  then show ?case
    using decode_field_header [of r h "concat (map header_bytes hs)" W d] header_bytes_nonempty [of h]
    by (simp add: decode_loop.simps [of W d r])
qed (simp add: decode_loop.simps)

subsection \<open>The dynamic table keeps the newest entries that fit\<close>

definition table_total :: "(string \<times> string) list \<Rightarrow> nat" where
  "table_total xs = sum_list (map entry_size xs)"

text \<open>The specification of eviction: the longest prefix, newest entry first, of total size at most \<open>m\<close>.\<close>

fun fitting :: "nat \<Rightarrow> (string \<times> string) list \<Rightarrow> (string \<times> string) list" where
  "fitting m [] = []"
| "fitting m (e # es) = (if entry_size e \<le> m then e # fitting (m - entry_size e) es else [])"

lemma table_total_simps [simp]:
  "table_total [] = 0" "table_total (e # es) = entry_size e + table_total es"
  "table_total (xs @ ys) = table_total xs + table_total ys"
  by (simp_all add: table_total_def)

lemma entry_size_pos [simp]: "0 < entry_size e"
  by (simp add: entry_size_def ENTRY_OVERHEAD_def)

lemma fitting_total: "table_total (fitting m xs) \<le> m"
  by (induction m xs rule: fitting.induct) auto

lemma fitting_all: "table_total xs \<le> m \<Longrightarrow> fitting m xs = xs"
  by (induction m xs rule: fitting.induct) auto

lemma fitting_snoc: "m < table_total (xs @ [x]) \<Longrightarrow> fitting m (xs @ [x]) = fitting m xs"
  by (induction m xs rule: fitting.induct) auto

definition with_entries :: "(string \<times> string) list \<Rightarrow> hpack_decoder \<Rightarrow> hpack_decoder" where
  "with_entries xs d = d\<lparr>dynamic := xs, table_size := table_total xs\<rparr>"

definition table_inv :: "hpack_decoder \<Rightarrow> bool" where
  "table_inv d \<longleftrightarrow> table_size d = table_total (dynamic d) \<and> table_size d \<le> max_size d
     \<and> max_size d \<le> protocol_max d"

lemma with_entries_simps [simp]:
  "dynamic (with_entries xs d) = xs" "table_size (with_entries xs d) = table_total xs"
  "max_size (with_entries xs d) = max_size d" "protocol_max (with_entries xs d) = protocol_max d"
  "with_entries ys (with_entries xs d) = with_entries ys d"
  by (simp_all add: with_entries_def)

lemma evict_fitting:
  "table_size d = table_total (dynamic d) \<Longrightarrow>
   evict extra d = Ok (with_entries (fitting (max_size d - extra) (dynamic d)) d)"
proof (induction "dynamic d" arbitrary: d rule: rev_induct)
  case Nil
  then show ?case
    using Nil(2) Nil(1) [symmetric] by (simp add: evict.simps [of extra d] with_entries_def)
next
  case (snoc x xs)
  let ?m = "max_size d - extra"
  note dyn = snoc(2) [symmetric]
  show ?case
  proof (cases "max_size d < table_size d + extra")
    case True
    let ?d = "d\<lparr>dynamic := xs, table_size := table_size d - entry_size x\<rparr>"
    have "evict extra d = evict extra ?d"
      using True snoc(3) by (simp add: evict.simps [of extra d] dyn)
    also have "\<dots> = Ok (with_entries (fitting ?m xs) ?d)"
      using snoc(1) [of ?d] snoc(3) dyn by simp
    also have "fitting ?m xs = fitting ?m (dynamic d)"
    proof -
      have "0 < table_total (xs @ [x])" by simp
      then have "?m < table_total (xs @ [x])" using True snoc(3) unfolding dyn by linarith
      then show ?thesis by (simp only: dyn fitting_snoc)
    qed
    finally show ?thesis by (simp add: with_entries_def)
  next
    case False
    then have "fitting ?m (dynamic d) = dynamic d" using snoc(3) by (intro fitting_all) simp
    then show ?thesis using False snoc(3) by (simp add: evict.simps [of extra d] with_entries_def)
  qed
qed

lemma table_insert_fitting:
  assumes "table_inv d"
  shows "table_insert n v d = Ok (with_entries (fitting (max_size d) ((n, v) # dynamic d)) d)"
  using assms evict_fitting [of d "length n + length v + ENTRY_OVERHEAD"]
  by (auto simp: table_inv_def table_insert_def with_entries_def entry_size_def Let_def)

lemma apply_max_size_fitting:
  assumes "table_inv d" and "m \<le> protocol_max d"
  shows "apply_max_size m d = Ok (with_entries (fitting m (dynamic d)) (d\<lparr>max_size := m\<rparr>))"
  using assms evict_fitting [of "d\<lparr>max_size := m\<rparr>" 0] by (simp add: apply_max_size_def table_inv_def)

lemma table_inv_with_entries: "table_inv d \<Longrightarrow> table_total xs \<le> max_size d \<Longrightarrow> table_inv (with_entries xs d)"
  by (simp add: table_inv_def)

lemma table_insert_inv:
  assumes "table_inv d"
  shows "\<exists>d'. table_insert n v d = Ok d' \<and> table_inv d' \<and> protocol_max d' = protocol_max d"
  using table_insert_fitting [OF assms, of n v]
    table_inv_with_entries [OF assms fitting_total [of "max_size d" "(n, v) # dynamic d"]]
  by simp

lemma apply_max_size_inv:
  assumes "table_inv d" and "m \<le> protocol_max d"
  shows "\<exists>d'. apply_max_size m d = Ok d' \<and> table_inv d' \<and> protocol_max d' = protocol_max d"
  using apply_max_size_fitting [OF assms] assms(2) fitting_total [of m "dynamic d"]
  by (simp add: table_inv_def)

lemma apply_max_size_Err: "protocol_max d < m \<Longrightarrow> \<exists>e. apply_max_size m d = Err e"
  by (simp add: apply_max_size_def)

subsection \<open>The decoder never panics\<close>

lemma read_integer_loop_no_panic: "read_integer_loop W v shift r \<noteq> Panic"
proof (induction W v shift r rule: read_integer_loop.induct)
  case (1 W v shift r)
  show ?case
    using 1(1) by (subst read_integer_loop.simps) (auto simp: rbind_Panic_iff Let_def)
qed

lemma read_integer_no_panic: "br_rest r \<noteq> [] \<Longrightarrow> read_integer W p r \<noteq> Panic"
  by (auto simp: read_integer_def Let_def rbind_Panic_iff read_integer_loop_no_panic)

lemma read_string_no_panic: "read_string W r \<noteq> Panic"
  by (auto simp: read_string_def Let_def rbind_Panic_iff read_integer_no_panic no_panic br_bytes_rest split: if_splits)

lemma entry_at_no_panic: "i \<noteq> 0 \<Longrightarrow> entry_at i d \<noteq> Panic"
  by (auto simp: entry_at_def Let_def)

lemma read_name_no_panic: "read_name W d i r \<noteq> Panic"
  by (auto simp: read_name_def rbind_Panic_iff read_string_no_panic entry_at_no_panic)

lemma decode_field_no_panic:
  assumes "table_inv d" and "br_rest r \<noteq> []"
  shows "decode_field W d r \<noteq> Panic"
proof -
  have "table_insert n v d \<noteq> Panic" "apply_max_size m d \<noteq> Panic" for n v m
    using table_insert_inv [OF assms(1), of n v] apply_max_size_inv [OF assms(1), of m] apply_max_size_Err [of d m]
    by (force, cases "m \<le> protocol_max d") auto
  then show ?thesis
    using assms(2) by (auto simp: decode_field_def rbind_Panic_iff read_integer_no_panic read_string_no_panic
        read_name_no_panic entry_at_no_panic split: if_splits)
qed

lemma decode_field_inv:
  assumes "table_inv d" and "decode_field W d r = Ok (hs, d', r')"
  shows "table_inv d' \<and> protocol_max d' = protocol_max d"
proof -
  have "apply_max_size m d = Ok d' \<Longrightarrow> table_inv d' \<and> protocol_max d' = protocol_max d" for m
    using apply_max_size_inv [OF assms(1), of m] by (cases "m \<le> protocol_max d") (auto simp: apply_max_size_def)
  moreover have "table_insert n v d = Ok d' \<Longrightarrow> table_inv d' \<and> protocol_max d' = protocol_max d" for n v
    using table_insert_inv [OF assms(1), of n v] by auto
  ultimately show ?thesis
    using assms by (auto simp: decode_field_def split: if_splits)
qed

lemma decode_loop_safe:
  "table_inv d \<Longrightarrow> decode_loop W d r acc = (res, d') \<Longrightarrow>
   res \<noteq> Panic \<and> table_inv d' \<and> protocol_max d' = protocol_max d"
proof (induction W d r acc rule: decode_loop.induct)
  case (1 W d r acc)
  show ?case
  proof (cases "decode_field W d r")
    case (Ok x)
    obtain hs d1 r1 where x: "x = (hs, d1, r1)" by (cases x)
    then show ?thesis
      using 1 Ok decode_field_inv [OF 1(2)] by (auto simp: decode_loop.simps [of W d r] split: if_splits)
  qed (use 1(2,3) decode_field_no_panic [OF 1(2), of r W] in \<open>auto simp: decode_loop.simps [of W d r] split: if_splits\<close>)
qed

subsection \<open>Main theorems\<close>

text \<open>
  C2. Header compression round trip.  The encoder never panics, and for every list of headers
  whose names and values are Rust strings shorter than the integer coding allows, decoding the
  encoded block, in any state of the peer's dynamic table and for any width of \<open>usize\<close>, returns
  the same headers in the same order with lower-cased names, and leaves the table untouched.
\<close>

theorem hpack_roundtrip:
  assumes "list_all (sendable W) hs" and "6 \<le> W"
  shows "\<exists>block. hpack_encode hs = Ok block \<and> hpack_decode W block d = (Ok (map wire_header hs), d)"
  using decode_loop_headers [OF _ assms, of "br_new (concat (map header_bytes hs))" d "[]"]
  by (simp add: hpack_encode_bytes hpack_decode_def)

theorem hpack_roundtrip_witness:
  "\<exists>block. hpack_encode [header_new '':method'' ''GET'', header_never_indexed ''X-Id'' ''7''] = Ok block
     \<and> hpack_decode 32 block hpack_decoder_default =
       (Ok [header_new '':method'' ''GET'', header_new ''x-id'' ''7''], hpack_decoder_default)"
proof -
  have "list_all (sendable 32) [header_new '':method'' ''GET'', header_never_indexed ''X-Id'' ''7'']"
    by (simp add: sendable_def header_new_def header_never_indexed_def as_bytes_def valid_utf8.simps
        utf8_next_def utf8_chunk_def byte_or_zero_def)
  from hpack_roundtrip [OF this, of hpack_decoder_default] show ?thesis
    by (simp add: wire_header_def header_new_def header_never_indexed_def to_ascii_lowercase_def ascii_lower_def char_of_def bit_0)
qed

text \<open>
  No header block makes the decoder panic, and none breaks the dynamic table: after any
  block, also one that is refused half-way, the recorded size is the sum of the entry sizes, it
  is at most the current maximum, and that is at most what the local settings allow.
\<close>

theorem hpack_decode_safe:
  assumes "table_inv d" and "hpack_decode W block d = (res, d')"
  shows "res \<noteq> Panic \<and> table_inv d' \<and> protocol_max d' = protocol_max d"
  using decode_loop_safe [OF assms(1)] assms(2) by (simp add: hpack_decode_def)

theorem hpack_decode_safe_witness:
  "fst (hpack_decode 64 [0x82, 0x40] hpack_decoder_default) \<noteq> Panic
     \<and> table_inv (snd (hpack_decode 64 [0x82, 0x40] hpack_decoder_default))"
proof -
  have "table_inv hpack_decoder_default"
    by (simp add: table_inv_def hpack_decoder_default_def hpack_decoder_new_def)
  from hpack_decode_safe [OF this, of 64 "[0x82, 0x40]"] show ?thesis
    by (metis prod.collapse)
qed

text \<open>
  Insertion refines the specification of RFC 7541: after inserting an entry the table holds
  the longest newest-first prefix of the new entry followed by the old ones that fits the
  maximum size; in particular an entry larger than the table empties it.
\<close>

theorem table_insert_keeps_newest:
  assumes "table_inv d"
  shows "\<exists>d'. table_insert n v d = Ok d' \<and> dynamic d' = fitting (max_size d) ((n, v) # dynamic d) \<and> table_inv d'
    \<and> max_size d' = max_size d"
  using table_insert_fitting [OF assms, of n v] table_insert_inv [OF assms, of n v] by simp

theorem table_insert_keeps_newest_witness:
  "\<exists>d'. table_insert ''a'' ''b'' (hpack_decoder_new 40) = Ok d' \<and> dynamic d' = [(''a'', ''b'')]"
proof -
  have "table_inv (hpack_decoder_new 40)" by (simp add: table_inv_def hpack_decoder_new_def)
  from table_insert_keeps_newest [OF this, of "''a''" "''b''"] show ?thesis
    by (auto simp: hpack_decoder_new_def entry_size_def ENTRY_OVERHEAD_def)
qed

text \<open>
  Lowering the advertised table size never fails: the table is cut to the longest
  newest-first prefix that fits, and its invariant holds for the new limit.
\<close>

theorem set_protocol_max_size_shrinks:
  assumes "table_inv d"
  shows "\<exists>d'. set_protocol_max_size n d = Ok d' \<and> protocol_max d' = n
    \<and> max_size d' = min n (max_size d) \<and> dynamic d' = fitting (min n (max_size d)) (dynamic d) \<and> table_inv d'"
proof (cases "n < max_size d")
  case True
  let ?d = "d\<lparr>protocol_max := n\<rparr>"
  have inv: "table_size ?d = table_total (dynamic ?d)" using assms by (simp add: table_inv_def)
  show ?thesis
    using True evict_fitting [of "?d\<lparr>max_size := n\<rparr>" 0] inv fitting_total [of n "dynamic d"]
    by (simp add: set_protocol_max_size_def apply_max_size_def table_inv_def min_def)
next
  case False
  then show ?thesis
    using assms by (simp add: set_protocol_max_size_def table_inv_def min_def fitting_all)
qed

theorem set_protocol_max_size_shrinks_witness:
  "\<exists>d'. set_protocol_max_size 0 hpack_decoder_default = Ok d' \<and> max_size d' = 0 \<and> table_inv d'"
proof -
  have "table_inv hpack_decoder_default"
    by (simp add: table_inv_def hpack_decoder_default_def hpack_decoder_new_def)
  from set_protocol_max_size_shrinks [OF this, of 0] show ?thesis by auto
qed

text \<open>
  The overflow guard of the integer reader is sized for a 64-bit \<open>usize\<close>.  On \<open>wasm32\<close>
  the guard admits a sixth continuation byte whose shift of 35 wraps to 3, so an integer of
  \<open>2^35 + 127\<close> on the wire is read as 135 instead of being refused or read exactly.
\<close>

theorem read_integer_aliases_on_wasm32:
  "\<exists>r r'. read_integer 64 7 (br_new [0xff, 0x80, 0x80, 0x80, 0x80, 0x80, 1]) = Ok (2 ^ 35 + 127, r)
     \<and> read_integer 32 7 (br_new [0xff, 0x80, 0x80, 0x80, 0x80, 0x80, 1]) = Ok (135, r')"
  by (simp add: read_integer_def br_u8_rest read_integer_loop.simps usize_add_def usize_shl_def)

end
