(* ===== verification/Stream_State.thy ===== *)
theory Stream_State
  imports Flow Hpack
begin

text \<open>
  The per-stream part of \<open>h2ts-client/src/connection.rs\<close>: the response head, the receive
  buffer shared with the \<open>ResponseBody\<close>, and the methods of \<open>StreamState\<close>.

  The source shares three things between a stream and the \<open>Response\<close> handed to the caller
  through \<open>Rc\<close>: the receive buffer, the trailers and the channel that carries the head.  They
  are created together for one stream, so the model keeps them in one cell that the stream refers
  to by its address; the store of cells belongs to the connection.  A method takes and returns
  the stream and its cell, and reports the tasks it wakes.
\<close>

subsection \<open>Response heads\<close>

record head =
  rh_status :: nat
  rh_headers :: "string \<rightharpoonup> string"
  rh_raw :: "header list"

definition parse_u16 :: "string \<Rightarrow> nat option" where
  "parse_u16 s = parse_unsigned 65535 s"

definition add_header :: "header \<Rightarrow> (string \<rightharpoonup> string) \<Rightarrow> (string \<rightharpoonup> string)" where
  "add_header h m =
     (case m (hd_name h) of
        Some existing \<Rightarrow>
          m(hd_name h \<mapsto> existing @ (if hd_name h = ''cookie'' then ''; '' else '', '') @ hd_value h)
      | None \<Rightarrow> m(hd_name h \<mapsto> hd_value h))"

fun collect_loop :: "header list \<Rightarrow> nat \<Rightarrow> (string \<rightharpoonup> string) \<Rightarrow> nat \<times> (string \<rightharpoonup> string)" where
  "collect_loop [] status m = (status, m)"
| "collect_loop (h # hs) status m =
     (if hd_name h = '':status'' then
        collect_loop hs (case parse_u16 (hd_value h) of Some n \<Rightarrow> n | None \<Rightarrow> 0) m
      else if take 1 (hd_name h) = '':'' then collect_loop hs status m
      else collect_loop hs status (add_header h m))"

definition collect_headers :: "header list \<Rightarrow> head" where
  "collect_headers raw =
     (case collect_loop raw 0 Map.empty of (status, m) \<Rightarrow> \<lparr>rh_status = status, rh_headers = m, rh_raw = raw\<rparr>)"

subsection \<open>Shared cells\<close>

record recv_state =
  rs_queue :: "bytes list"
  rs_buffered :: nat
  rs_ended :: bool
  rs_error :: "h2error option"
  rs_waker :: "task option"

definition recv_default :: recv_state where
  "recv_default = \<lparr>rs_queue = [], rs_buffered = 0, rs_ended = False, rs_error = None, rs_waker = None\<rparr>"

datatype 'a oneshot = Waiting | Sent 'a | Dropped

record stream_cell =
  sc_recv :: recv_state
  sc_trailers :: "(string \<rightharpoonup> string) option"
  sc_head :: "head h2result oneshot"

definition cell_default :: stream_cell where
  "cell_default = \<lparr>sc_recv = recv_default, sc_trailers = None, sc_head = Waiting\<rparr>"

definition take_waker :: "recv_state \<Rightarrow> recv_state \<times> task list" where
  "take_waker r = (r\<lparr>rs_waker := None\<rparr>, case rs_waker r of Some t \<Rightarrow> [t] | None \<Rightarrow> [])"

subsection \<open>StreamState\<close>

record stream_state =
  ss_id :: u32
  ss_send_window :: send_window
  ss_head_tx :: bool
  ss_cell :: nat
  ss_got_head :: bool
  ss_local_closed :: bool
  ss_remote_closed :: bool

definition ss_new :: "u32 \<Rightarrow> int \<Rightarrow> nat \<Rightarrow> stream_state" where
  "ss_new sid initial cell =
     \<lparr>ss_id = sid, ss_send_window = sw_new initial, ss_head_tx = False, ss_cell = cell,
      ss_got_head = False, ss_local_closed = False, ss_remote_closed = False\<rparr>"

text \<open>\<open>if let Some(tx) = self.head_tx.take() { let _ = tx.send(v); }\<close>\<close>

definition send_head :: "head h2result \<Rightarrow> stream_state \<Rightarrow> stream_cell \<Rightarrow> stream_state \<times> stream_cell" where
  "send_head v s cl =
     (if ss_head_tx s then (s\<lparr>ss_head_tx := False\<rparr>, cl\<lparr>sc_head := Sent v\<rparr>) else (s, cl))"

definition end_body :: "stream_cell \<Rightarrow> stream_cell \<times> task list" where
  "end_body cl =
     (if \<not> rs_ended (sc_recv cl)
      then (case take_waker ((sc_recv cl)\<lparr>rs_ended := True\<rparr>) of (r, ws) \<Rightarrow> (cl\<lparr>sc_recv := r\<rparr>, ws))
      else (cl, []))"

definition receive_headers :: "header list \<Rightarrow> bool \<Rightarrow> stream_state \<Rightarrow> stream_cell
    \<Rightarrow> stream_state \<times> stream_cell \<times> task list" where
  "receive_headers raw end_stream s cl =
     (let finish = (\<lambda>s cl. if end_stream then (case end_body cl of (cl, ws) \<Rightarrow> (s, cl, ws)) else (s, cl, [])) in
      if \<not> ss_got_head s then
        (let h = collect_headers raw in
         if 100 \<le> rh_status h \<and> rh_status h < 200 then (s, cl, [])
         else case send_head (Ok h) (s\<lparr>ss_got_head := True\<rparr>) cl of (s, cl) \<Rightarrow> finish s cl)
      else finish s (cl\<lparr>sc_trailers := Some (rh_headers (collect_headers raw))\<rparr>))"

definition receive_data :: "bytes \<Rightarrow> bool \<Rightarrow> stream_state \<Rightarrow> stream_cell
    \<Rightarrow> stream_state \<times> stream_cell \<times> task list" where
  "receive_data data end_stream s cl =
     (let r = sc_recv cl;
          r = (if data \<noteq> [] \<and> rs_error r = None \<and> \<not> rs_ended r
               then r\<lparr>rs_queue := rs_queue r @ [data], rs_buffered := rs_buffered r + length data\<rparr> else r);
          r = (if end_stream then r\<lparr>rs_ended := True\<rparr> else r)
      in case take_waker r of (r, ws) \<Rightarrow> (s, cl\<lparr>sc_recv := r\<rparr>, ws))"

definition fail :: "h2error \<Rightarrow> stream_state \<Rightarrow> stream_cell \<Rightarrow> stream_state \<times> stream_cell \<times> task list" where
  "fail err s cl =
     (case sw_close (ss_send_window s) of (w, ws1) \<Rightarrow>
      let s = s\<lparr>ss_send_window := w\<rparr> in
      case (if \<not> ss_got_head s then send_head (Err err) (s\<lparr>ss_got_head := True\<rparr>) cl else (s, cl)) of (s, cl) \<Rightarrow>
      let r = sc_recv cl;
          r = (if rs_error r = None then r\<lparr>rs_error := Some err\<rparr> else r)
      in case take_waker (r\<lparr>rs_ended := True\<rparr>) of (r, ws2) \<Rightarrow> (s, cl\<lparr>sc_recv := r\<rparr>, ws1 @ ws2))"

definition receive_reset :: "u32 \<Rightarrow> stream_state \<Rightarrow> stream_cell \<Rightarrow> stream_state \<times> stream_cell \<times> task list" where
  "receive_reset error_code s cl =
     (let code = (case ec_from_value error_code of Some c \<Rightarrow> c | None \<Rightarrow> ProtocolError) in
      fail (h2error_stream code (''stream '' @ show_nat (unat (ss_id s)) @ '' reset by peer'') (ss_id s)) s cl)"

subsection \<open>ResponseBody\<close>

datatype 'a poll = Ready 'a | Pending

text \<open>
  \<open>poll_next\<close> on the receive buffer, with the number of bytes it returns to the receive window.
\<close>

definition recv_poll :: "task \<Rightarrow> recv_state \<Rightarrow> ((h2error, bytes) result option poll \<times> nat \<times> recv_state) h2result" where
  "recv_poll t r =
     (case rs_queue r of
        chunk # rest \<Rightarrow>
          if length chunk \<le> rs_buffered r
          then Ok (Ready (Some (Ok chunk)), length chunk,
                   r\<lparr>rs_queue := rest, rs_buffered := rs_buffered r - length chunk\<rparr>)
          else Panic
      | [] \<Rightarrow>
          (case rs_error r of
             Some e \<Rightarrow> Ok (Ready (Some (Err e)), 0, r\<lparr>rs_error := None\<rparr>)
           | None \<Rightarrow> if rs_ended r then Ok (Ready None, 0, r)
                     else Ok (Pending, 0, r\<lparr>rs_waker := Some t\<rparr>)))"

subsection \<open>The receive buffer\<close>

definition recv_inv :: "recv_state \<Rightarrow> bool" where
  "recv_inv r \<longleftrightarrow> rs_buffered r = sum_list (map length (rs_queue r)) \<and> [] \<notin> set (rs_queue r)"

lemma take_waker_simps [simp]:
  "rs_queue (fst (take_waker r)) = rs_queue r" "rs_buffered (fst (take_waker r)) = rs_buffered r"
  "rs_ended (fst (take_waker r)) = rs_ended r" "rs_error (fst (take_waker r)) = rs_error r"
  "recv_inv (fst (take_waker r)) = recv_inv r"
  by (simp_all add: take_waker_def recv_inv_def)

lemma take_waker_split: "take_waker r = (fst (take_waker r), snd (take_waker r))"
  by simp

lemma recv_inv_default [simp]: "recv_inv recv_default"
  by (simp add: recv_inv_def recv_default_def)

lemma sc_recv_send_head [simp]: "sc_recv (snd (send_head v s cl)) = sc_recv cl"
  by (simp add: send_head_def)

lemma recv_inv_end_body: "recv_inv (sc_recv cl) \<Longrightarrow> recv_inv (sc_recv (fst (end_body cl)))"
  by (auto simp: end_body_def take_waker_def recv_inv_def)

lemma recv_inv_receive_headers:
  "recv_inv (sc_recv cl) \<Longrightarrow> receive_headers raw e s cl = (s', cl', ws) \<Longrightarrow> recv_inv (sc_recv cl')"
  using recv_inv_end_body [of "snd (send_head (Ok (collect_headers raw)) (s\<lparr>ss_got_head := True\<rparr>) cl)"]
    recv_inv_end_body [of "cl\<lparr>sc_trailers := Some (rh_headers (collect_headers raw))\<rparr>"]
  by (auto simp: receive_headers_def Let_def send_head_def split: if_splits prod.splits)

lemma recv_inv_receive_data:
  "recv_inv (sc_recv cl) \<Longrightarrow> receive_data d e s cl = (s', cl', ws) \<Longrightarrow> recv_inv (sc_recv cl')"
  by (auto simp: receive_data_def Let_def take_waker_def recv_inv_def split: if_splits)

lemma recv_inv_fail:
  "recv_inv (sc_recv cl) \<Longrightarrow> fail err s cl = (s', cl', ws) \<Longrightarrow> recv_inv (sc_recv cl')"
  by (auto simp: fail_def Let_def take_waker_def recv_inv_def send_head_def split: if_splits prod.splits)

lemma recv_poll_inv:
  "recv_inv r \<Longrightarrow> \<exists>res n r'. recv_poll t r = Ok (res, n, r') \<and> recv_inv r' \<and> rs_buffered r = n + rs_buffered r'"
  by (auto simp: recv_poll_def recv_inv_def split: list.split option.split)

text \<open>What a consumer sees when it polls until nothing more is buffered.\<close>

fun drain :: "nat \<Rightarrow> task \<Rightarrow> recv_state \<Rightarrow> (h2error, bytes) result option poll list" where
  "drain 0 t r = []"
| "drain (Suc n) t r =
     (case recv_poll t r of
        Ok (Ready (Some x), _, r') \<Rightarrow> Ready (Some x) # drain n t r'
      | Ok (res, _, r') \<Rightarrow> [res]
      | _ \<Rightarrow> [])"

lemma drain_chunks:
  "recv_inv r \<Longrightarrow> drain (length (rs_queue r) + n) t r =
     map (\<lambda>c. Ready (Some (Ok c))) (rs_queue r) @ drain n t (r\<lparr>rs_queue := [], rs_buffered := 0\<rparr>)"
proof (induction "rs_queue r" arbitrary: r)
  case Nil
  then show ?case using Nil(1) [symmetric] by (cases r) (simp add: recv_inv_def)
next
  case (Cons c cs)
  let ?r = "r\<lparr>rs_queue := cs, rs_buffered := rs_buffered r - length c\<rparr>"
  have q: "rs_queue r = c # cs" using Cons(2) by simp
  then have inv: "recv_inv ?r" and le: "length c \<le> rs_buffered r" using Cons(3) by (auto simp: recv_inv_def)
  have "drain (length (rs_queue r) + n) t r = Ready (Some (Ok c)) # drain (length cs + n) t ?r"
    using q le by (simp add: recv_poll_def)
  also have "drain (length cs + n) t ?r = map (\<lambda>c. Ready (Some (Ok c))) cs @ drain n t (r\<lparr>rs_queue := [], rs_buffered := 0\<rparr>)"
    using Cons(1) [of ?r] inv by simp
  finally show ?case using q by simp
qed

text \<open>
  A failed download is never mistaken for a complete one.  Whatever state a stream is in
  when it fails (a reset, a GOAWAY, a teardown), a consumer that reads the body to its end gets
  the chunks received so far, in order, then an error, and only then the end of the stream;
  and the request itself, if it has no response yet, is answered with the error.
\<close>

theorem failed_body_ends_with_error:
  assumes "recv_inv (sc_recv cl)" and "fail err s cl = (s', cl', ws)"
  shows "\<exists>e. drain (length (rs_queue (sc_recv cl)) + 2) t (sc_recv cl') =
      map (\<lambda>c. Ready (Some (Ok c))) (rs_queue (sc_recv cl)) @ [Ready (Some (Err e)), Ready None]
    \<and> (rs_error (sc_recv cl) = None \<longrightarrow> e = err)
    \<and> (ss_head_tx s \<and> \<not> ss_got_head s \<longrightarrow> sc_head cl' = Sent (Err err))"
proof -
  have q: "rs_queue (sc_recv cl') = rs_queue (sc_recv cl)" and ended: "rs_ended (sc_recv cl')"
    and "rs_error (sc_recv cl') = (case rs_error (sc_recv cl) of None \<Rightarrow> Some err | Some e \<Rightarrow> Some e)"
    and hd: "ss_head_tx s \<and> \<not> ss_got_head s \<longrightarrow> sc_head cl' = Sent (Err err)"
    using assms(2) by (auto simp: fail_def Let_def take_waker_def send_head_def split: if_splits prod.splits option.splits)
  then obtain e where e: "rs_error (sc_recv cl') = Some e" "rs_error (sc_recv cl) = None \<longrightarrow> e = err"
    by (cases "rs_error (sc_recv cl)") auto
  have "drain (length (rs_queue (sc_recv cl')) + 2) t (sc_recv cl') =
      map (\<lambda>c. Ready (Some (Ok c))) (rs_queue (sc_recv cl')) @ [Ready (Some (Err e)), Ready None]"
    using drain_chunks [OF recv_inv_fail [OF assms], of 2 t] e(1) ended
    by (simp add: numeral_2_eq_2 recv_poll_def)
  then show ?thesis using e(2) hd q by auto
qed

theorem failed_body_ends_with_error_witness:
  "\<exists>e. drain 3 0 (sc_recv (fst (snd (fail (h2error_new Cancel ''x'') (ss_new 1 0 0)
      (cell_default\<lparr>sc_recv := recv_default\<lparr>rs_queue := [[1, 2]], rs_buffered := 2\<rparr>\<rparr>))))) =
    [Ready (Some (Ok [1, 2])), Ready (Some (Err e)), Ready None]"
proof -
  let ?cl = "cell_default\<lparr>sc_recv := recv_default\<lparr>rs_queue := [[1, 2]], rs_buffered := 2\<rparr>\<rparr>"
  obtain s' cl' ws where f: "fail (h2error_new Cancel ''x'') (ss_new 1 0 0) ?cl = (s', cl', ws)"
    by (metis prod_cases3)
  have "recv_inv (sc_recv ?cl)" by (simp add: recv_inv_def)
  from failed_body_ends_with_error [OF this f, of 0] show ?thesis by (auto simp: f numeral_3_eq_3)
qed

fun receive_all :: "bytes list \<Rightarrow> stream_state \<Rightarrow> stream_cell \<Rightarrow> stream_cell" where
  "receive_all [] s cl = fst (snd (receive_data [] True s cl))"
| "receive_all (d # ds) s cl = receive_all ds s (fst (snd (receive_data d False s cl)))"

lemma receive_all_queue:
  "\<not> rs_ended (sc_recv cl) \<Longrightarrow> rs_error (sc_recv cl) = None \<Longrightarrow> recv_inv (sc_recv cl) \<Longrightarrow>
   rs_queue (sc_recv (receive_all ds s cl)) = rs_queue (sc_recv cl) @ filter (\<lambda>d. d \<noteq> []) ds
   \<and> rs_ended (sc_recv (receive_all ds s cl)) \<and> rs_error (sc_recv (receive_all ds s cl)) = None
   \<and> recv_inv (sc_recv (receive_all ds s cl))"
proof (induction ds arbitrary: cl)
  case Nil
  then show ?case by (simp add: receive_data_def Let_def take_waker_def recv_inv_def)
next
  case (Cons d ds)
  let ?cl = "fst (snd (receive_data d False s cl))"
  have "\<not> rs_ended (sc_recv ?cl)" "rs_error (sc_recv ?cl) = None"
      "rs_queue (sc_recv ?cl) = rs_queue (sc_recv cl) @ (if d = [] then [] else [d])" "recv_inv (sc_recv ?cl)"
    using Cons.prems by (auto simp: receive_data_def Let_def take_waker_def recv_inv_def)
  then show ?case using Cons.IH [of ?cl] by simp
qed

text \<open>
  A body that ends normally is delivered exactly: the chunks of the DATA frames in the
  order they were received, then the end of the stream.
\<close>

theorem complete_body_delivered:
  "drain (length (filter (\<lambda>d. d \<noteq> []) ds) + 1) t (sc_recv (receive_all ds s cell_default)) =
     map (\<lambda>c. Ready (Some (Ok c))) (filter (\<lambda>d. d \<noteq> []) ds) @ [Ready None]"
proof -
  let ?r = "sc_recv (receive_all ds s cell_default)"
  have *: "rs_queue ?r = filter (\<lambda>d. d \<noteq> []) ds" "rs_ended ?r" "rs_error ?r = None" "recv_inv ?r"
    using receive_all_queue [of cell_default ds s] by (simp_all add: cell_default_def recv_default_def recv_inv_def)
  show ?thesis using drain_chunks [OF *(4), of 1 t] *(1,2,3) by (simp add: recv_poll_def)
qed

end
