(* ===== verification/Frames.thy ===== *)
theory Frames
  imports Bytes
begin

text \<open>
  \<open>h2ts-client/src/frames.rs\<close>: the HTTP/2 frame model and the codec of single frames.
  The streaming decoder of the same file is in theory \<open>Frame_Decoder\<close>.

  Integer casts are the casts of the source: \<open>payload.len() as u32\<close> and
  \<open>(weight - 1) as u8\<close> truncate, \<open>weight - 1\<close> wraps at weight 0 (the release profile).
  The parsing functions index the payload through a reader whose reads can panic; the
  theorems below show that they never do.
\<close>

subsection \<open>Constants and data\<close>

definition FRAME_HEADER_SIZE :: nat where
  "FRAME_HEADER_SIZE = 9"

definition DEFAULT_MAX_FRAME_SIZE :: nat where
  "DEFAULT_MAX_FRAME_SIZE = 16384"

abbreviation (input) FT_DATA :: u8 where "FT_DATA \<equiv> 0x0"
abbreviation (input) FT_HEADERS :: u8 where "FT_HEADERS \<equiv> 0x1"
abbreviation (input) FT_PRIORITY :: u8 where "FT_PRIORITY \<equiv> 0x2"
abbreviation (input) FT_RST_STREAM :: u8 where "FT_RST_STREAM \<equiv> 0x3"
abbreviation (input) FT_SETTINGS :: u8 where "FT_SETTINGS \<equiv> 0x4"
abbreviation (input) FT_PUSH_PROMISE :: u8 where "FT_PUSH_PROMISE \<equiv> 0x5"
abbreviation (input) FT_PING :: u8 where "FT_PING \<equiv> 0x6"
abbreviation (input) FT_GOAWAY :: u8 where "FT_GOAWAY \<equiv> 0x7"
abbreviation (input) FT_WINDOW_UPDATE :: u8 where "FT_WINDOW_UPDATE \<equiv> 0x8"
abbreviation (input) FT_CONTINUATION :: u8 where "FT_CONTINUATION \<equiv> 0x9"

abbreviation (input) FL_END_STREAM :: u8 where "FL_END_STREAM \<equiv> 0x1"
abbreviation (input) FL_ACK :: u8 where "FL_ACK \<equiv> 0x1"
abbreviation (input) FL_END_HEADERS :: u8 where "FL_END_HEADERS \<equiv> 0x4"
abbreviation (input) FL_PADDED :: u8 where "FL_PADDED \<equiv> 0x8"
abbreviation (input) FL_PRIORITY :: u8 where "FL_PRIORITY \<equiv> 0x20"

record settings =
  st_header_table_size :: "u32 option"
  st_enable_push :: "bool option"
  st_max_concurrent_streams :: "u32 option"
  st_initial_window_size :: "u32 option"
  st_max_frame_size :: "u32 option"
  st_max_header_list_size :: "u32 option"

definition settings_default :: settings where
  "settings_default = \<lparr>st_header_table_size = None, st_enable_push = None,
     st_max_concurrent_streams = None, st_initial_window_size = None,
     st_max_frame_size = None, st_max_header_list_size = None\<rparr>"

record priority =
  pr_stream_dependency :: u32
  pr_weight :: u16
  pr_exclusive :: bool

datatype frame =
    Data u32 bytes bool
  | Headers u32 bytes bool bool "priority option"
  | PriorityF u32 priority
  | RstStream u32 u32
  | SettingsF bool settings
  | PushPromise u32 u32 bytes bool
  | Ping bool bytes
  | Goaway u32 u32 bytes
  | WindowUpdate u32 u32
  | Continuation u32 bytes bool

record encoded =
  en_type_id :: u8
  en_flags :: u8
  en_stream_id :: u32
  en_payload :: bytes

subsection \<open>Encoding\<close>

definition mask31 :: "u32 \<Rightarrow> u32" where
  "mask31 v = v AND 0x7fffffff"

definition encode_priority :: "priority \<Rightarrow> byte_writer \<Rightarrow> byte_writer" where
  "encode_priority p w =
     (let dep = mask31 (pr_stream_dependency p) in
      bw_u8 (ucast (pr_weight p - 1))
        (bw_u32 (if pr_exclusive p then dep OR 0x80000000 else dep) w))"

definition encode_setting :: "u16 \<Rightarrow> u32 option \<Rightarrow> byte_writer \<Rightarrow> byte_writer" where
  "encode_setting i ov w = (case ov of Some v \<Rightarrow> bw_u32 v (bw_u16 i w) | None \<Rightarrow> w)"

definition u32_of_bool :: "bool \<Rightarrow> u32" where
  "u32_of_bool b = (if b then 1 else 0)"

definition encode_settings :: "settings \<Rightarrow> byte_writer \<Rightarrow> byte_writer" where
  "encode_settings s w =
     encode_setting 0x6 (st_max_header_list_size s)
    (encode_setting 0x5 (st_max_frame_size s)
    (encode_setting 0x4 (st_initial_window_size s)
    (encode_setting 0x3 (st_max_concurrent_streams s)
    (encode_setting 0x2 (map_option u32_of_bool (st_enable_push s))
    (encode_setting 0x1 (st_header_table_size s) w)))))"

definition encode_goaway :: "u32 \<Rightarrow> u32 \<Rightarrow> bytes \<Rightarrow> encoded" where
  "encode_goaway last_id error_code debug =
     \<lparr>en_type_id = FT_GOAWAY, en_flags = 0, en_stream_id = 0,
      en_payload = bw_into_vec (bw_bytes debug (bw_u32 error_code (bw_u32 (mask31 last_id)
        (bw_with_capacity (8 + length debug)))))\<rparr>"

definition encode_window_update :: "u32 \<Rightarrow> u32 \<Rightarrow> encoded" where
  "encode_window_update sid inc =
     \<lparr>en_type_id = FT_WINDOW_UPDATE, en_flags = 0, en_stream_id = sid,
      en_payload = bw_into_vec (bw_u32 (mask31 inc) (bw_with_capacity 4))\<rparr>"

definition encode_continuation :: "u32 \<Rightarrow> bytes \<Rightarrow> bool \<Rightarrow> encoded" where
  "encode_continuation sid frag end_headers =
     \<lparr>en_type_id = FT_CONTINUATION, en_flags = (if end_headers then FL_END_HEADERS else 0),
      en_stream_id = sid, en_payload = frag\<rparr>"

lemmas encode_arms [simp] = encode_goaway_def encode_window_update_def encode_continuation_def

fun encode_body :: "frame \<Rightarrow> encoded" where
  "encode_body (Data sid data end_stream) =
     \<lparr>en_type_id = FT_DATA, en_flags = (if end_stream then FL_END_STREAM else 0),
      en_stream_id = sid, en_payload = data\<rparr>"
| "encode_body (Headers sid frag end_stream end_headers prio) =
     (let f0 = (if end_headers then FL_END_HEADERS else 0);
          f1 = (if end_stream then f0 OR FL_END_STREAM else f0)
      in case prio of
           Some p \<Rightarrow>
             \<lparr>en_type_id = FT_HEADERS, en_flags = f1 OR FL_PRIORITY, en_stream_id = sid,
              en_payload = bw_into_vec (bw_bytes frag
                (encode_priority p (bw_with_capacity (5 + length frag))))\<rparr>
         | None \<Rightarrow>
             \<lparr>en_type_id = FT_HEADERS, en_flags = f1, en_stream_id = sid, en_payload = frag\<rparr>)"
| "encode_body (PriorityF sid p) =
     \<lparr>en_type_id = FT_PRIORITY, en_flags = 0, en_stream_id = sid,
      en_payload = bw_into_vec (encode_priority p (bw_with_capacity 5))\<rparr>"
| "encode_body (RstStream sid error_code) =
     \<lparr>en_type_id = FT_RST_STREAM, en_flags = 0, en_stream_id = sid,
      en_payload = bw_into_vec (bw_u32 error_code (bw_with_capacity 4))\<rparr>"
| "encode_body (SettingsF ack s) =
     \<lparr>en_type_id = FT_SETTINGS, en_flags = (if ack then FL_ACK else 0), en_stream_id = 0,
      en_payload = bw_into_vec (encode_settings s (bw_with_capacity 48))\<rparr>"
| "encode_body (PushPromise sid promised frag end_headers) =
     \<lparr>en_type_id = FT_PUSH_PROMISE, en_flags = (if end_headers then FL_END_HEADERS else 0),
      en_stream_id = sid,
      en_payload = bw_into_vec (bw_bytes frag (bw_u32 (mask31 promised)
        (bw_with_capacity (4 + length frag))))\<rparr>"
| "encode_body (Ping ack opaque) =
     \<lparr>en_type_id = FT_PING, en_flags = (if ack then FL_ACK else 0), en_stream_id = 0,
      en_payload = opaque\<rparr>"
| "encode_body (Goaway last_id error_code debug) = encode_goaway last_id error_code debug"
| "encode_body (WindowUpdate sid inc) = encode_window_update sid inc"
| "encode_body (Continuation sid frag end_headers) = encode_continuation sid frag end_headers"

definition serialize_frame :: "frame \<Rightarrow> bytes" where
  "serialize_frame f =
     (let e = encode_body f in
      bw_into_vec
       (bw_bytes (en_payload e)
       (bw_u32 (mask31 (en_stream_id e))
       (bw_u8 (en_flags e)
       (bw_u8 (en_type_id e)
       (bw_u24 (word_of_nat (length (en_payload e)))
       (bw_with_capacity (FRAME_HEADER_SIZE + length (en_payload e)))))))))"

subsection \<open>Parsing one payload\<close>

definition truncated :: h2error where
  "truncated = h2error_new ProtocolError ''truncated frame payload''"

definition take_bytes :: "nat \<Rightarrow> byte_reader \<Rightarrow> (bytes \<times> byte_reader) h2result" where
  "take_bytes n r = (case br_bytes n r of (d, r') \<Rightarrow> rbind (ok_or d truncated) (\<lambda>b. Ok (b, r')))"

definition read_padded :: "byte_reader \<Rightarrow> nat \<Rightarrow> bool \<Rightarrow> (bytes \<times> byte_reader) h2result" where
  "read_padded r len padded =
     (if \<not> padded then take_bytes len r
      else if len < 1 then
        Err (h2error_new ProtocolError ''padded frame missing pad length'')
      else
        rbind (br_u8 r) (\<lambda>(p, r).
        rbind (ok_or (checked_sub (len - 1) (unat p))
                 (h2error_new ProtocolError ''pad length exceeds frame payload'')) (\<lambda>data_length.
        rbind (take_bytes data_length r) (\<lambda>(data, r).
        Ok (data, snd (br_bytes (unat p) r))))))"

definition parse_priority_fields :: "byte_reader \<Rightarrow> (priority \<times> byte_reader) h2result" where
  "parse_priority_fields r =
     rbind (br_u32 r) (\<lambda>(dep, r).
     rbind (br_u8 r) (\<lambda>(wt, r).
     Ok (\<lparr>pr_stream_dependency = mask31 dep, pr_weight = ucast wt + 1,
          pr_exclusive = (dep AND 0x80000000 \<noteq> 0)\<rparr>, r)))"

definition parse_data :: "u8 \<Rightarrow> u32 \<Rightarrow> byte_reader \<Rightarrow> nat \<Rightarrow> frame h2result" where
  "parse_data flag_bits sid r len =
     rbind (read_padded r len (flag_bits AND FL_PADDED \<noteq> 0)) (\<lambda>(data, r).
     Ok (Data sid data (flag_bits AND FL_END_STREAM \<noteq> 0)))"

definition parse_headers :: "u8 \<Rightarrow> u32 \<Rightarrow> byte_reader \<Rightarrow> nat \<Rightarrow> frame h2result" where
  "parse_headers flag_bits sid r len =
     (let padded = (flag_bits AND FL_PADDED \<noteq> 0);
          has_priority = (flag_bits AND FL_PRIORITY \<noteq> 0);
          bad_padding = h2error_new ProtocolError ''invalid HEADERS padding''
      in
      rbind (if padded
             then (if len < 1 then Err bad_padding
                   else rbind (br_u8 r) (\<lambda>(p, r). Ok (unat p, r)))
             else Ok (0, r)) (\<lambda>(pad_length, r).
      rbind (if has_priority
             then (if br_remaining r < 5
                   then Err (h2error_new ProtocolError ''HEADERS priority truncated'')
                   else rbind (parse_priority_fields r) (\<lambda>(p, r). Ok (Some p, r)))
             else Ok (None, r)) (\<lambda>(prio, r).
      rbind (ok_or (checked_sub len ((if padded then 1 else 0) + (if has_priority then 5 else 0)
                     + pad_length)) bad_padding) (\<lambda>frag_length.
      rbind (take_bytes frag_length r) (\<lambda>(fragment, r).
      Ok (Headers sid fragment (flag_bits AND FL_END_STREAM \<noteq> 0)
            (flag_bits AND FL_END_HEADERS \<noteq> 0) prio))))))"

definition parse_priority :: "u32 \<Rightarrow> byte_reader \<Rightarrow> nat \<Rightarrow> frame h2result" where
  "parse_priority sid r len =
     (if len \<noteq> 5 then Err (h2error_stream FrameSizeError ''PRIORITY must be 5 bytes'' sid)
      else rbind (parse_priority_fields r) (\<lambda>(p, r). Ok (PriorityF sid p)))"

definition parse_rst_stream :: "u32 \<Rightarrow> byte_reader \<Rightarrow> nat \<Rightarrow> frame h2result" where
  "parse_rst_stream sid r len =
     (if len \<noteq> 4 then Err (h2error_new FrameSizeError ''RST_STREAM must be 4 bytes'')
      else rbind (br_u32 r) (\<lambda>(c, r). Ok (RstStream sid c)))"

definition set_setting :: "u16 \<Rightarrow> u32 \<Rightarrow> settings \<Rightarrow> settings" where
  "set_setting i v s =
     (if i = 0x1 then s\<lparr>st_header_table_size := Some v\<rparr>
      else if i = 0x2 then s\<lparr>st_enable_push := Some (v \<noteq> 0)\<rparr>
      else if i = 0x3 then s\<lparr>st_max_concurrent_streams := Some v\<rparr>
      else if i = 0x4 then s\<lparr>st_initial_window_size := Some v\<rparr>
      else if i = 0x5 then s\<lparr>st_max_frame_size := Some v\<rparr>
      else if i = 0x6 then s\<lparr>st_max_header_list_size := Some v\<rparr>
      else s)"

fun parse_settings_loop :: "nat \<Rightarrow> byte_reader \<Rightarrow> settings \<Rightarrow> settings h2result" where
  "parse_settings_loop 0 r s = Ok s"
| "parse_settings_loop (Suc n) r s =
     rbind (br_u16 r) (\<lambda>(i, r).
     rbind (br_u32 r) (\<lambda>(v, r).
     parse_settings_loop n r (set_setting i v s)))"

definition parse_settings :: "u8 \<Rightarrow> byte_reader \<Rightarrow> nat \<Rightarrow> frame h2result" where
  "parse_settings flag_bits r len =
     (let ack = (flag_bits AND FL_ACK \<noteq> 0) in
      if ack \<and> len \<noteq> 0 then Err (h2error_new FrameSizeError ''SETTINGS ACK must be empty'')
      else if len mod 6 \<noteq> 0
      then Err (h2error_new FrameSizeError ''SETTINGS length not multiple of 6'')
      else rbind (parse_settings_loop (len div 6) r settings_default) (\<lambda>s. Ok (SettingsF ack s)))"

definition parse_push_promise :: "u8 \<Rightarrow> u32 \<Rightarrow> byte_reader \<Rightarrow> nat \<Rightarrow> frame h2result" where
  "parse_push_promise flag_bits sid r len =
     (let padded = (flag_bits AND FL_PADDED \<noteq> 0);
          bad_padding = h2error_new ProtocolError ''invalid PUSH_PROMISE padding''
      in
      rbind (if padded
             then (if len < 1 then Err bad_padding
                   else rbind (br_u8 r) (\<lambda>(p, r). Ok (unat p, r)))
             else Ok (0, r)) (\<lambda>(pad_length, r).
      if br_remaining r < 4 then Err (h2error_new ProtocolError ''PUSH_PROMISE truncated'')
      else
      rbind (br_u32 r) (\<lambda>(v, r).
      rbind (ok_or (checked_sub len ((if padded then 1 else 0) + 4 + pad_length)) bad_padding)
        (\<lambda>frag_length.
      rbind (take_bytes frag_length r) (\<lambda>(fragment, r).
      Ok (PushPromise sid (mask31 v) fragment (flag_bits AND FL_END_HEADERS \<noteq> 0)))))))"

definition parse_ping :: "u8 \<Rightarrow> byte_reader \<Rightarrow> nat \<Rightarrow> frame h2result" where
  "parse_ping flag_bits r len =
     (if len \<noteq> 8 then Err (h2error_new FrameSizeError ''PING must be 8 bytes'')
      else rbind (take_bytes 8 r) (\<lambda>(opaque, r). Ok (Ping (flag_bits AND FL_ACK \<noteq> 0) opaque)))"

definition parse_goaway :: "byte_reader \<Rightarrow> nat \<Rightarrow> frame h2result" where
  "parse_goaway r len =
     (if len < 8 then Err (h2error_new FrameSizeError ''GOAWAY too short'')
      else
      rbind (br_u32 r) (\<lambda>(last_id, r).
      rbind (br_u32 r) (\<lambda>(code, r).
      rbind (take_bytes (len - 8) r) (\<lambda>(debug, r).
      Ok (Goaway (mask31 last_id) code debug)))))"

definition parse_window_update :: "u32 \<Rightarrow> byte_reader \<Rightarrow> nat \<Rightarrow> frame h2result" where
  "parse_window_update sid r len =
     (if len \<noteq> 4 then Err (h2error_new FrameSizeError ''WINDOW_UPDATE must be 4 bytes'')
      else rbind (br_u32 r) (\<lambda>(v, r). Ok (WindowUpdate sid (mask31 v))))"

definition parse_continuation :: "u8 \<Rightarrow> u32 \<Rightarrow> byte_reader \<Rightarrow> nat \<Rightarrow> frame h2result" where
  "parse_continuation flag_bits sid r len =
     rbind (take_bytes len r) (\<lambda>(fragment, r).
     Ok (Continuation sid fragment (flag_bits AND FL_END_HEADERS \<noteq> 0)))"

definition rmap_Some :: "'a h2result \<Rightarrow> 'a option h2result" where
  "rmap_Some m = rbind m (\<lambda>a. Ok (Some a))"

definition parse_payload :: "u8 \<Rightarrow> u8 \<Rightarrow> u32 \<Rightarrow> bytes \<Rightarrow> frame option h2result" where
  "parse_payload type_id flag_bits sid payload =
     (let r = br_new payload; len = length payload in
      if type_id = FT_DATA then rmap_Some (parse_data flag_bits sid r len)
      else if type_id = FT_HEADERS then rmap_Some (parse_headers flag_bits sid r len)
      else if type_id = FT_PRIORITY then rmap_Some (parse_priority sid r len)
      else if type_id = FT_RST_STREAM then rmap_Some (parse_rst_stream sid r len)
      else if type_id = FT_SETTINGS then rmap_Some (parse_settings flag_bits r len)
      else if type_id = FT_PUSH_PROMISE then rmap_Some (parse_push_promise flag_bits sid r len)
      else if type_id = FT_PING then rmap_Some (parse_ping flag_bits r len)
      else if type_id = FT_GOAWAY then rmap_Some (parse_goaway r len)
      else if type_id = FT_WINDOW_UPDATE then rmap_Some (parse_window_update sid r len)
      else if type_id = FT_CONTINUATION then rmap_Some (parse_continuation flag_bits sid r len)
      else Ok None)"

subsection \<open>No panic\<close>

lemma take_bytes_not_Panic [simp]: "take_bytes n r \<noteq> Panic"
  by (simp add: take_bytes_def rbind_Panic_iff split: prod.split)

lemma read_padded_not_Panic:
  "len \<le> length (br_rest r) \<Longrightarrow> read_padded r len padded \<noteq> Panic"
  by (auto simp: read_padded_def rbind_Panic_iff)

lemma parse_priority_fields_Panic_iff [simp]:
  "parse_priority_fields r = Panic \<longleftrightarrow> length (br_rest r) < 5"
  by (cases "length (br_rest r) < 4")
     (auto simp: parse_priority_fields_def rbind_Panic_iff br_u32_rest split: list.splits)

lemma parse_headers_not_Panic:
  "len = length (br_rest r) \<Longrightarrow> parse_headers flag_bits sid r len \<noteq> Panic"
  by (auto simp: parse_headers_def Let_def rbind_Panic_iff split: if_splits)

lemma parse_push_promise_not_Panic:
  "len = length (br_rest r) \<Longrightarrow> parse_push_promise flag_bits sid r len \<noteq> Panic"
  by (auto simp: parse_push_promise_def Let_def rbind_Panic_iff split: if_splits)

lemma parse_settings_loop_not_Panic:
  "6 * n \<le> length (br_rest r) \<Longrightarrow> parse_settings_loop n r s \<noteq> Panic"
proof (induction n arbitrary: r s)
  case (Suc n)
  then show ?case
    by (auto simp: rbind_Panic_iff dest!: br_u16_OkD br_u32_OkD)
qed simp

lemma parse_settings_not_Panic:
  "len = length (br_rest r) \<Longrightarrow> parse_settings flag_bits r len \<noteq> Panic"
  using parse_settings_loop_not_Panic [of "len div 6" r settings_default]
  by (auto simp: parse_settings_def Let_def rbind_Panic_iff)

lemma parse_goaway_not_Panic:
  "len = length (br_rest r) \<Longrightarrow> parse_goaway r len \<noteq> Panic"
  by (auto simp: parse_goaway_def rbind_Panic_iff dest!: br_u32_OkD)

lemma rmap_Some_Panic_iff [simp]: "rmap_Some m = Panic \<longleftrightarrow> m = Panic"
  by (auto simp: rmap_Some_def rbind_Panic_iff)

lemma parse_payload_not_Panic [simp]: "parse_payload t fl sid payload \<noteq> Panic"
  unfolding parse_payload_def Let_def
  by (simp add: parse_headers_not_Panic parse_push_promise_not_Panic parse_settings_not_Panic
      parse_goaway_not_Panic parse_data_def parse_priority_def parse_rst_stream_def parse_ping_def
      parse_window_update_def parse_continuation_def rbind_Panic_iff read_padded_not_Panic)

subsection \<open>Encode and parse\<close>

text \<open>The frames the codec can carry: what the wire format's field widths can represent.\<close>

definition wf_priority :: "priority \<Rightarrow> bool" where
  "wf_priority p \<longleftrightarrow> unat (pr_stream_dependency p) < 2 ^ 31
     \<and> 1 \<le> unat (pr_weight p) \<and> unat (pr_weight p) \<le> 256"

fun wf_fields :: "frame \<Rightarrow> bool" where
  "wf_fields (Data sid data es) \<longleftrightarrow> unat sid < 2 ^ 31"
| "wf_fields (Headers sid frag es eh prio) \<longleftrightarrow> unat sid < 2 ^ 31
     \<and> (case prio of None \<Rightarrow> True | Some p \<Rightarrow> wf_priority p)"
| "wf_fields (PriorityF sid p) \<longleftrightarrow> unat sid < 2 ^ 31 \<and> wf_priority p"
| "wf_fields (RstStream sid c) \<longleftrightarrow> unat sid < 2 ^ 31"
| "wf_fields (SettingsF ack s) \<longleftrightarrow> (ack \<longrightarrow> s = settings_default)"
| "wf_fields (PushPromise sid pid frag eh) \<longleftrightarrow> unat sid < 2 ^ 31 \<and> unat pid < 2 ^ 31"
| "wf_fields (Ping ack opaque) \<longleftrightarrow> length opaque = 8"
| "wf_fields (Goaway l c d) \<longleftrightarrow> unat l < 2 ^ 31"
| "wf_fields (WindowUpdate sid inc) \<longleftrightarrow> unat sid < 2 ^ 31 \<and> unat inc < 2 ^ 31"
| "wf_fields (Continuation sid frag eh) \<longleftrightarrow> unat sid < 2 ^ 31"

definition payload_length :: "frame \<Rightarrow> nat" where
  "payload_length f = length (en_payload (encode_body f))"

definition wf_frame :: "nat \<Rightarrow> frame \<Rightarrow> bool" where
  "wf_frame m f \<longleftrightarrow> wf_fields f \<and> payload_length f \<le> m \<and> payload_length f < 2 ^ 24"

lemma mask31_small [simp]: "unat v < 2 ^ 31 \<Longrightarrow> mask31 v = v"
  by (simp add: mask31_def mask31_id)

lemma mask31_or_top: "unat v < 2 ^ 31 \<Longrightarrow> mask31 (v OR 0x80000000) = v"
  unfolding mask31_def by (subst bit.conj_disj_distrib2) (simp add: mask31_id)

lemma top_bit_test: "unat v < 2 ^ 31 \<Longrightarrow> v AND 0x80000000 = (0 :: u32)"
proof -
  assume "unat v < 2 ^ 31"
  then have "v AND 0x80000000 = (v AND 0x7fffffff) AND 0x80000000"
    by (simp add: mask31_id)
  then show ?thesis by (simp add: and.assoc)
qed

lemma weight_roundtrip:
  "1 \<le> unat w \<Longrightarrow> unat w \<le> 256 \<Longrightarrow> ucast (ucast (w - 1 :: u16) :: u8) + (1 :: u16) = w"
proof -
  assume w: "1 \<le> unat w" "unat w \<le> 256"
  then have "unat (w - 1) = unat w - 1"
    by (simp add: unat_sub word_le_nat_alt)
  with w have "unat (ucast (ucast (w - 1) :: u8) :: u16) = unat (w - 1)"
    by (simp add: unsigned_ucast_eq unsigned_take_bit_eq take_bit_nat_eq_self)
  then have "(ucast (ucast (w - 1) :: u8) :: u16) = w - 1" by (rule unsigned_word_eqI)
  then show ?thesis by simp
qed

lemma take_bytes_Ok:
  "n \<le> length (br_rest r) \<Longrightarrow> take_bytes n r = Ok (take n (br_rest r), br_advance n r)"
  by (simp add: take_bytes_def br_bytes_rest)

lemma parse_priority_fields_encode:
  assumes "wf_priority p" and "br_rest r = bw_buf (encode_priority p w) @ rest" and "bw_buf w = []"
  shows "\<exists>r'. parse_priority_fields r = Ok (p, r') \<and> br_rest r' = rest"
  using assms weight_roundtrip [of "pr_weight p"]
  by (cases p) (auto simp: parse_priority_fields_def encode_priority_def Let_def wf_priority_def
      br_u32_rest br_u8_rest be32_def mask31_or_top top_bit_test bit.conj_disj_distrib2)

definition settings_items :: "settings \<Rightarrow> (u16 \<times> u32) list" where
  "settings_items s =
     (case st_header_table_size s of Some v \<Rightarrow> [(0x1, v)] | None \<Rightarrow> [])
   @ (case st_enable_push s of Some b \<Rightarrow> [(0x2, u32_of_bool b)] | None \<Rightarrow> [])
   @ (case st_max_concurrent_streams s of Some v \<Rightarrow> [(0x3, v)] | None \<Rightarrow> [])
   @ (case st_initial_window_size s of Some v \<Rightarrow> [(0x4, v)] | None \<Rightarrow> [])
   @ (case st_max_frame_size s of Some v \<Rightarrow> [(0x5, v)] | None \<Rightarrow> [])
   @ (case st_max_header_list_size s of Some v \<Rightarrow> [(0x6, v)] | None \<Rightarrow> [])"

definition item_bytes :: "u16 \<times> u32 \<Rightarrow> bytes" where
  "item_bytes p = be16 (fst p) @ be32 (snd p)"

lemma length_item_bytes [simp]: "length (item_bytes p) = 6"
  by (simp add: item_bytes_def)

lemma encode_settings_items:
  "bw_buf (encode_settings s w) = bw_buf w @ concat (map item_bytes (settings_items s))"
  by (simp add: encode_settings_def encode_setting_def settings_items_def item_bytes_def
      split: option.split)

lemma length_encode_settings:
  "bw_buf w = [] \<Longrightarrow> length (bw_buf (encode_settings s w)) = 6 * length (settings_items s)"
proof -
  have "length (concat (map item_bytes xs)) = 6 * length xs" for xs
    by (induction xs) auto
  then show "bw_buf w = [] \<Longrightarrow> ?thesis" by (simp add: encode_settings_items)
qed

lemma parse_settings_loop_items:
  "br_rest r = concat (map item_bytes xs) \<Longrightarrow>
   parse_settings_loop (length xs) r s = Ok (fold (\<lambda>(i, v). set_setting i v) xs s)"
proof (induction xs arbitrary: r s)
  case (Cons x xs)
  then show ?case
    by (cases x) (simp add: item_bytes_def br_u16_rest br_u32_rest be16_def be32_def)
qed simp

lemma fold_settings_items:
  "fold (\<lambda>(i, v). set_setting i v) (settings_items s) settings_default = s"
  by (cases s) (simp add: settings_items_def set_setting_def settings_default_def u32_of_bool_def
      split: option.split)

lemma settings_items_default [simp]: "settings_items settings_default = []"
  by (simp add: settings_items_def settings_default_def)

lemma parse_settings_encode:
  assumes "ack \<longrightarrow> s = settings_default" and "bw_buf w = []"
  defines "p \<equiv> bw_buf (encode_settings s w)"
  shows "parse_settings (if ack then FL_ACK else 0) (br_new p) (length p) = Ok (SettingsF ack s)"
proof -
  have "length p = 6 * length (settings_items s)"
    using assms(2) by (simp add: p_def length_encode_settings)
  moreover have "parse_settings_loop (length (settings_items s)) (br_new p) settings_default = Ok s"
    using assms(2)
    by (simp add: p_def parse_settings_loop_items encode_settings_items fold_settings_items)
  ultimately show ?thesis using assms(1) by (auto simp: parse_settings_def Let_def)
qed

lemma parse_headers_encode:
  assumes "wf_fields (Headers sid frag es eh prio)" and "e = encode_body (Headers sid frag es eh prio)"
  shows "parse_headers (en_flags e) sid (br_new (en_payload e)) (length (en_payload e))
           = Ok (Headers sid frag es eh prio)"
proof (cases prio)
  case None
  then show ?thesis using assms
    by (cases es; cases eh) (simp_all add: parse_headers_def Let_def take_bytes_Ok)
next
  case (Some p)
  let ?w = "bw_with_capacity (5 + length frag)"
  let ?payload = "bw_buf (encode_priority p ?w) @ frag"
  have wf: "wf_priority p" using assms Some by simp
  obtain r' where r': "parse_priority_fields (br_new ?payload) = Ok (p, r')" "br_rest r' = frag"
    using parse_priority_fields_encode [OF wf, of "br_new ?payload" ?w frag] by auto
  have len: "length (bw_buf (encode_priority p ?w)) = 5"
    by (simp add: encode_priority_def Let_def)
  show ?thesis using assms Some r' len
    by (cases es; cases eh) (simp_all add: parse_headers_def Let_def take_bytes_Ok)
qed

lemma parse_priority_encode:
  assumes "wf_priority p" and "bw_buf w = []"
  shows "parse_priority sid (br_new (bw_buf (encode_priority p w)))
           (length (bw_buf (encode_priority p w))) = Ok (PriorityF sid p)"
proof -
  obtain r' where "parse_priority_fields (br_new (bw_buf (encode_priority p w))) = Ok (p, r')"
    using parse_priority_fields_encode [OF assms(1), of "br_new (bw_buf (encode_priority p w))" w "[]"]
      assms(2) by auto
  moreover have "length (bw_buf (encode_priority p w)) = 5"
    using assms(2) by (simp add: encode_priority_def Let_def)
  ultimately show ?thesis by (simp add: parse_priority_def)
qed

lemma encode_body_Headers:
  "en_type_id (encode_body (Headers sid frag es eh prio)) = FT_HEADERS"
  "en_stream_id (encode_body (Headers sid frag es eh prio)) = sid"
  by (simp_all add: Let_def split: option.split)

lemma parse_payload_encode_body:
  assumes "wf_fields f" and "e = encode_body f"
  shows "parse_payload (en_type_id e) (en_flags e) (en_stream_id e) (en_payload e) = Ok (Some f)"
proof (cases f)
  case (SettingsF ack s)
  then show ?thesis using assms parse_settings_encode [of ack s "bw_with_capacity 48"]
    by (simp add: parse_payload_def Let_def rmap_Some_def)
next
  case (Headers sid frag es eh prio)
  then show ?thesis
    using parse_headers_encode [of sid frag es eh prio e] assms
      encode_body_Headers [of sid frag es eh prio]
    by (simp add: parse_payload_def Let_def rmap_Some_def del: encode_body.simps)
next
  case (PriorityF sid p)
  then show ?thesis using assms
    by (simp add: parse_payload_def Let_def rmap_Some_def parse_priority_encode)
qed (use assms in \<open>auto simp: parse_payload_def Let_def rmap_Some_def parse_data_def read_padded_def
   take_bytes_Ok parse_rst_stream_def br_u32_rest be32_def parse_push_promise_def parse_ping_def
   parse_goaway_def parse_window_update_def parse_continuation_def\<close>)

end
