(* ===== verification/Frame_Decoder.thy ===== *)
theory Frame_Decoder
  imports Frames
begin

text \<open>
  The \<open>FrameDecoder\<close> of \<open>h2ts-client/src/frames.rs\<close>: it cuts complete frames out of
  arbitrary byte chunks and keeps an incomplete frame for the next chunk.  \<open>push_loop\<close> is the
  offset-based loop of \<open>FrameDecoder::push\<close>; \<open>parse_frames\<close> is the reference it is proved
  equal to.  The decoder is an instance of the locale \<open>incremental\<close>.
\<close>

subsection \<open>FrameDecoder\<close>

record frame_decoder =
  fd_pending :: bytes
  fd_max_frame_size :: nat

definition fd_new :: "nat \<Rightarrow> frame_decoder" where
  "fd_new m = \<lparr>fd_pending = [], fd_max_frame_size = m\<rparr>"

definition fd_default :: frame_decoder where
  "fd_default = fd_new DEFAULT_MAX_FRAME_SIZE"

definition frame_too_long :: "nat \<Rightarrow> nat \<Rightarrow> h2error" where
  "frame_too_long len m = h2error_new FrameSizeError
     (''frame length '' @ show_nat len @ '' exceeds max '' @ show_nat m)"

definition header_length :: "bytes \<Rightarrow> nat \<Rightarrow> ('e, nat) result" where
  "header_length buf offset =
     rbind (ix buf offset) (\<lambda>a.
     rbind (ix buf (offset + 1)) (\<lambda>b.
     rbind (ix buf (offset + 2)) (\<lambda>c.
     Ok (push_bit 16 (unat a) OR push_bit 8 (unat b) OR unat c))))"

definition header_stream_id :: "bytes \<Rightarrow> nat \<Rightarrow> ('e, u32) result" where
  "header_stream_id buf offset =
     rbind (ix buf (offset + 5)) (\<lambda>a.
     rbind (ix buf (offset + 6)) (\<lambda>b.
     rbind (ix buf (offset + 7)) (\<lambda>c.
     rbind (ix buf (offset + 8)) (\<lambda>d.
     Ok (mask31 (from_be32 a b c d))))))"

function push_loop :: "nat \<Rightarrow> bytes \<Rightarrow> nat \<Rightarrow> frame list \<Rightarrow> (frame list \<times> nat) h2result" where
  "push_loop m buf offset frames =
     (if length buf - offset < FRAME_HEADER_SIZE then Ok (frames, offset)
      else
      rbind (header_length buf offset) (\<lambda>len.
      if m < len then Err (frame_too_long len m)
      else if length buf - offset < FRAME_HEADER_SIZE + len then Ok (frames, offset)
      else
      rbind (ix buf (offset + 3)) (\<lambda>type_id.
      rbind (ix buf (offset + 4)) (\<lambda>flag_bits.
      rbind (header_stream_id buf offset) (\<lambda>sid.
      rbind (parse_payload type_id flag_bits sid
               (range_slice buf (offset + FRAME_HEADER_SIZE) (offset + (FRAME_HEADER_SIZE + len))))
        (\<lambda>parsed.
      push_loop m buf (offset + (FRAME_HEADER_SIZE + len))
        (case parsed of Some f \<Rightarrow> frames @ [f] | None \<Rightarrow> frames)))))))"
  by pat_completeness auto
termination
  by (relation "measure (\<lambda>(m, buf, offset, frames). length buf - offset)")
     (auto simp: FRAME_HEADER_SIZE_def)

declare push_loop.simps [simp del]

definition fd_push :: "bytes \<Rightarrow> frame_decoder \<Rightarrow> (frame list \<times> frame_decoder) h2result" where
  "fd_push chunk d =
     (let buf = (if fd_pending d = [] then chunk else fd_pending d @ chunk) in
      rbind (push_loop (fd_max_frame_size d) buf 0 []) (\<lambda>(frames, offset).
      Ok (frames, d\<lparr>fd_pending := (if offset = length buf then [] else drop offset buf)\<rparr>)))"

subsection \<open>What the decoder computes\<close>

text \<open>
  The reference for \<open>push_loop\<close>: the frames at the front of a byte string, and what is
  left of it.  No offsets, no accumulator.
\<close>

definition be_length :: "bytes \<Rightarrow> nat" where
  "be_length bs = unat (from_be24 (bs ! 0) (bs ! 1) (bs ! 2))"

definition be_stream_id :: "bytes \<Rightarrow> u32" where
  "be_stream_id bs = mask31 (from_be32 (bs ! 5) (bs ! 6) (bs ! 7) (bs ! 8))"

definition prepend_frame :: "frame option \<Rightarrow> (frame list \<times> bytes) h2result \<Rightarrow> (frame list \<times> bytes) h2result" where
  "prepend_frame ofr m = rbind m (\<lambda>(fs, rest). Ok ((case ofr of Some f \<Rightarrow> f # fs | None \<Rightarrow> fs), rest))"

function parse_frames :: "nat \<Rightarrow> bytes \<Rightarrow> (frame list \<times> bytes) h2result" where
  "parse_frames m bs =
     (if length bs < 9 then Ok ([], bs)
      else if m < be_length bs then Err (frame_too_long (be_length bs) m)
      else if length bs < 9 + be_length bs then Ok ([], bs)
      else rbind (parse_payload (bs ! 3) (bs ! 4) (be_stream_id bs) (take (be_length bs) (drop 9 bs)))
        (\<lambda>parsed. prepend_frame parsed (parse_frames m (drop (9 + be_length bs) bs))))"
  by pat_completeness auto
termination
  by (relation "measure (\<lambda>(m, bs). length bs)") auto

declare parse_frames.simps [simp del]

lemma unat_from_be24:
  "unat (from_be24 a b c) = push_bit 16 (unat a) OR push_bit 8 (unat b) OR unat c"
  by (rule bit_eqI) (auto simp: from_be24_def bit_simps dest: bit_imp_le_length)

lemma header_length_be:
  "offset + 9 \<le> length buf \<Longrightarrow> header_length buf offset = Ok (be_length (drop offset buf))"
  by (simp add: header_length_def be_length_def unat_from_be24)

lemma header_stream_id_be:
  "offset + 9 \<le> length buf \<Longrightarrow> header_stream_id buf offset = Ok (be_stream_id (drop offset buf))"
  by (simp add: header_stream_id_def be_stream_id_def)

lemma push_loop_parse_frames:
  "offset \<le> length buf \<Longrightarrow>
   push_loop m buf offset frames =
     rbind (parse_frames m (drop offset buf)) (\<lambda>(fs, rest). Ok (frames @ fs, length buf - length rest))"
proof (induction "length buf - offset" arbitrary: offset frames rule: less_induct)
  case less
  let ?bs = "drop offset buf"
  let ?n = "be_length ?bs"
  show ?case
  proof (cases "9 + ?n \<le> length ?bs \<and> ?n \<le> m")
    case False
    then show ?thesis using less.prems
      by (auto simp: push_loop.simps [of m buf offset] parse_frames.simps [of m ?bs]
          FRAME_HEADER_SIZE_def header_length_be)
  next
    case True
    then have long: "offset + 9 \<le> length buf" "offset + (9 + ?n) \<le> length buf"
      and len: "\<not> m < ?n" "\<not> length buf - offset < 9 + ?n" "\<not> length buf - offset < 9"
      using less.prems by auto
    have slice: "range_slice buf (offset + 9) (offset + (9 + ?n)) = take ?n (drop 9 ?bs)"
      by (simp add: range_slice_def add.commute)
    have nth: "ix buf (offset + 3) = Ok (?bs ! 3)" "ix buf (offset + 4) = Ok (?bs ! 4)"
      using long by simp_all
    have IH: "push_loop m buf (offset + (9 + ?n)) frames' =
       rbind (parse_frames m (drop (9 + ?n) ?bs))
         (\<lambda>(fs, rest). Ok (frames' @ fs, length buf - length rest))" for frames'
      using less.hyps [of "offset + (9 + ?n)" frames'] long by (simp add: add.commute)
    show ?thesis
    proof (cases "parse_payload (?bs ! 3) (?bs ! 4) (be_stream_id ?bs) (take ?n (drop 9 ?bs))")
      case (Ok parsed)
      then show ?thesis using len
        by (cases "parse_frames m (drop (9 + ?n) ?bs)")
           (auto simp: push_loop.simps [of m buf offset] parse_frames.simps [of m ?bs]
             FRAME_HEADER_SIZE_def header_length_be [OF long(1)] header_stream_id_be [OF long(1)]
             slice nth IH prepend_frame_def split: option.split simp del: drop_drop)
    next
      case (Err e)
      then show ?thesis using len
        by (simp add: push_loop.simps [of m buf offset] parse_frames.simps [of m ?bs]
             FRAME_HEADER_SIZE_def header_length_be [OF long(1)] header_stream_id_be [OF long(1)]
             slice nth del: drop_drop)
    qed simp
  qed
qed

definition push_spec :: "bytes \<Rightarrow> frame_decoder \<Rightarrow> (frame list \<times> frame_decoder) h2result" where
  "push_spec chunk d = rbind (parse_frames (fd_max_frame_size d) (fd_pending d @ chunk))
     (\<lambda>(fs, rest). Ok (fs, d\<lparr>fd_pending := rest\<rparr>))"

lemma parse_frames_suffix: "parse_frames m bs = Ok (fs, rest) \<Longrightarrow> \<exists>pre. bs = pre @ rest"
proof (induction m bs arbitrary: fs rule: parse_frames.induct)
  case (1 m bs)
  show ?case
  proof (cases "length bs < 9 \<or> m < be_length bs \<or> length bs < 9 + be_length bs")
    case True
    then show ?thesis using "1.prems" by (auto simp: parse_frames.simps [of m bs] split: if_splits)
  next
    case False
    then obtain parsed fs' where
      p: "parse_payload (bs ! 3) (bs ! 4) (be_stream_id bs) (take (be_length bs) (drop 9 bs)) = Ok parsed"
      and rec: "parse_frames m (drop (9 + be_length bs) bs) = Ok (fs', rest)"
      using "1.prems" by (auto simp: parse_frames.simps [of m bs] prepend_frame_def)
    then obtain pre where "drop (9 + be_length bs) bs = pre @ rest"
      using "1.IH" [OF _ _ _ p] False by blast
    then have "bs = (take (9 + be_length bs) bs @ pre) @ rest"
      by (metis append.assoc append_take_drop_id)
    then show ?thesis by blast
  qed
qed

lemma drop_to_suffix:
  "bs = pre @ rest \<Longrightarrow>
   (if length bs - length rest = length bs then [] else drop (length bs - length rest) bs) = rest"
  by (cases rest) auto

lemma fd_push_eq_spec: "fd_push chunk d = push_spec chunk d"
proof -
  let ?buf = "fd_pending d @ chunk"
  have "(if length ?buf - length rest = length ?buf then [] else drop (length ?buf - length rest) ?buf) = rest"
    if "parse_frames (fd_max_frame_size d) ?buf = Ok (fs, rest)" for fs rest
    using parse_frames_suffix [OF that] drop_to_suffix by metis
  then show ?thesis
    by (cases "parse_frames (fd_max_frame_size d) ?buf")
       (auto simp: fd_push_def push_spec_def Let_def push_loop_parse_frames simp del: drop_append)
qed

lemma parse_frames_not_Panic [simp]: "parse_frames m bs \<noteq> Panic"
proof (induction m bs rule: parse_frames.induct)
  case (1 m bs)
  then show ?case
    by (auto simp: parse_frames.simps [of m bs] rbind_Panic_iff prepend_frame_def)
qed

lemma be_header_append:
  "9 \<le> length xs \<Longrightarrow> be_length (xs @ ys) = be_length xs \<and> be_stream_id (xs @ ys) = be_stream_id xs
     \<and> (xs @ ys) ! 3 = xs ! 3 \<and> (xs @ ys) ! 4 = xs ! 4"
  by (auto simp: be_length_def be_stream_id_def nth_append)

lemma parse_frames_append:
  "parse_frames m (xs @ ys) =
     (case parse_frames m xs of
        Ok (fs, rest) \<Rightarrow> rbind (parse_frames m (rest @ ys)) (\<lambda>(gs, r). Ok (fs @ gs, r))
      | Err e \<Rightarrow> Err e | Panic \<Rightarrow> Panic)"
proof (induction m xs rule: parse_frames.induct)
  case (1 m xs)
  let ?n = "be_length xs"
  have id: "rbind M (\<lambda>(gs, r). Ok ([] @ gs, r)) = M" for M :: "(frame list \<times> bytes) h2result"
    by (cases M) auto
  consider (short) "length xs < 9 \<or> (?n \<le> m \<and> length xs < 9 + ?n)" 
    | (long) "9 \<le> length xs" "m < ?n"
    | (whole) "9 \<le> length xs" "?n \<le> m" "9 + ?n \<le> length xs" by linarith
  then show ?case
  proof cases
    case short
    then have "parse_frames m xs = Ok ([], xs)"
      by (auto simp: parse_frames.simps [of m xs])
    then show ?thesis using id by simp
  next
    case long
    then show ?thesis using be_header_append [of xs ys]
      by (simp add: parse_frames.simps [of m xs] parse_frames.simps [of m "xs @ ys"])
  next
    case whole
    let ?p = "parse_payload (xs ! 3) (xs ! 4) (be_stream_id xs) (take ?n (drop 9 xs))"
    have split: "take ?n (drop 9 (xs @ ys)) = take ?n (drop 9 xs)"
      "drop (9 + ?n) (xs @ ys) = drop (9 + ?n) xs @ ys"
      using whole by (simp_all add: )
    have l: "parse_frames m (xs @ ys) = rbind ?p (\<lambda>parsed. prepend_frame parsed (parse_frames m (drop (9 + ?n) xs @ ys)))"
      using whole be_header_append [of xs ys] split
      by (simp add: parse_frames.simps [of m "xs @ ys"] del: drop_append)
    have r: "parse_frames m xs = rbind ?p (\<lambda>parsed. prepend_frame parsed (parse_frames m (drop (9 + ?n) xs)))"
      using whole by (simp add: parse_frames.simps [of m xs])
    show ?thesis
    proof (cases ?p)
      case (Ok parsed)
      have IH: "parse_frames m (drop (9 + ?n) xs @ ys) = 
         (case parse_frames m (drop (9 + ?n) xs) of
            Ok (fs, rest) \<Rightarrow> rbind (parse_frames m (rest @ ys)) (\<lambda>(gs, r). Ok (fs @ gs, r))
          | Err e \<Rightarrow> Err e | Panic \<Rightarrow> Panic)"
        using "1.IH" [OF _ _ _ Ok] whole by simp
      show ?thesis unfolding l r Ok rbind.simps IH
        by (cases "parse_frames m (drop (9 + ?n) xs)")
           (auto simp: prepend_frame_def rbind_assoc split: option.split prod.split
             intro!: arg_cong2 [of _ _ _ _ rbind])
    qed (simp_all add: l r)
  qed
qed


lemma parse_frames_rest:
  "parse_frames m bs = Ok (fs, rest) \<Longrightarrow> parse_frames m rest = Ok ([], rest)
     \<and> length rest < 9 + m"
proof (induction m bs arbitrary: fs rule: parse_frames.induct)
  case (1 m bs)
  show ?case
  proof (cases "length bs < 9 \<or> m < be_length bs \<or> length bs < 9 + be_length bs")
    case True
    then have "fs = []" "rest = bs" "length bs < 9 + m"
      using "1.prems" by (auto simp: parse_frames.simps [of m bs] split: if_splits)
    then show ?thesis using "1.prems" by simp
  next
    case False
    then obtain parsed fs' where
      p: "parse_payload (bs ! 3) (bs ! 4) (be_stream_id bs) (take (be_length bs) (drop 9 bs)) = Ok parsed"
      and rec: "parse_frames m (drop (9 + be_length bs) bs) = Ok (fs', rest)"
      using "1.prems" by (auto simp: parse_frames.simps [of m bs] prepend_frame_def)
    then show ?thesis using "1.IH" [OF _ _ _ p] False by blast
  qed
qed

definition decoder_inv :: "frame_decoder \<Rightarrow> bool" where
  "decoder_inv d \<longleftrightarrow> parse_frames (fd_max_frame_size d) (fd_pending d) = Ok ([], fd_pending d)"

lemma decoder_inv_new [simp]: "decoder_inv (fd_new m)"
  by (simp add: decoder_inv_def fd_new_def parse_frames.simps)

lemma fd_push_inv: "fd_push c d = Ok (fs, d') \<Longrightarrow> decoder_inv d' \<and> fd_max_frame_size d' = fd_max_frame_size d"
  by (auto simp: fd_push_eq_spec push_spec_def decoder_inv_def dest: parse_frames_rest)

lemma fd_push_pending:
  assumes "fd_push c d = Ok (fs, d')"
  shows "length (fd_pending d') < 9 + fd_max_frame_size d'"
  using assms parse_frames_rest [of "fd_max_frame_size d" "fd_pending d @ c" fs "fd_pending d'"]
  by (auto simp: fd_push_eq_spec push_spec_def)

lemma fd_push_Nil: "decoder_inv d \<Longrightarrow> fd_push [] d = Ok ([], d)"
  by (simp add: fd_push_eq_spec push_spec_def decoder_inv_def)

lemma fd_push_append:
  "fd_push (c @ c') d =
     rbind (fd_push c d) (\<lambda>(fs, d'). rbind (fd_push c' d') (\<lambda>(gs, d''). Ok (fs @ gs, d'')))"
proof (cases "parse_frames (fd_max_frame_size d) (fd_pending d @ c)")
  case (Ok p)
  obtain fs rest where "p = (fs, rest)" by force
  with Ok show ?thesis
    by (cases "parse_frames (fd_max_frame_size d) (rest @ c')")
       (auto simp: fd_push_eq_spec push_spec_def parse_frames_append [of _ "fd_pending d @ c"]
          simp flip: append_assoc)
qed (simp_all add: fd_push_eq_spec push_spec_def parse_frames_append [of _ "fd_pending d @ c"]
      flip: append_assoc)

interpretation fd: incremental fd_push decoder_inv
  by unfold_locales (use fd_push_Nil fd_push_inv fd_push_append in blast)+

lemma serialize_frame_bytes:
  "serialize_frame f =
     (let e = encode_body f; n = word_of_nat (length (en_payload e)) :: u32 in
      [ucast (drop_bit 16 n), ucast (drop_bit 8 n), ucast n, en_type_id e, en_flags e]
      @ be32 (mask31 (en_stream_id e)) @ en_payload e)"
  by (simp add: serialize_frame_def Let_def)

lemma mask31_encode [simp]: "wf_fields f \<Longrightarrow> mask31 (en_stream_id (encode_body f)) = en_stream_id (encode_body f)"
  by (cases f) (auto simp: Let_def mask31_def mask31_id split: option.split)

lemma parse_frames_serialize:
  assumes "wf_frame m f"
  shows "parse_frames m (serialize_frame f @ rest) = prepend_frame (Some f) (parse_frames m rest)"
proof -
  let ?e = "encode_body f"
  let ?n = "length (en_payload ?e)"
  let ?bs = "serialize_frame f @ rest"
  have wf: "wf_fields f" "?n \<le> m" "?n < 2 ^ 24"
    using assms by (simp_all add: wf_frame_def payload_length_def)
  then have "unat (take_bit 24 (word_of_nat ?n :: u32)) = ?n"
    by (simp add: unsigned_take_bit_eq unat_of_nat take_bit_nat_eq_self)
  then have len: "be_length ?bs = ?n"
    by (simp add: be_length_def serialize_frame_bytes Let_def from_be24_be24)
  have hd: "?bs ! 3 = en_type_id ?e" "?bs ! 4 = en_flags ?e" "drop 9 ?bs = en_payload ?e @ rest"
    "be_stream_id ?bs = en_stream_id ?e" "9 + ?n \<le> length ?bs"
    using wf(1) by (simp_all add: serialize_frame_bytes Let_def be32_def be_stream_id_def)
  have "drop (9 + ?n) ?bs = rest"
    using hd(3) by (metis add.commute append_eq_conv_conj drop_drop)
  then show ?thesis
    using hd len wf(2) parse_payload_encode_body [OF wf(1) refl]
    by (simp add: parse_frames.simps [of m ?bs] del: append_assoc)
qed

lemma parse_frames_serialize_all:
  "\<forall>f \<in> set fs. wf_frame m f \<Longrightarrow> parse_frames m (concat (map serialize_frame fs)) = Ok (fs, [])"
proof (induction fs)
  case Nil
  then show ?case by (simp add: parse_frames.simps)
next
  case (Cons f fs)
  then show ?case by (simp add: parse_frames_serialize prepend_frame_def)
qed

lemma feed_serialized:
  assumes "\<forall>f \<in> set fs. wf_frame m f" "concat chunks = concat (map serialize_frame fs)"
  shows "feed_all fd_push chunks (fd_new m) = Ok (fs, fd_new m)"
  using assms parse_frames_serialize_all [of fs m]
  by (simp add: fd.feed_all_concat fd_push_eq_spec push_spec_def) (simp add: fd_new_def)

subsection \<open>Properties\<close>

text \<open>
  C1. The tunnel's byte stream carries frames: however the serialized frames are cut into
  chunks on the way, the receiving decoder returns exactly the frames that were sent, in
  order, and is left with no pending bytes.
\<close>

theorem frame_stream_roundtrip:
  assumes "\<forall>f \<in> set fs. wf_frame m f"
    and "concat chunks = concat (map serialize_frame fs)"
  shows "feed_all fd_push chunks (fd_new m) = Ok (fs, fd_new m)"
  using assms by (rule feed_serialized)

theorem frame_stream_roundtrip_witness:
  "feed_all fd_push
     [[0, 0, 4, 8, 0], [0, 0, 0, 0, 0, 0, 1], [0, 0, 0, 1, 0, 1, 0, 0, 0, 3, 0x61]] (fd_new 16384)
   = Ok ([WindowUpdate 0 256, Data 3 [0x61] True], fd_new 16384)"
proof -
  have wf: "\<forall>f \<in> set [WindowUpdate 0 256, Data 3 [0x61] True]. wf_frame 16384 f"
    by (simp add: wf_frame_def payload_length_def)
  have bytes: "concat [[0, 0, 4, 8, 0], [0, 0, 0, 0, 0, 0, 1],
        [0, 0, 0, 1, 0, 1, 0, 0, 0, 3, 0x61 :: u8]]
      = concat (map serialize_frame [WindowUpdate 0 256, Data 3 [0x61] True])"
    by (simp add: serialize_frame_bytes Let_def be32_def mask31_def)
  show ?thesis by (rule frame_stream_roundtrip [OF wf bytes])
qed

text \<open>
  C35. Chunk boundaries carry no meaning for the decoder: feeding a byte stream in any
  chunks gives the same frames, the same remaining buffer, or the same error as feeding it
  in one piece.
\<close>

theorem frame_decoder_chunking_irrelevant:
  "feed_all fd_push chunks (fd_new m) = fd_push (concat chunks) (fd_new m)"
  by (rule fd.feed_all_concat) simp

text \<open>
  The offset-based decoding loop computes the reference decoding: the frames at the
  front of the buffered input followed by the chunk, with the undecoded rest kept as the
  new pending buffer.
\<close>

theorem frame_decoder_refines_reference:
  "fd_push chunk d =
     rbind (parse_frames (fd_max_frame_size d) (fd_pending d @ chunk))
       (\<lambda>(fs, rest). Ok (fs, d\<lparr>fd_pending := rest\<rparr>))"
  by (simp add: fd_push_eq_spec push_spec_def)

text \<open>
  No input from the peer makes the frame decoder panic: every slice index and every
  fixed-width read of the codec is in bounds, for every chunk and every decoder state.
\<close>

theorem frame_decoder_never_panics:
  "\<not> is_panic (fd_push chunk d)"
  by (auto simp: fd_push_eq_spec push_spec_def rbind_Panic_iff)

text \<open>
  The decoder's memory is bounded by its frame size limit: after a successful push the
  pending buffer is shorter than one maximal frame with its header and holds no complete
  frame, so an empty push returns nothing.
\<close>

theorem frame_decoder_pending_bounded:
  assumes "fd_push chunk d = Ok (fs, d')"
  shows "length (fd_pending d') < FRAME_HEADER_SIZE + fd_max_frame_size d'
     \<and> fd_push [] d' = Ok ([], d')"
  using fd_push_inv [OF assms] fd_push_Nil [of d'] fd_push_pending [OF assms]
  by (simp add: FRAME_HEADER_SIZE_def)

theorem frame_decoder_pending_bounded_witness:
  "length (fd_pending ((fd_new 10)\<lparr>fd_pending := [0, 0, 4, 8]\<rparr>)) < FRAME_HEADER_SIZE + 10"
proof -
  have "fd_push [0, 0, 4, 8] (fd_new 10) = Ok ([], (fd_new 10)\<lparr>fd_pending := [0, 0, 4, 8]\<rparr>)"
    by (simp add: fd_push_eq_spec push_spec_def fd_new_def parse_frames.simps [of 10 "[0, 0, 4, 8]"])
  from frame_decoder_pending_bounded [OF this] show ?thesis by (simp add: fd_new_def)
qed

text \<open>
  A frame whose announced length exceeds the limit is refused with FRAME\_SIZE\_ERROR as
  soon as its header has arrived, whatever its type and however little of its payload is
  there.
\<close>

theorem frame_decoder_rejects_oversized:
  assumes "9 \<le> length bs" and "m < be_length bs"
  shows "fd_push bs (fd_new m) = Err (frame_too_long (be_length bs) m)
     \<and> he_code (frame_too_long (be_length bs) m) = FrameSizeError"
  using assms by (simp add: fd_push_eq_spec push_spec_def fd_new_def parse_frames.simps [of m bs]
      frame_too_long_def)

theorem frame_decoder_rejects_oversized_witness:
  "fd_push [1, 0, 0, 0, 0, 0, 0, 0, 1] (fd_new 16384) = Err (frame_too_long 65536 16384)"
proof -
  have "be_length [1, 0, 0, 0, 0, 0, 0, 0, 1] = 65536"
    by (simp add: be_length_def from_be24_def)
  then show ?thesis
    using frame_decoder_rejects_oversized [of "[1, 0, 0, 0, 0, 0, 0, 0, 1]" 16384] by simp
qed

end
