(* ===== verification/Connection.thy ===== *)
theory Connection
  imports Stream_State Frame_Decoder "HOL-Library.AList"
begin

text \<open>
  \<open>ConnState\<close> of \<open>h2ts-client/src/connection.rs\<close>: the state of one HTTP/2 connection and the
  handlers of inbound frames.

  The hash maps of streams and of pings are association lists without repeated keys; where the
  source iterates over a map (in an order it does not fix) the model goes through the list.  The
  outbound channel is its sender, present or dropped, and the queue of messages.  The store
  \<open>cn_cells\<close> holds the cells shared with responses, \<open>cn_ping_results\<close> the channels of pings;
  an address is a position and allocation appends.  Waking a task appends it to
  \<open>cn_woken\<close>.  \<open>W\<close> is the width of \<open>usize\<close> and \<open>now\<close> the reading of the platform clock;
  a round-trip time is kept as the pair of readings whose difference the source reports.
\<close>

definition CONNECTION_PREFACE :: bytes where
  "CONNECTION_PREFACE = as_bytes (''PRI * HTTP/2.0'' @ [CHR 0x0D, CHR 0x0A, CHR 0x0D, CHR 0x0A] @ ''SM''
     @ [CHR 0x0D, CHR 0x0A, CHR 0x0D, CHR 0x0A])"

definition SPEC_INITIAL_WINDOW :: int where
  "SPEC_INITIAL_WINDOW = 65535"

definition MAX_HEADER_BLOCK_SIZE :: nat where
  "MAX_HEADER_BLOCK_SIZE = 1048576"

record remote_settings =
  rm_initial_window_size :: int
  rm_max_frame_size :: nat
  rm_header_table_size :: nat
  rm_enable_push :: bool
  rm_max_concurrent_streams :: u32

definition remote_settings_default :: remote_settings where
  "remote_settings_default =
     \<lparr>rm_initial_window_size = SPEC_INITIAL_WINDOW, rm_max_frame_size = DEFAULT_MAX_FRAME_SIZE,
      rm_header_table_size = 4096, rm_enable_push = True, rm_max_concurrent_streams = 0xffffffff\<rparr>"

datatype header_block_kind = ResponseBlock | PushBlock

record pending_header_block =
  pb_stream_id :: u32
  pb_kind :: header_block_kind
  pb_end_stream :: bool
  pb_promised_stream_id :: "u32 option"
  pb_fragments :: "bytes list"
  pb_size :: nat

type_synonym time = nat

record ping_waiter =
  pw_resolve :: nat
  pw_sent_at :: time

datatype request_body = EmptyBody | BytesBody bytes | StreamBody "bytes list"

record conn =
  cn_out_tx :: bool
  cn_outq :: "bytes list"
  cn_task_q :: "(u32 \<times> request_body) list"
  cn_decoder :: hpack_decoder
  cn_frame_decoder :: frame_decoder
  cn_streams :: "(u32 \<times> stream_state) list"
  cn_next_stream_id :: u32
  cn_send_window :: send_window
  cn_remote :: remote_settings
  cn_pending :: "pending_header_block option"
  cn_pings :: "(bytes \<times> ping_waiter) list"
  cn_ping_counter :: u32
  cn_slot_waiters :: "task list"
  cn_closed :: bool
  cn_close_error :: "h2error option"
  cn_goaway_received :: bool
  cn_highest_promised :: u32
  cn_cells :: "stream_cell list"
  cn_ping_results :: "(time \<times> time) h2result oneshot list"
  cn_woken :: "task list"

subsection \<open>Access to streams and effects\<close>

definition get_stream :: "u32 \<Rightarrow> conn \<Rightarrow> stream_state option" where
  "get_stream sid c = map_of (cn_streams c) sid"

definition put_stream :: "u32 \<Rightarrow> stream_state \<Rightarrow> conn \<Rightarrow> conn" where
  "put_stream sid s c = c\<lparr>cn_streams := AList.update sid s (cn_streams c)\<rparr>"

definition delete_stream :: "u32 \<Rightarrow> conn \<Rightarrow> conn" where
  "delete_stream sid c = c\<lparr>cn_streams := AList.delete sid (cn_streams c)\<rparr>"

definition wake :: "task list \<Rightarrow> conn \<Rightarrow> conn" where
  "wake ts c = c\<lparr>cn_woken := cn_woken c @ ts\<rparr>"

definition set_cell :: "nat \<Rightarrow> stream_cell \<Rightarrow> conn \<Rightarrow> conn" where
  "set_cell a cl c = c\<lparr>cn_cells := (cn_cells c)[a := cl]\<rparr>"

type_synonym stream_method = "stream_state \<Rightarrow> stream_cell \<Rightarrow> stream_state \<times> stream_cell \<times> task list"

text \<open>A method called on the stream in the map: \<open>streams.get_mut(&id)\<close>.\<close>

definition with_stream :: "u32 \<Rightarrow> stream_method \<Rightarrow> conn \<Rightarrow> conn" where
  "with_stream sid f c =
     (case get_stream sid c of
        None \<Rightarrow> c
      | Some s \<Rightarrow> (case f s (cn_cells c ! ss_cell s) of
          (s', cl', ts) \<Rightarrow> wake ts (put_stream sid s' (set_cell (ss_cell s) cl' c))))"

text \<open>Dropping a stream drops the sender of its response head.\<close>

definition drop_stream :: "stream_state \<Rightarrow> stream_cell \<Rightarrow> stream_cell" where
  "drop_stream s cl = (if ss_head_tx s then cl\<lparr>sc_head := Dropped\<rparr> else cl)"

text \<open>A method called on the stream taken out of the map: \<open>streams.remove(&id)\<close>.\<close>

definition take_stream :: "u32 \<Rightarrow> stream_method \<Rightarrow> conn \<Rightarrow> conn" where
  "take_stream sid f c =
     (case get_stream sid c of
        None \<Rightarrow> c
      | Some s \<Rightarrow> (case f s (cn_cells c ! ss_cell s) of
          (s', cl', ts) \<Rightarrow> wake ts (set_cell (ss_cell s) (drop_stream s' cl') (delete_stream sid c))))"

subsection \<open>Sending\<close>

definition write_raw :: "bytes \<Rightarrow> conn \<Rightarrow> conn" where
  "write_raw bs c = (if \<not> cn_closed c \<and> cn_out_tx c then c\<lparr>cn_outq := cn_outq c @ [bs]\<rparr> else c)"

definition send_frame :: "frame \<Rightarrow> conn \<Rightarrow> conn" where
  "send_frame f c = write_raw (serialize_frame f) c"

text \<open>
  The loop over the rest of an oversized block.  With a maximum of 0 the source would not
  terminate, and the model stops instead; \<open>conn_inv\<close> below keeps the maximum at 16384 or more.
\<close>

function send_continuations :: "u32 \<Rightarrow> bytes \<Rightarrow> nat \<Rightarrow> nat \<Rightarrow> conn \<Rightarrow> conn" where
  "send_continuations sid block mx offset c =
     (if offset < length block \<and> 0 < mx then
        (let nxt = min (offset + mx) (length block) in
         send_continuations sid block mx nxt
           (send_frame (Continuation sid (range_slice block offset nxt) (length block \<le> nxt)) c))
      else c)"
  by pat_completeness auto
termination
  by (relation "measure (\<lambda>(sid, block, mx, offset, c). length block - offset)") auto

declare send_continuations.simps [simp del]

definition send_headers :: "u32 \<Rightarrow> bytes \<Rightarrow> bool \<Rightarrow> conn \<Rightarrow> conn" where
  "send_headers sid block end_stream c =
     (let mx = rm_max_frame_size (cn_remote c) in
      if length block \<le> mx then send_frame (Headers sid block end_stream True None) c
      else send_continuations sid block mx mx
             (send_frame (Headers sid (range_slice block 0 mx) end_stream False None) c))"

subsection \<open>Concurrency limit\<close>

definition active_streams :: "conn \<Rightarrow> nat" where
  "active_streams c = length (filter (\<lambda>sid. sid mod 2 = 1) (map fst (cn_streams c)))"

definition can_open_stream :: "conn \<Rightarrow> bool" where
  "can_open_stream c \<longleftrightarrow> active_streams c < unat (rm_max_concurrent_streams (cn_remote c))"

definition wake_slot_waiters :: "conn \<Rightarrow> conn" where
  "wake_slot_waiters c = wake (cn_slot_waiters c) (c\<lparr>cn_slot_waiters := []\<rparr>)"

subsection \<open>Ending streams and connections\<close>

definition reset_stream :: "u32 \<Rightarrow> error_code \<Rightarrow> conn \<Rightarrow> conn" where
  "reset_stream sid code c =
     wake_slot_waiters
       (take_stream sid (fail (h2error_stream code (''stream '' @ show_nat (unat sid) @ '' reset'') sid))
         (send_frame (RstStream sid (ec_value code)) c))"

definition retire_if_fully_closed :: "u32 \<Rightarrow> conn \<Rightarrow> conn" where
  "retire_if_fully_closed sid c =
     (case get_stream sid c of
        Some s \<Rightarrow>
          if ss_local_closed s \<and> ss_remote_closed s
          then wake_slot_waiters (take_stream sid (\<lambda>s cl. (s, cl, [])) c) else c
      | None \<Rightarrow> c)"

definition replenish_recv_window :: "u32 \<Rightarrow> nat \<Rightarrow> conn \<Rightarrow> conn" where
  "replenish_recv_window sid n c =
     (if cn_closed c \<or> n = 0 then c
      else let inc = word_of_nat n;
               c = (if get_stream sid c \<noteq> None then send_frame (WindowUpdate sid inc) c else c)
           in send_frame (WindowUpdate 0 inc) c)"

fun fail_streams :: "u32 list \<Rightarrow> h2error \<Rightarrow> conn \<Rightarrow> conn" where
  "fail_streams [] err c = c"
| "fail_streams (sid # sids) err c = fail_streams sids err (take_stream sid (fail err) c)"

fun fail_pings :: "ping_waiter list \<Rightarrow> h2error \<Rightarrow> conn \<Rightarrow> conn" where
  "fail_pings [] err c = c"
| "fail_pings (w # ws) err c =
     fail_pings ws err (c\<lparr>cn_ping_results := (cn_ping_results c)[pw_resolve w := Sent (Err err)]\<rparr>)"

definition close_conn_window :: "conn \<Rightarrow> conn" where
  "close_conn_window c =
     (case sw_close (cn_send_window c) of (w, ts) \<Rightarrow> wake ts (c\<lparr>cn_send_window := w\<rparr>))"

definition destroy :: "h2error \<Rightarrow> conn \<Rightarrow> conn" where
  "destroy err c =
     (if cn_closed c then c
      else
        let c = c\<lparr>cn_closed := True, cn_close_error := Some err\<rparr>;
            c = close_conn_window c;
            c = fail_streams (map fst (cn_streams c)) err c;
            c = fail_pings (map snd (cn_pings c)) err (c\<lparr>cn_pings := []\<rparr>);
            c = wake_slot_waiters c
        in c\<lparr>cn_out_tx := False\<rparr>)"

definition connection_error :: "h2error \<Rightarrow> conn \<Rightarrow> conn" where
  "connection_error err c =
     destroy err (send_frame (Goaway (cn_highest_promised c) (ec_value (he_code err)) []) c)"

subsection \<open>Inbound frames\<close>

type_synonym handled = "unit h2result \<times> conn"

definition and_then :: "handled \<Rightarrow> (conn \<Rightarrow> handled) \<Rightarrow> handled" where
  "and_then m f = (case m of (Ok _, c) \<Rightarrow> f c | (Err e, c) \<Rightarrow> (Err e, c) | (Panic, c) \<Rightarrow> (Panic, c))"

definition proto_err :: "error_code \<Rightarrow> string \<Rightarrow> conn \<Rightarrow> handled" where
  "proto_err code m c = (Err (h2error_new code m), c)"

definition adjust_streams :: "int \<Rightarrow> conn \<Rightarrow> conn" where
  "adjust_streams delta c =
     wake (concat (map (\<lambda>(_, s). snd (sw_adjust delta (ss_send_window s))) (cn_streams c)))
       (c\<lparr>cn_streams := map (\<lambda>(sid, s). (sid, s\<lparr>ss_send_window := fst (sw_adjust delta (ss_send_window s))\<rparr>))
          (cn_streams c)\<rparr>)"

definition apply_initial_window :: "u32 option \<Rightarrow> conn \<Rightarrow> handled" where
  "apply_initial_window iwo c =
     (case iwo of
        None \<Rightarrow> (Ok (), c)
      | Some iw \<Rightarrow>
          if iw > 0x7fffffff
          then proto_err FlowControlError ''SETTINGS_INITIAL_WINDOW_SIZE exceeds 2^31-1'' c
          else let delta = int (unat iw) - rm_initial_window_size (cn_remote c) in
            (Ok (), adjust_streams delta
              (c\<lparr>cn_remote := (cn_remote c)\<lparr>rm_initial_window_size := int (unat iw)\<rparr>\<rparr>)))"

definition apply_max_frame_size :: "u32 option \<Rightarrow> conn \<Rightarrow> handled" where
  "apply_max_frame_size mfso c =
     (case mfso of
        None \<Rightarrow> (Ok (), c)
      | Some mfs \<Rightarrow>
          if \<not> (16384 \<le> mfs \<and> mfs \<le> 16777215)
          then proto_err ProtocolError ''SETTINGS_MAX_FRAME_SIZE out of range'' c
          else (Ok (), c\<lparr>cn_remote := (cn_remote c)\<lparr>rm_max_frame_size := unat mfs\<rparr>\<rparr>))"

definition apply_other_settings :: "settings \<Rightarrow> conn \<Rightarrow> conn" where
  "apply_other_settings s c =
     (let c = (case st_header_table_size s of
                 Some hts \<Rightarrow> c\<lparr>cn_remote := (cn_remote c)\<lparr>rm_header_table_size := unat hts\<rparr>\<rparr> | None \<Rightarrow> c);
          c = (case st_enable_push s of
                 Some ep \<Rightarrow> c\<lparr>cn_remote := (cn_remote c)\<lparr>rm_enable_push := ep\<rparr>\<rparr> | None \<Rightarrow> c)
      in case st_max_concurrent_streams s of
           Some mcs \<Rightarrow> wake_slot_waiters (c\<lparr>cn_remote := (cn_remote c)\<lparr>rm_max_concurrent_streams := mcs\<rparr>\<rparr>)
         | None \<Rightarrow> c)"

definition apply_remote_settings :: "settings \<Rightarrow> conn \<Rightarrow> handled" where
  "apply_remote_settings s c =
     and_then (apply_initial_window (st_initial_window_size s) c) (\<lambda>c.
     and_then (apply_max_frame_size (st_max_frame_size s) c) (\<lambda>c.
     (Ok (), apply_other_settings s c)))"

definition guard_header_block_size :: "conn \<Rightarrow> handled" where
  "guard_header_block_size c =
     (case cn_pending c of
        Some pb \<Rightarrow>
          if MAX_HEADER_BLOCK_SIZE < pb_size pb
          then proto_err EnhanceYourCalm ''header block exceeds the maximum size'' c else (Ok (), c)
      | None \<Rightarrow> (Ok (), c))"

definition set_remote_closed :: "u32 \<Rightarrow> conn \<Rightarrow> conn" where
  "set_remote_closed sid c = with_stream sid (\<lambda>s cl. (s\<lparr>ss_remote_closed := True\<rparr>, cl, [])) c"

definition deliver_headers :: "pending_header_block \<Rightarrow> header list \<Rightarrow> conn \<Rightarrow> conn" where
  "deliver_headers pb headers c =
     (case pb_kind pb of
        ResponseBlock \<Rightarrow>
          let c = with_stream (pb_stream_id pb) (receive_headers headers (pb_end_stream pb)) c in
          if pb_end_stream pb
          then retire_if_fully_closed (pb_stream_id pb) (set_remote_closed (pb_stream_id pb) c) else c
      | PushBlock \<Rightarrow>
          let promised = (case pb_promised_stream_id pb of Some p \<Rightarrow> p | None \<Rightarrow> 0);
              c = (if cn_highest_promised c < promised then c\<lparr>cn_highest_promised := promised\<rparr> else c)
          in send_frame (RstStream promised (ec_value RefusedStream)) c)"

definition complete_header_block :: "nat \<Rightarrow> conn \<Rightarrow> handled" where
  "complete_header_block W c =
     (case cn_pending c of
        None \<Rightarrow> (Panic, c)
      | Some pb \<Rightarrow>
          let c = c\<lparr>cn_pending := None\<rparr>;
              block = (if length (pb_fragments pb) = 1 then pb_fragments pb ! 0 else concat (pb_fragments pb))
          in case hpack_decode W block (cn_decoder c) of (res, d) \<Rightarrow>
             let c = c\<lparr>cn_decoder := d\<rparr> in
             (case res of
                Ok headers \<Rightarrow> (Ok (), deliver_headers pb headers c)
              | Err e \<Rightarrow> (Err e, c)
              | Panic \<Rightarrow> (Panic, c)))"

text \<open>\<open>self.guard_header_block_size()?; if end_headers { self.complete_header_block()?; }\<close>\<close>

definition guard_then_complete :: "nat \<Rightarrow> bool \<Rightarrow> conn \<Rightarrow> handled" where
  "guard_then_complete W end_headers c =
     and_then (guard_header_block_size c) (\<lambda>c.
     if end_headers then complete_header_block W c else (Ok (), c))"

definition on_headers :: "nat \<Rightarrow> u32 \<Rightarrow> bytes \<Rightarrow> bool \<Rightarrow> bool \<Rightarrow> conn \<Rightarrow> handled" where
  "on_headers W sid frag end_stream end_headers c =
     guard_then_complete W end_headers
       (c\<lparr>cn_pending := Some \<lparr>pb_stream_id = sid, pb_kind = ResponseBlock, pb_end_stream = end_stream,
          pb_promised_stream_id = None, pb_fragments = [frag], pb_size = length frag\<rparr>\<rparr>)"

definition on_continuation :: "nat \<Rightarrow> u32 \<Rightarrow> bytes \<Rightarrow> bool \<Rightarrow> conn \<Rightarrow> handled" where
  "on_continuation W sid frag end_headers c =
     (let unexpected = proto_err ProtocolError ''unexpected CONTINUATION'' c in
      case cn_pending c of
        Some pb \<Rightarrow>
          if pb_stream_id pb = sid then
            guard_then_complete W end_headers
              (c\<lparr>cn_pending := Some (pb\<lparr>pb_size := pb_size pb + length frag, pb_fragments := pb_fragments pb @ [frag]\<rparr>)\<rparr>)
          else unexpected
      | None \<Rightarrow> unexpected)"

definition on_push_promise :: "nat \<Rightarrow> u32 \<Rightarrow> u32 \<Rightarrow> bytes \<Rightarrow> bool \<Rightarrow> conn \<Rightarrow> handled" where
  "on_push_promise W sid promised frag end_headers c =
     guard_then_complete W end_headers
       (c\<lparr>cn_pending := Some \<lparr>pb_stream_id = sid, pb_kind = PushBlock, pb_end_stream = False,
          pb_promised_stream_id = Some promised, pb_fragments = [frag], pb_size = length frag\<rparr>\<rparr>)"

definition on_data :: "u32 \<Rightarrow> bytes \<Rightarrow> bool \<Rightarrow> conn \<Rightarrow> conn" where
  "on_data sid data end_stream c =
     (let c = (if get_stream sid c \<noteq> None then
                 (let c = with_stream sid (receive_data data end_stream) c in
                  if end_stream then set_remote_closed sid c else c)
               else if data \<noteq> [] then send_frame (WindowUpdate 0 (word_of_nat (length data))) c
               else c)
      in if end_stream then retire_if_fully_closed sid c else c)"

definition on_rst_stream :: "u32 \<Rightarrow> u32 \<Rightarrow> conn \<Rightarrow> conn" where
  "on_rst_stream sid error_code c = take_stream sid (receive_reset error_code) c"

definition update_stream_window :: "int \<Rightarrow> stream_method" where
  "update_stream_window inc s cl =
     (case sw_update inc (ss_send_window s) of (w, ts) \<Rightarrow> (s\<lparr>ss_send_window := w\<rparr>, cl, ts))"

definition on_window_update :: "u32 \<Rightarrow> u32 \<Rightarrow> conn \<Rightarrow> handled" where
  "on_window_update sid inc c =
     (if inc = 0 then
        (if sid = 0 then proto_err ProtocolError ''zero WINDOW_UPDATE'' c
         else (Ok (), reset_stream sid ProtocolError c))
      else if sid = 0 then
        (case sw_update (int (unat inc)) (cn_send_window c) of
           (w, ts) \<Rightarrow> (Ok (), wake ts (c\<lparr>cn_send_window := w\<rparr>)))
      else (Ok (), with_stream sid (update_stream_window (int (unat inc))) c))"

definition on_ping :: "time \<Rightarrow> bool \<Rightarrow> bytes \<Rightarrow> conn \<Rightarrow> conn" where
  "on_ping now ack opaque c =
     (if ack then
        (case map_of (cn_pings c) opaque of
           Some w \<Rightarrow>
             c\<lparr>cn_pings := AList.delete opaque (cn_pings c),
               cn_ping_results := (cn_ping_results c)[pw_resolve w := Sent (Ok (now, pw_sent_at w))]\<rparr>
         | None \<Rightarrow> c)
      else send_frame (Ping True opaque) c)"

definition on_goaway :: "u32 \<Rightarrow> u32 \<Rightarrow> conn \<Rightarrow> conn" where
  "on_goaway last_stream_id error_code c =
     (let c = c\<lparr>cn_goaway_received := True\<rparr>;
          code = (case ec_from_value error_code of Some e \<Rightarrow> e | None \<Rightarrow> NoError);
          err = h2error_new code ''peer sent GOAWAY'';
          doomed = filter (\<lambda>sid. last_stream_id < sid) (map fst (cn_streams c));
          c = fail_streams doomed err c;
          c = wake_slot_waiters c
      in if error_code \<noteq> 0 then destroy err c else c)"

fun is_continuation :: "frame \<Rightarrow> bool" where
  "is_continuation (Continuation _ _ _) = True"
| "is_continuation _ = False"

fun handle_frame :: "nat \<Rightarrow> time \<Rightarrow> frame \<Rightarrow> conn \<Rightarrow> handled" where
  "handle_frame W now (SettingsF ack s) c =
     (if ack then (Ok (), c)
      else and_then (apply_remote_settings s c) (\<lambda>c. (Ok (), send_frame (SettingsF True settings_default) c)))"
| "handle_frame W now (Headers sid frag end_stream end_headers _) c = on_headers W sid frag end_stream end_headers c"
| "handle_frame W now (Continuation sid frag end_headers) c = on_continuation W sid frag end_headers c"
| "handle_frame W now (PushPromise sid promised frag end_headers) c = on_push_promise W sid promised frag end_headers c"
| "handle_frame W now (Data sid data end_stream) c = (Ok (), on_data sid data end_stream c)"
| "handle_frame W now (RstStream sid code) c = (Ok (), on_rst_stream sid code c)"
| "handle_frame W now (WindowUpdate sid inc) c = on_window_update sid inc c"
| "handle_frame W now (Ping ack opaque) c = (Ok (), on_ping now ack opaque c)"
| "handle_frame W now (Goaway lsid code _) c = (Ok (), on_goaway lsid code c)"
| "handle_frame W now (PriorityF _ _) c = (Ok (), c)"

definition dispatch :: "nat \<Rightarrow> time \<Rightarrow> frame \<Rightarrow> conn \<Rightarrow> handled" where
  "dispatch W now f c =
     (if cn_pending c \<noteq> None \<and> \<not> is_continuation f
      then proto_err ProtocolError ''expected CONTINUATION frame'' c
      else handle_frame W now f c)"

fun dispatch_all :: "nat \<Rightarrow> time \<Rightarrow> frame list \<Rightarrow> conn \<Rightarrow> handled" where
  "dispatch_all W now [] c = (Ok (), c)"
| "dispatch_all W now (f # fs) c =
     (case dispatch W now f c of
        (Ok _, c) \<Rightarrow> dispatch_all W now fs c
      | (Err e, c) \<Rightarrow> (Ok (), connection_error e c)
      | (Panic, c) \<Rightarrow> (Panic, c))"

definition on_bytes :: "nat \<Rightarrow> time \<Rightarrow> bytes \<Rightarrow> conn \<Rightarrow> handled" where
  "on_bytes W now chunk c =
     (case fd_push chunk (cn_frame_decoder c) of
        Ok (fs, d) \<Rightarrow> dispatch_all W now fs (c\<lparr>cn_frame_decoder := d\<rparr>)
      | Err e \<Rightarrow> (Ok (), connection_error e c)
      | Panic \<Rightarrow> (Panic, c))"

end
