(* ===== verification/Client.thy ===== *)
theory Client
  imports Connection
begin

text \<open>
  The public side of \<open>h2ts-client/src/connection.rs\<close>: \<open>connect\<close>, the methods of
  \<open>H2Connection\<close> and of \<open>ResponseBody\<close>, and the body pumps.  An \<open>async\<close> function is modelled
  by the atomic sections between its suspension points: what runs while the \<open>RefCell\<close> is
  borrowed is one function, and a task that suspends leaves its number with the resource that
  wakes it.
\<close>

subsection \<open>Requests\<close>

record request_init =
  ri_method :: "string option"
  ri_path :: "string option"
  ri_authority :: "string option"
  ri_scheme :: "string option"
  ri_headers :: "(string \<times> string) list"
  ri_body :: request_body

fun body_is_empty :: "request_body \<Rightarrow> bool" where
  "body_is_empty EmptyBody = True"
| "body_is_empty (BytesBody b) = (b = [])"
| "body_is_empty (StreamBody _) = False"

definition FORBIDDEN_HEADERS :: "string list" where
  "FORBIDDEN_HEADERS = [''connection'', ''host'', ''keep-alive'', ''proxy-connection'', ''transfer-encoding'', ''upgrade'']"

definition unwrap_or :: "'a option \<Rightarrow> 'a \<Rightarrow> 'a" where
  "unwrap_or x d = (case x of Some v \<Rightarrow> v | None \<Rightarrow> d)"

fun request_fields :: "(string \<times> string) list \<Rightarrow> header list" where
  "request_fields [] = []"
| "request_fields ((raw_name, v) # hs) =
     (let n = to_ascii_lowercase raw_name in
      if take 1 n = '':'' \<or> n \<in> set FORBIDDEN_HEADERS then request_fields hs
      else if n = ''authorization'' \<or> n = ''cookie'' then header_never_indexed n v # request_fields hs
      else header_new n v # request_fields hs)"

text \<open>\<open>to_uppercase\<close> is Rust's Unicode upper-casing, a parameter of the model.\<close>

definition build_request_headers :: "(string \<Rightarrow> string) \<Rightarrow> request_init \<Rightarrow> header list" where
  "build_request_headers to_uppercase init =
     [header_new '':method'' (to_uppercase (unwrap_or (ri_method init) ''GET'')),
      header_new '':scheme'' (unwrap_or (ri_scheme init) ''http'')]
     @ (case ri_authority init of Some a \<Rightarrow> [header_new '':authority'' a] | None \<Rightarrow> [])
     @ [header_new '':path'' (unwrap_or (ri_path init) ''/'')]
     @ request_fields (ri_headers init)"

datatype request_outcome =
    ReqErr h2error
  | ReqParked
  | ReqOpened u32 nat
  | ReqPanic

definition closed_error :: "conn \<Rightarrow> h2error" where
  "closed_error c = unwrap_or (cn_close_error c) (h2error_new InternalError ''connection closed'')"

definition refuse_request :: "conn \<Rightarrow> h2error option" where
  "refuse_request c =
     (if cn_closed c then Some (closed_error c)
      else if cn_goaway_received c then Some (h2error_new RefusedStream ''connection is going away'')
      else None)"

text \<open>\<open>streams.insert(id, stream)\<close> drops the stream it replaces.\<close>

definition insert_stream :: "u32 \<Rightarrow> stream_state \<Rightarrow> conn \<Rightarrow> conn" where
  "insert_stream sid s c = put_stream sid s (take_stream sid (\<lambda>s cl. (s, cl, [])) c)"

definition open_request :: "(string \<Rightarrow> string) \<Rightarrow> request_init \<Rightarrow> conn \<Rightarrow> request_outcome \<times> conn" where
  "open_request to_uppercase init c =
     (case refuse_request c of
        Some e \<Rightarrow> (ReqErr e, c)
      | None \<Rightarrow>
          let has_body = (\<not> body_is_empty (ri_body init));
              sid = cn_next_stream_id c;
              cell = length (cn_cells c);
              s = (ss_new sid (rm_initial_window_size (cn_remote c)) cell)
                    \<lparr>ss_head_tx := True, ss_local_closed := \<not> has_body\<rparr>;
              c = insert_stream sid s (c\<lparr>cn_next_stream_id := sid + 2, cn_cells := cn_cells c @ [cell_default]\<rparr>)
          in case hpack_encode (build_request_headers to_uppercase init) of
               Ok block \<Rightarrow>
                 let c = send_headers sid block (\<not> has_body) c in
                 (ReqOpened sid cell,
                  if has_body then c\<lparr>cn_task_q := cn_task_q c @ [(sid, ri_body init)]\<rparr> else c)
             | _ \<Rightarrow> (ReqPanic, c))"

text \<open>One turn of the parking loop of \<open>request\<close>, run by task \<open>t\<close>, up to its next suspension.\<close>

definition request :: "(string \<Rightarrow> string) \<Rightarrow> task \<Rightarrow> request_init \<Rightarrow> conn \<Rightarrow> request_outcome \<times> conn" where
  "request to_uppercase t init c =
     (case refuse_request c of
        Some e \<Rightarrow> (ReqErr e, c)
      | None \<Rightarrow>
          if can_open_stream c then open_request to_uppercase init c
          else (ReqParked, c\<lparr>cn_slot_waiters := cn_slot_waiters c @ [t]\<rparr>))"

definition request_finish :: "nat \<Rightarrow> conn \<Rightarrow> head h2result poll" where
  "request_finish cell c =
     (case sc_head (cn_cells c ! cell) of
        Waiting \<Rightarrow> Pending
      | Sent r \<Rightarrow> Ready r
      | Dropped \<Rightarrow> Ready (Err (closed_error c)))"

subsection \<open>Response bodies\<close>

definition body_poll :: "task \<Rightarrow> u32 \<Rightarrow> nat \<Rightarrow> conn \<Rightarrow> ((h2error, bytes) result option poll \<times> conn) h2result" where
  "body_poll t sid cell c =
     rbind (recv_poll t (sc_recv (cn_cells c ! cell))) (\<lambda>(res, n, r).
     Ok (res, replenish_recv_window sid n
                (set_cell cell ((cn_cells c ! cell)\<lparr>sc_recv := r\<rparr>) c)))"

definition body_drop :: "u32 \<Rightarrow> nat \<Rightarrow> conn \<Rightarrow> conn" where
  "body_drop sid cell c =
     (let r = sc_recv (cn_cells c ! cell);
          c = (if 0 < rs_buffered r then replenish_recv_window sid (rs_buffered r) c else c)
      in if \<not> rs_ended r then reset_stream sid Cancel c else c)"

definition response_trailers :: "nat \<Rightarrow> conn \<Rightarrow> (string \<rightharpoonup> string) option" where
  "response_trailers cell c = sc_trailers (cn_cells c ! cell)"

subsection \<open>Pings and closing\<close>

definition ping :: "time \<Rightarrow> conn \<Rightarrow> (h2error + nat) \<times> conn" where
  "ping now c =
     (if cn_closed c then (Inl (closed_error c), c)
      else
        let counter = cn_ping_counter c + 1;
            opaque = [0, 0, 0, 0] @ be32 counter;
            ch = length (cn_ping_results c);
            dropped = (case map_of (cn_pings c) opaque of
                         Some w \<Rightarrow> (cn_ping_results c)[pw_resolve w := Dropped] | None \<Rightarrow> cn_ping_results c);
            c = c\<lparr>cn_ping_counter := counter, cn_ping_results := dropped @ [Waiting],
                  cn_pings := AList.update opaque \<lparr>pw_resolve = ch, pw_sent_at = now\<rparr> (cn_pings c)\<rparr>
        in (Inr ch, send_frame (Ping False opaque) c))"

definition ping_finish :: "nat \<Rightarrow> conn \<Rightarrow> (time \<times> time) h2result poll" where
  "ping_finish ch c =
     (case cn_ping_results c ! ch of
        Waiting \<Rightarrow> Pending
      | Sent r \<Rightarrow> Ready r
      | Dropped \<Rightarrow> Ready (Err (h2error_new InternalError ''connection closed'')))"

definition close :: "conn \<Rightarrow> conn" where
  "close c =
     (if cn_closed c then c
      else destroy (h2error_new NoError ''connection closed by client'')
             (send_frame (Goaway (cn_highest_promised c) 0 []) c))"

subsection \<open>Body pumps\<close>

text \<open>
  \<open>PumpNext\<close> waits for the next chunk of the body, \<open>PumpChunk\<close> is the loop of \<open>pump_chunk\<close>
  at an offset of the current chunk.
\<close>

datatype pump = PumpNext "bytes list" | PumpChunk bytes nat "bytes list" | PumpDone

fun pump_start :: "request_body \<Rightarrow> pump" where
  "pump_start EmptyBody = PumpDone"
| "pump_start (BytesBody b) = PumpNext [b]"
| "pump_start (StreamBody chunks) = PumpNext chunks"

definition pump_finish :: "u32 \<Rightarrow> conn \<Rightarrow> conn" where
  "pump_finish sid c =
     (if get_stream sid c \<noteq> None then
        retire_if_fully_closed sid
          (with_stream sid (\<lambda>s cl. (s\<lparr>ss_local_closed := True\<rparr>, cl, []))
            (send_frame (Data sid [] True) c))
      else c)"

definition park_pump :: "task \<Rightarrow> u32 \<Rightarrow> conn \<Rightarrow> conn" where
  "park_pump t sid c =
     (let c = (if \<not> sw_is_ready (cn_send_window c)
               then c\<lparr>cn_send_window := sw_register_waker t (cn_send_window c)\<rparr> else c)
      in with_stream sid (\<lambda>s cl.
           (if \<not> sw_is_ready (ss_send_window s)
            then s\<lparr>ss_send_window := sw_register_waker t (ss_send_window s)\<rparr> else s, cl, [])) c)"

definition pump_grant :: "bytes \<Rightarrow> nat \<Rightarrow> stream_state \<Rightarrow> conn \<Rightarrow> int" where
  "pump_grant chunk offset s c =
     min (min (min (int (length chunk - offset)) (sw_available (cn_send_window c)))
              (sw_available (ss_send_window s)))
         (int (rm_max_frame_size (cn_remote c)))"

definition consume_stream :: "int \<Rightarrow> stream_method" where
  "consume_stream n s cl = (s\<lparr>ss_send_window := sw_consume n (ss_send_window s)\<rparr>, cl, [])"

text \<open>One iteration of a pump of task \<open>t\<close>; the flag says that the pump is parked.\<close>

fun pump_step :: "task \<Rightarrow> u32 \<Rightarrow> pump \<Rightarrow> conn \<Rightarrow> pump \<times> bool \<times> conn" where
  "pump_step t sid PumpDone c = (PumpDone, False, c)"
| "pump_step t sid (PumpNext []) c = (PumpDone, False, pump_finish sid c)"
| "pump_step t sid (PumpNext (chunk # chunks)) c =
     (if chunk = [] then (PumpNext chunks, False, c) else (PumpChunk chunk 0 chunks, False, c))"
| "pump_step t sid (PumpChunk chunk offset chunks) c =
     (if \<not> offset < length chunk then (PumpNext chunks, False, c)
      else case get_stream sid c of
        None \<Rightarrow> (PumpDone, False, c)
      | Some s \<Rightarrow>
          if cn_closed c then (PumpDone, False, c)
          else if \<not> (sw_is_ready (cn_send_window c) \<and> sw_is_ready (ss_send_window s))
          then (PumpChunk chunk offset chunks, True, park_pump t sid c)
          else if sw_closed (ss_send_window s) then (PumpDone, False, c)
          else
            let grant = pump_grant chunk offset s c in
            if grant \<le> 0 then (PumpChunk chunk offset chunks, False, c)
            else
              let c = c\<lparr>cn_send_window := sw_consume grant (cn_send_window c)\<rparr>;
                  c = with_stream sid (consume_stream grant) c;
                  slice = range_slice chunk offset (offset + nat grant)
              in (PumpChunk chunk (offset + nat grant) chunks, False, send_frame (Data sid slice False) c))"

subsection \<open>Connecting\<close>

record connect_options =
  co_header_table_size :: "nat option"
  co_enable_push :: "bool option"
  co_initial_window_size :: "u32 option"
  co_max_frame_size :: "nat option"
  co_connection_window_size :: "u32 option"

definition conn_new :: "nat \<Rightarrow> nat \<Rightarrow> conn" where
  "conn_new header_table_size local_max_frame_size =
     \<lparr>cn_out_tx = True, cn_outq = [], cn_task_q = [],
      cn_decoder = hpack_decoder_new header_table_size,
      cn_frame_decoder = fd_new local_max_frame_size,
      cn_streams = [], cn_next_stream_id = 1, cn_send_window = sw_new SPEC_INITIAL_WINDOW,
      cn_remote = remote_settings_default, cn_pending = None, cn_pings = [], cn_ping_counter = 0,
      cn_slot_waiters = [], cn_closed = False, cn_close_error = None, cn_goaway_received = False,
      cn_highest_promised = 0, cn_cells = [], cn_ping_results = [], cn_woken = []\<rparr>"

definition connect :: "connect_options \<Rightarrow> conn" where
  "connect options =
     (let local_max_frame_size = unwrap_or (co_max_frame_size options) DEFAULT_MAX_FRAME_SIZE;
          local_initial_window = unwrap_or (co_initial_window_size options) 1048576;
          conn_recv_window = unwrap_or (co_connection_window_size options) 67108864;
          header_table_size = unwrap_or (co_header_table_size options) 4096;
          enable_push = unwrap_or (co_enable_push options) True;
          c = conn_new header_table_size local_max_frame_size;
          c = write_raw CONNECTION_PREFACE c;
          c = send_frame (SettingsF False (settings_default
                \<lparr>st_header_table_size := Some (word_of_nat header_table_size),
                 st_enable_push := Some enable_push,
                 st_initial_window_size := Some local_initial_window,
                 st_max_frame_size := Some (word_of_nat local_max_frame_size)\<rparr>)) c;
          grow = int (unat conn_recv_window) - SPEC_INITIAL_WINDOW
      in if 0 < grow then send_frame (WindowUpdate 0 (word_of_int grow)) c else c)"

subsection \<open>The driver\<close>

text \<open>
  The read loop, the write loop and the pumps, and the calls of the application, interleaved at
  their suspension points.  \<open>sy_written\<close> is what the transport has accepted and \<open>sy_pumps\<close> the
  registered pumps; a pump's task number is its position.  \<open>sy_reading\<close> says that the read loop
  has not ended, \<open>sy_driving\<close> that the write loop, and with it the driver, has not.
  \<open>sy_requests\<close> are the requests that wait for their response head, \<open>sy_bodies\<close> the response
  bodies in the hands of the application, each a stream id and the address of its cell.
\<close>

record system =
  sy_conn :: conn
  sy_pumps :: "(u32 \<times> pump) list"
  sy_written :: "bytes list"
  sy_reading :: bool
  sy_driving :: bool
  sy_requests :: "(u32 \<times> nat) list"
  sy_bodies :: "(u32 \<times> nat) list"

datatype event =
    EvRead time bytes
  | EvEof
  | EvWrite
  | EvWriteFailed
  | EvTasks
  | EvPump nat
  | EvRequest task request_init
  | EvHead nat
  | EvBodyPoll task nat
  | EvBodyDrop nat
  | EvPing time
  | EvClose

definition transport_closed :: h2error where
  "transport_closed = h2error_new NoError ''transport closed by peer''"

definition write_failed :: h2error where
  "write_failed = h2error_new InternalError ''transport write failed''"

definition read_chunk :: "nat \<Rightarrow> time \<Rightarrow> bytes \<Rightarrow> conn \<Rightarrow> bool h2result \<times> conn" where
  "read_chunk W now chunk c =
     (case (if chunk \<noteq> [] then on_bytes W now chunk c else (Ok (), c)) of
        (Ok _, c) \<Rightarrow> if cn_closed c then (Ok False, destroy transport_closed c) else (Ok True, c)
      | (Err e, c) \<Rightarrow> (Err e, c)
      | (Panic, c) \<Rightarrow> (Panic, c))"

definition remove_nth :: "nat \<Rightarrow> 'a list \<Rightarrow> 'a list" where
  "remove_nth i xs = take i xs @ drop (Suc i) xs"

text \<open>A step that does not apply in a state leaves the state as it is.\<close>

fun sys_step :: "nat \<Rightarrow> (string \<Rightarrow> string) \<Rightarrow> event \<Rightarrow> system \<Rightarrow> (unit, system) result" where
  "sys_step W up (EvRead now chunk) sy =
     (if sy_reading sy \<and> sy_driving sy then
        (case read_chunk W now chunk (sy_conn sy) of
           (Ok go, c) \<Rightarrow> Ok (sy\<lparr>sy_conn := c, sy_reading := go\<rparr>)
         | _ \<Rightarrow> Panic)
      else Ok sy)"
| "sys_step W up EvEof sy =
     (if sy_reading sy \<and> sy_driving sy
      then Ok (sy\<lparr>sy_conn := destroy transport_closed (sy_conn sy), sy_reading := False\<rparr>) else Ok sy)"
| "sys_step W up EvWrite sy =
     (if sy_driving sy then
        (case cn_outq (sy_conn sy) of
           m # ms \<Rightarrow> Ok (sy\<lparr>sy_conn := (sy_conn sy)\<lparr>cn_outq := ms\<rparr>, sy_written := sy_written sy @ [m]\<rparr>)
         | [] \<Rightarrow> if cn_out_tx (sy_conn sy) then Ok sy else Ok (sy\<lparr>sy_driving := False\<rparr>))
      else Ok sy)"
| "sys_step W up EvWriteFailed sy =
     (if sy_driving sy then
        (case cn_outq (sy_conn sy) of
           m # ms \<Rightarrow> Ok (sy\<lparr>sy_conn := destroy write_failed ((sy_conn sy)\<lparr>cn_outq := ms\<rparr>), sy_driving := False\<rparr>)
         | [] \<Rightarrow> Ok sy)
      else Ok sy)"
| "sys_step W up EvTasks sy =
     (if sy_driving sy
      then Ok (sy\<lparr>sy_conn := (sy_conn sy)\<lparr>cn_task_q := []\<rparr>,
                 sy_pumps := sy_pumps sy @ map (\<lambda>(sid, body). (sid, pump_start body)) (cn_task_q (sy_conn sy))\<rparr>)
      else Ok sy)"
| "sys_step W up (EvPump t) sy =
     (if sy_driving sy \<and> t < length (sy_pumps sy) then
        (case sy_pumps sy ! t of (sid, p) \<Rightarrow>
         case pump_step t sid p (sy_conn sy) of (p', parked, c) \<Rightarrow>
           Ok (sy\<lparr>sy_conn := c, sy_pumps := (sy_pumps sy)[t := (sid, p')]\<rparr>))
      else Ok sy)"
| "sys_step W up (EvRequest t init) sy =
     (case request up t init (sy_conn sy) of
        (ReqPanic, c) \<Rightarrow> Panic
      | (ReqOpened sid cell, c) \<Rightarrow> Ok (sy\<lparr>sy_conn := c, sy_requests := sy_requests sy @ [(sid, cell)]\<rparr>)
      | (_, c) \<Rightarrow> Ok (sy\<lparr>sy_conn := c\<rparr>))"
| "sys_step W up (EvHead i) sy =
     (if i < length (sy_requests sy) then
        (case request_finish (snd (sy_requests sy ! i)) (sy_conn sy) of
           Pending \<Rightarrow> Ok sy
         | Ready (Ok h) \<Rightarrow>
             Ok (sy\<lparr>sy_requests := remove_nth i (sy_requests sy), sy_bodies := sy_bodies sy @ [sy_requests sy ! i]\<rparr>)
         | Ready _ \<Rightarrow> Ok (sy\<lparr>sy_requests := remove_nth i (sy_requests sy)\<rparr>))
      else Ok sy)"
| "sys_step W up (EvBodyPoll t i) sy =
     (if i < length (sy_bodies sy) then
        (case sy_bodies sy ! i of (sid, cell) \<Rightarrow>
         case body_poll t sid cell (sy_conn sy) of
           Ok (_, c) \<Rightarrow> Ok (sy\<lparr>sy_conn := c\<rparr>)
         | _ \<Rightarrow> Panic)
      else Ok sy)"
| "sys_step W up (EvBodyDrop i) sy =
     (if i < length (sy_bodies sy) then
        (case sy_bodies sy ! i of (sid, cell) \<Rightarrow>
           Ok (sy\<lparr>sy_conn := body_drop sid cell (sy_conn sy), sy_bodies := remove_nth i (sy_bodies sy)\<rparr>))
      else Ok sy)"
| "sys_step W up (EvPing now) sy = Ok (sy\<lparr>sy_conn := snd (ping now (sy_conn sy))\<rparr>)"
| "sys_step W up EvClose sy = Ok (sy\<lparr>sy_conn := close (sy_conn sy)\<rparr>)"

definition sys_init :: "connect_options \<Rightarrow> system" where
  "sys_init options =
     \<lparr>sy_conn = connect options, sy_pumps = [], sy_written = [], sy_reading = True, sy_driving = True,
      sy_requests = [], sy_bodies = []\<rparr>"

inductive reachable :: "nat \<Rightarrow> (string \<Rightarrow> string) \<Rightarrow> connect_options \<Rightarrow> event list \<Rightarrow> system \<Rightarrow> bool"
  for W up options where
  reach_init: "reachable W up options [] (sys_init options)"
| reach_step: "reachable W up options evs sy \<Longrightarrow> sys_step W up ev sy = Ok sy' \<Longrightarrow>
    reachable W up options (evs @ [ev]) sy'"

end
