(* ===== verification/Connection_Inv.thy ===== *)
theory Connection_Inv
  imports Client
begin

text \<open>
  The invariant of a connection, and that every handler and every call of the client keeps it.
\<close>

subsection \<open>What the helpers leave alone\<close>

lemma wake_fields [simp]:
  "cn_out_tx (wake ts c) = cn_out_tx c" "cn_outq (wake ts c) = cn_outq c" "cn_task_q (wake ts c) = cn_task_q c"
  "cn_decoder (wake ts c) = cn_decoder c" "cn_frame_decoder (wake ts c) = cn_frame_decoder c"
  "cn_streams (wake ts c) = cn_streams c" "cn_next_stream_id (wake ts c) = cn_next_stream_id c"
  "cn_send_window (wake ts c) = cn_send_window c" "cn_remote (wake ts c) = cn_remote c"
  "cn_pending (wake ts c) = cn_pending c" "cn_pings (wake ts c) = cn_pings c"
  "cn_ping_counter (wake ts c) = cn_ping_counter c" "cn_slot_waiters (wake ts c) = cn_slot_waiters c"
  "cn_closed (wake ts c) = cn_closed c" "cn_close_error (wake ts c) = cn_close_error c"
  "cn_goaway_received (wake ts c) = cn_goaway_received c" "cn_highest_promised (wake ts c) = cn_highest_promised c"
  "cn_cells (wake ts c) = cn_cells c" "cn_ping_results (wake ts c) = cn_ping_results c"
  by (simp_all add: wake_def)

lemma set_cell_fields [simp]:
  "cn_out_tx (set_cell a cl c) = cn_out_tx c" "cn_outq (set_cell a cl c) = cn_outq c"
  "cn_task_q (set_cell a cl c) = cn_task_q c" "cn_decoder (set_cell a cl c) = cn_decoder c"
  "cn_frame_decoder (set_cell a cl c) = cn_frame_decoder c" "cn_streams (set_cell a cl c) = cn_streams c"
  "cn_next_stream_id (set_cell a cl c) = cn_next_stream_id c" "cn_send_window (set_cell a cl c) = cn_send_window c"
  "cn_remote (set_cell a cl c) = cn_remote c" "cn_pending (set_cell a cl c) = cn_pending c"
  "cn_pings (set_cell a cl c) = cn_pings c" "cn_ping_counter (set_cell a cl c) = cn_ping_counter c"
  "cn_slot_waiters (set_cell a cl c) = cn_slot_waiters c" "cn_closed (set_cell a cl c) = cn_closed c"
  "cn_close_error (set_cell a cl c) = cn_close_error c" "cn_goaway_received (set_cell a cl c) = cn_goaway_received c"
  "cn_highest_promised (set_cell a cl c) = cn_highest_promised c"
  "cn_ping_results (set_cell a cl c) = cn_ping_results c" "cn_woken (set_cell a cl c) = cn_woken c"
  by (simp_all add: set_cell_def)

lemma put_stream_fields [simp]:
  "cn_out_tx (put_stream sid s c) = cn_out_tx c" "cn_outq (put_stream sid s c) = cn_outq c"
  "cn_task_q (put_stream sid s c) = cn_task_q c" "cn_decoder (put_stream sid s c) = cn_decoder c"
  "cn_frame_decoder (put_stream sid s c) = cn_frame_decoder c"
  "cn_next_stream_id (put_stream sid s c) = cn_next_stream_id c"
  "cn_send_window (put_stream sid s c) = cn_send_window c" "cn_remote (put_stream sid s c) = cn_remote c"
  "cn_pending (put_stream sid s c) = cn_pending c" "cn_pings (put_stream sid s c) = cn_pings c"
  "cn_ping_counter (put_stream sid s c) = cn_ping_counter c"
  "cn_slot_waiters (put_stream sid s c) = cn_slot_waiters c" "cn_closed (put_stream sid s c) = cn_closed c"
  "cn_close_error (put_stream sid s c) = cn_close_error c"
  "cn_goaway_received (put_stream sid s c) = cn_goaway_received c"
  "cn_highest_promised (put_stream sid s c) = cn_highest_promised c" "cn_cells (put_stream sid s c) = cn_cells c"
  "cn_ping_results (put_stream sid s c) = cn_ping_results c" "cn_woken (put_stream sid s c) = cn_woken c"
  by (simp_all add: put_stream_def)

lemma delete_stream_fields [simp]:
  "cn_out_tx (delete_stream sid c) = cn_out_tx c" "cn_outq (delete_stream sid c) = cn_outq c"
  "cn_task_q (delete_stream sid c) = cn_task_q c" "cn_decoder (delete_stream sid c) = cn_decoder c"
  "cn_frame_decoder (delete_stream sid c) = cn_frame_decoder c"
  "cn_next_stream_id (delete_stream sid c) = cn_next_stream_id c"
  "cn_send_window (delete_stream sid c) = cn_send_window c" "cn_remote (delete_stream sid c) = cn_remote c"
  "cn_pending (delete_stream sid c) = cn_pending c" "cn_pings (delete_stream sid c) = cn_pings c"
  "cn_ping_counter (delete_stream sid c) = cn_ping_counter c"
  "cn_slot_waiters (delete_stream sid c) = cn_slot_waiters c" "cn_closed (delete_stream sid c) = cn_closed c"
  "cn_close_error (delete_stream sid c) = cn_close_error c"
  "cn_goaway_received (delete_stream sid c) = cn_goaway_received c"
  "cn_highest_promised (delete_stream sid c) = cn_highest_promised c" "cn_cells (delete_stream sid c) = cn_cells c"
  "cn_ping_results (delete_stream sid c) = cn_ping_results c" "cn_woken (delete_stream sid c) = cn_woken c"
  by (simp_all add: delete_stream_def)

lemma with_stream_fields [simp]:
  "cn_out_tx (with_stream sid f c) = cn_out_tx c" "cn_outq (with_stream sid f c) = cn_outq c"
  "cn_task_q (with_stream sid f c) = cn_task_q c" "cn_decoder (with_stream sid f c) = cn_decoder c"
  "cn_frame_decoder (with_stream sid f c) = cn_frame_decoder c"
  "cn_next_stream_id (with_stream sid f c) = cn_next_stream_id c"
  "cn_send_window (with_stream sid f c) = cn_send_window c" "cn_remote (with_stream sid f c) = cn_remote c"
  "cn_pending (with_stream sid f c) = cn_pending c" "cn_pings (with_stream sid f c) = cn_pings c"
  "cn_ping_counter (with_stream sid f c) = cn_ping_counter c"
  "cn_slot_waiters (with_stream sid f c) = cn_slot_waiters c" "cn_closed (with_stream sid f c) = cn_closed c"
  "cn_close_error (with_stream sid f c) = cn_close_error c"
  "cn_goaway_received (with_stream sid f c) = cn_goaway_received c"
  "cn_highest_promised (with_stream sid f c) = cn_highest_promised c"
  "cn_ping_results (with_stream sid f c) = cn_ping_results c"
  by (simp_all add: with_stream_def split: option.split prod.split)

lemma take_stream_fields [simp]:
  "cn_out_tx (take_stream sid f c) = cn_out_tx c" "cn_outq (take_stream sid f c) = cn_outq c"
  "cn_task_q (take_stream sid f c) = cn_task_q c" "cn_decoder (take_stream sid f c) = cn_decoder c"
  "cn_frame_decoder (take_stream sid f c) = cn_frame_decoder c"
  "cn_next_stream_id (take_stream sid f c) = cn_next_stream_id c"
  "cn_send_window (take_stream sid f c) = cn_send_window c" "cn_remote (take_stream sid f c) = cn_remote c"
  "cn_pending (take_stream sid f c) = cn_pending c" "cn_pings (take_stream sid f c) = cn_pings c"
  "cn_ping_counter (take_stream sid f c) = cn_ping_counter c"
  "cn_slot_waiters (take_stream sid f c) = cn_slot_waiters c" "cn_closed (take_stream sid f c) = cn_closed c"
  "cn_close_error (take_stream sid f c) = cn_close_error c"
  "cn_goaway_received (take_stream sid f c) = cn_goaway_received c"
  "cn_highest_promised (take_stream sid f c) = cn_highest_promised c"
  "cn_ping_results (take_stream sid f c) = cn_ping_results c"
  by (simp_all add: take_stream_def split: option.split prod.split)

lemma send_frame_fields [simp]:
  "cn_out_tx (send_frame f c) = cn_out_tx c" "cn_task_q (send_frame f c) = cn_task_q c"
  "cn_decoder (send_frame f c) = cn_decoder c" "cn_frame_decoder (send_frame f c) = cn_frame_decoder c"
  "cn_streams (send_frame f c) = cn_streams c" "cn_next_stream_id (send_frame f c) = cn_next_stream_id c"
  "cn_send_window (send_frame f c) = cn_send_window c" "cn_remote (send_frame f c) = cn_remote c"
  "cn_pending (send_frame f c) = cn_pending c" "cn_pings (send_frame f c) = cn_pings c"
  "cn_ping_counter (send_frame f c) = cn_ping_counter c" "cn_slot_waiters (send_frame f c) = cn_slot_waiters c"
  "cn_closed (send_frame f c) = cn_closed c" "cn_close_error (send_frame f c) = cn_close_error c"
  "cn_goaway_received (send_frame f c) = cn_goaway_received c"
  "cn_highest_promised (send_frame f c) = cn_highest_promised c" "cn_cells (send_frame f c) = cn_cells c"
  "cn_ping_results (send_frame f c) = cn_ping_results c" "cn_woken (send_frame f c) = cn_woken c"
  by (simp_all add: send_frame_def write_raw_def)

lemma write_raw_fields [simp]:
  "cn_out_tx (write_raw b c) = cn_out_tx c" "cn_task_q (write_raw b c) = cn_task_q c"
  "cn_decoder (write_raw b c) = cn_decoder c" "cn_frame_decoder (write_raw b c) = cn_frame_decoder c"
  "cn_streams (write_raw b c) = cn_streams c" "cn_next_stream_id (write_raw b c) = cn_next_stream_id c"
  "cn_send_window (write_raw b c) = cn_send_window c" "cn_remote (write_raw b c) = cn_remote c"
  "cn_pending (write_raw b c) = cn_pending c" "cn_pings (write_raw b c) = cn_pings c"
  "cn_ping_counter (write_raw b c) = cn_ping_counter c" "cn_slot_waiters (write_raw b c) = cn_slot_waiters c"
  "cn_closed (write_raw b c) = cn_closed c" "cn_close_error (write_raw b c) = cn_close_error c"
  "cn_goaway_received (write_raw b c) = cn_goaway_received c"
  "cn_highest_promised (write_raw b c) = cn_highest_promised c" "cn_cells (write_raw b c) = cn_cells c"
  "cn_ping_results (write_raw b c) = cn_ping_results c" "cn_woken (write_raw b c) = cn_woken c"
  by (simp_all add: write_raw_def)

lemma wake_slot_waiters_fields [simp]:
  "cn_out_tx (wake_slot_waiters c) = cn_out_tx c" "cn_outq (wake_slot_waiters c) = cn_outq c"
  "cn_task_q (wake_slot_waiters c) = cn_task_q c" "cn_decoder (wake_slot_waiters c) = cn_decoder c"
  "cn_frame_decoder (wake_slot_waiters c) = cn_frame_decoder c" "cn_streams (wake_slot_waiters c) = cn_streams c"
  "cn_next_stream_id (wake_slot_waiters c) = cn_next_stream_id c"
  "cn_send_window (wake_slot_waiters c) = cn_send_window c" "cn_remote (wake_slot_waiters c) = cn_remote c"
  "cn_pending (wake_slot_waiters c) = cn_pending c" "cn_pings (wake_slot_waiters c) = cn_pings c"
  "cn_ping_counter (wake_slot_waiters c) = cn_ping_counter c" "cn_closed (wake_slot_waiters c) = cn_closed c"
  "cn_close_error (wake_slot_waiters c) = cn_close_error c"
  "cn_goaway_received (wake_slot_waiters c) = cn_goaway_received c"
  "cn_highest_promised (wake_slot_waiters c) = cn_highest_promised c" "cn_cells (wake_slot_waiters c) = cn_cells c"
  "cn_ping_results (wake_slot_waiters c) = cn_ping_results c"
  by (simp_all add: wake_slot_waiters_def)

lemma close_conn_window_fields [simp]:
  "cn_out_tx (close_conn_window c) = cn_out_tx c" "cn_outq (close_conn_window c) = cn_outq c"
  "cn_task_q (close_conn_window c) = cn_task_q c" "cn_decoder (close_conn_window c) = cn_decoder c"
  "cn_frame_decoder (close_conn_window c) = cn_frame_decoder c" "cn_streams (close_conn_window c) = cn_streams c"
  "cn_next_stream_id (close_conn_window c) = cn_next_stream_id c" "cn_remote (close_conn_window c) = cn_remote c"
  "cn_pending (close_conn_window c) = cn_pending c" "cn_pings (close_conn_window c) = cn_pings c"
  "cn_ping_counter (close_conn_window c) = cn_ping_counter c"
  "cn_slot_waiters (close_conn_window c) = cn_slot_waiters c" "cn_closed (close_conn_window c) = cn_closed c"
  "cn_close_error (close_conn_window c) = cn_close_error c"
  "cn_goaway_received (close_conn_window c) = cn_goaway_received c"
  "cn_highest_promised (close_conn_window c) = cn_highest_promised c" "cn_cells (close_conn_window c) = cn_cells c"
  "cn_ping_results (close_conn_window c) = cn_ping_results c"
  by (simp_all add: close_conn_window_def split: prod.split)

lemma reset_stream_fields [simp]:
  "cn_out_tx (reset_stream sid code c) = cn_out_tx c" "cn_task_q (reset_stream sid code c) = cn_task_q c"
  "cn_decoder (reset_stream sid code c) = cn_decoder c"
  "cn_frame_decoder (reset_stream sid code c) = cn_frame_decoder c"
  "cn_next_stream_id (reset_stream sid code c) = cn_next_stream_id c"
  "cn_send_window (reset_stream sid code c) = cn_send_window c" "cn_remote (reset_stream sid code c) = cn_remote c"
  "cn_pending (reset_stream sid code c) = cn_pending c" "cn_pings (reset_stream sid code c) = cn_pings c"
  "cn_ping_counter (reset_stream sid code c) = cn_ping_counter c" "cn_closed (reset_stream sid code c) = cn_closed c"
  "cn_close_error (reset_stream sid code c) = cn_close_error c"
  "cn_goaway_received (reset_stream sid code c) = cn_goaway_received c"
  "cn_highest_promised (reset_stream sid code c) = cn_highest_promised c"
  "cn_ping_results (reset_stream sid code c) = cn_ping_results c"
  by (simp_all add: reset_stream_def)

lemma retire_fields [simp]:
  "cn_out_tx (retire_if_fully_closed sid c) = cn_out_tx c" "cn_outq (retire_if_fully_closed sid c) = cn_outq c"
  "cn_task_q (retire_if_fully_closed sid c) = cn_task_q c" "cn_decoder (retire_if_fully_closed sid c) = cn_decoder c"
  "cn_frame_decoder (retire_if_fully_closed sid c) = cn_frame_decoder c"
  "cn_next_stream_id (retire_if_fully_closed sid c) = cn_next_stream_id c"
  "cn_send_window (retire_if_fully_closed sid c) = cn_send_window c"
  "cn_remote (retire_if_fully_closed sid c) = cn_remote c" "cn_pending (retire_if_fully_closed sid c) = cn_pending c"
  "cn_pings (retire_if_fully_closed sid c) = cn_pings c"
  "cn_ping_counter (retire_if_fully_closed sid c) = cn_ping_counter c"
  "cn_closed (retire_if_fully_closed sid c) = cn_closed c"
  "cn_close_error (retire_if_fully_closed sid c) = cn_close_error c"
  "cn_goaway_received (retire_if_fully_closed sid c) = cn_goaway_received c"
  "cn_highest_promised (retire_if_fully_closed sid c) = cn_highest_promised c"
  "cn_ping_results (retire_if_fully_closed sid c) = cn_ping_results c"
  by (simp_all add: retire_if_fully_closed_def split: option.split)

lemma replenish_fields [simp]:
  "cn_out_tx (replenish_recv_window sid n c) = cn_out_tx c" "cn_task_q (replenish_recv_window sid n c) = cn_task_q c"
  "cn_decoder (replenish_recv_window sid n c) = cn_decoder c"
  "cn_frame_decoder (replenish_recv_window sid n c) = cn_frame_decoder c"
  "cn_streams (replenish_recv_window sid n c) = cn_streams c"
  "cn_next_stream_id (replenish_recv_window sid n c) = cn_next_stream_id c"
  "cn_send_window (replenish_recv_window sid n c) = cn_send_window c"
  "cn_remote (replenish_recv_window sid n c) = cn_remote c"
  "cn_pending (replenish_recv_window sid n c) = cn_pending c" "cn_pings (replenish_recv_window sid n c) = cn_pings c"
  "cn_ping_counter (replenish_recv_window sid n c) = cn_ping_counter c"
  "cn_slot_waiters (replenish_recv_window sid n c) = cn_slot_waiters c"
  "cn_closed (replenish_recv_window sid n c) = cn_closed c"
  "cn_close_error (replenish_recv_window sid n c) = cn_close_error c"
  "cn_goaway_received (replenish_recv_window sid n c) = cn_goaway_received c"
  "cn_highest_promised (replenish_recv_window sid n c) = cn_highest_promised c"
  "cn_cells (replenish_recv_window sid n c) = cn_cells c"
  "cn_ping_results (replenish_recv_window sid n c) = cn_ping_results c"
  "cn_woken (replenish_recv_window sid n c) = cn_woken c"
  by (simp_all add: replenish_recv_window_def Let_def)

lemma adjust_streams_fields [simp]:
  "cn_out_tx (adjust_streams delta c) = cn_out_tx c" "cn_outq (adjust_streams delta c) = cn_outq c"
  "cn_task_q (adjust_streams delta c) = cn_task_q c" "cn_decoder (adjust_streams delta c) = cn_decoder c"
  "cn_frame_decoder (adjust_streams delta c) = cn_frame_decoder c"
  "cn_next_stream_id (adjust_streams delta c) = cn_next_stream_id c"
  "cn_send_window (adjust_streams delta c) = cn_send_window c" "cn_remote (adjust_streams delta c) = cn_remote c"
  "cn_pending (adjust_streams delta c) = cn_pending c" "cn_pings (adjust_streams delta c) = cn_pings c"
  "cn_ping_counter (adjust_streams delta c) = cn_ping_counter c"
  "cn_slot_waiters (adjust_streams delta c) = cn_slot_waiters c" "cn_closed (adjust_streams delta c) = cn_closed c"
  "cn_close_error (adjust_streams delta c) = cn_close_error c"
  "cn_goaway_received (adjust_streams delta c) = cn_goaway_received c"
  "cn_highest_promised (adjust_streams delta c) = cn_highest_promised c"
  "cn_cells (adjust_streams delta c) = cn_cells c" "cn_ping_results (adjust_streams delta c) = cn_ping_results c"
  by (simp_all add: adjust_streams_def)

lemma set_remote_closed_fields [simp]:
  "cn_out_tx (set_remote_closed sid c) = cn_out_tx c" "cn_outq (set_remote_closed sid c) = cn_outq c"
  "cn_task_q (set_remote_closed sid c) = cn_task_q c" "cn_decoder (set_remote_closed sid c) = cn_decoder c"
  "cn_frame_decoder (set_remote_closed sid c) = cn_frame_decoder c"
  "cn_next_stream_id (set_remote_closed sid c) = cn_next_stream_id c"
  "cn_send_window (set_remote_closed sid c) = cn_send_window c" "cn_remote (set_remote_closed sid c) = cn_remote c"
  "cn_pending (set_remote_closed sid c) = cn_pending c" "cn_pings (set_remote_closed sid c) = cn_pings c"
  "cn_ping_counter (set_remote_closed sid c) = cn_ping_counter c"
  "cn_slot_waiters (set_remote_closed sid c) = cn_slot_waiters c" "cn_closed (set_remote_closed sid c) = cn_closed c"
  "cn_close_error (set_remote_closed sid c) = cn_close_error c"
  "cn_goaway_received (set_remote_closed sid c) = cn_goaway_received c"
  "cn_highest_promised (set_remote_closed sid c) = cn_highest_promised c"
  "cn_ping_results (set_remote_closed sid c) = cn_ping_results c"
  by (simp_all add: set_remote_closed_def)


lemma fail_streams_fields [simp]:
  "cn_closed (fail_streams sids e c) = cn_closed c" "cn_out_tx (fail_streams sids e c) = cn_out_tx c"
  "cn_outq (fail_streams sids e c) = cn_outq c" "cn_pending (fail_streams sids e c) = cn_pending c"
  "cn_decoder (fail_streams sids e c) = cn_decoder c" "cn_frame_decoder (fail_streams sids e c) = cn_frame_decoder c"
  "cn_send_window (fail_streams sids e c) = cn_send_window c" "cn_remote (fail_streams sids e c) = cn_remote c"
  "cn_pings (fail_streams sids e c) = cn_pings c" "cn_slot_waiters (fail_streams sids e c) = cn_slot_waiters c"
  "cn_goaway_received (fail_streams sids e c) = cn_goaway_received c"
  "cn_next_stream_id (fail_streams sids e c) = cn_next_stream_id c"
  "cn_ping_results (fail_streams sids e c) = cn_ping_results c"
  "cn_close_error (fail_streams sids e c) = cn_close_error c"
  "cn_task_q (fail_streams sids e c) = cn_task_q c"
  "cn_highest_promised (fail_streams sids e c) = cn_highest_promised c"
  by (induction sids e c rule: fail_streams.induct) simp_all

lemma fail_pings_fields [simp]:
  "cn_closed (fail_pings ws e c) = cn_closed c" "cn_out_tx (fail_pings ws e c) = cn_out_tx c"
  "cn_outq (fail_pings ws e c) = cn_outq c" "cn_pending (fail_pings ws e c) = cn_pending c"
  "cn_decoder (fail_pings ws e c) = cn_decoder c" "cn_frame_decoder (fail_pings ws e c) = cn_frame_decoder c"
  "cn_send_window (fail_pings ws e c) = cn_send_window c" "cn_remote (fail_pings ws e c) = cn_remote c"
  "cn_pings (fail_pings ws e c) = cn_pings c" "cn_slot_waiters (fail_pings ws e c) = cn_slot_waiters c"
  "cn_streams (fail_pings ws e c) = cn_streams c" "cn_cells (fail_pings ws e c) = cn_cells c"
  "cn_goaway_received (fail_pings ws e c) = cn_goaway_received c"
  "cn_next_stream_id (fail_pings ws e c) = cn_next_stream_id c"
  "cn_close_error (fail_pings ws e c) = cn_close_error c"
  "cn_task_q (fail_pings ws e c) = cn_task_q c"
  "length (cn_ping_results (fail_pings ws e c)) = length (cn_ping_results c)"
  "cn_highest_promised (fail_pings ws e c) = cn_highest_promised c"
  by (induction ws e c rule: fail_pings.induct) simp_all

text \<open>Everything the source sends through \<open>send_frame\<close> only extends the queue.\<close>

definition only_sends :: "conn \<Rightarrow> conn \<Rightarrow> bool" where
  "only_sends c c' \<longleftrightarrow> (\<exists>ms. c' = c\<lparr>cn_outq := cn_outq c @ ms\<rparr>) \<and> (cn_closed c \<longrightarrow> c' = c)"

lemma only_sends_refl [simp]: "only_sends c c"
  by (simp add: only_sends_def exI [of _ "[]"])

lemma only_sends_send_frame [simp]: "only_sends c (send_frame f c)"
  by (auto simp: only_sends_def send_frame_def write_raw_def intro: exI [of _ "[]"])

lemma only_sends_trans [trans]: "only_sends c c' \<Longrightarrow> only_sends c' c'' \<Longrightarrow> only_sends c c''"
  by (auto simp: only_sends_def)

lemma only_sends_continuations [simp]: "only_sends c (send_continuations sid block mx offset c)"
proof (induction sid block mx offset c rule: send_continuations.induct)
  case (1 sid block mx offset c)
  then show ?case
    by (subst send_continuations.simps) (auto simp: Let_def intro: only_sends_trans [OF only_sends_send_frame])
qed

lemma only_sends_headers [simp]: "only_sends c (send_headers sid block es c)"
  using only_sends_trans [OF only_sends_send_frame only_sends_continuations] by (simp add: send_headers_def Let_def)

lemma only_sends_fields:
  assumes "only_sends c c'"
  shows "cn_closed c' = cn_closed c" "cn_out_tx c' = cn_out_tx c" "cn_pending c' = cn_pending c"
    "cn_decoder c' = cn_decoder c" "cn_frame_decoder c' = cn_frame_decoder c" "cn_send_window c' = cn_send_window c"
    "cn_remote c' = cn_remote c" "cn_pings c' = cn_pings c" "cn_slot_waiters c' = cn_slot_waiters c"
    "cn_streams c' = cn_streams c" "cn_cells c' = cn_cells c" "cn_goaway_received c' = cn_goaway_received c"
    "cn_next_stream_id c' = cn_next_stream_id c" "cn_ping_results c' = cn_ping_results c" "cn_task_q c' = cn_task_q c"
    "cn_close_error c' = cn_close_error c" "cn_woken c' = cn_woken c" "cn_highest_promised c' = cn_highest_promised c"
    "cn_ping_counter c' = cn_ping_counter c"
  using assms by (auto simp: only_sends_def)

lemmas send_headers_fields [simp] = only_sends_fields [OF only_sends_headers]

subsection \<open>The invariant\<close>

definition stream_ok :: "nat \<Rightarrow> u32 \<times> stream_state \<Rightarrow> bool" where
  "stream_ok ncells x \<longleftrightarrow> ss_id (snd x) = fst x \<and> ss_cell (snd x) < ncells \<and> fst x mod 2 = 1
     \<and> sw_inv (ss_send_window (snd x)) \<and> (ss_head_tx (snd x) \<longrightarrow> \<not> ss_got_head (snd x))"

definition remote_ok :: "remote_settings \<Rightarrow> bool" where
  "remote_ok r \<longleftrightarrow> 16384 \<le> rm_max_frame_size r \<and> rm_max_frame_size r \<le> 16777215
     \<and> 0 \<le> rm_initial_window_size r \<and> rm_initial_window_size r \<le> 2 ^ 31 - 1"

definition streams_inv :: "(u32 \<times> stream_state) list \<Rightarrow> stream_cell list \<Rightarrow> bool" where
  "streams_inv ss cells \<longleftrightarrow> distinct (map fst ss) \<and> distinct (map (\<lambda>x. ss_cell (snd x)) ss)
     \<and> list_all (stream_ok (length cells)) ss \<and> list_all (\<lambda>cl. recv_inv (sc_recv cl)) cells"

definition block_sized :: "pending_header_block \<Rightarrow> bool" where
  "block_sized pb \<longleftrightarrow> pb_size pb = sum_list (map length (pb_fragments pb))"

definition conn_core :: "conn \<Rightarrow> bool" where
  "conn_core c \<longleftrightarrow> streams_inv (cn_streams c) (cn_cells c) \<and> sw_inv (cn_send_window c)
     \<and> 0 \<le> sw_available (cn_send_window c) \<and> table_inv (cn_decoder c) \<and> decoder_inv (cn_frame_decoder c)
     \<and> remote_ok (cn_remote c) \<and> cn_next_stream_id c mod 2 = 1 \<and> pred_option block_sized (cn_pending c)"

text \<open>A closed connection has nothing left: no stream, no parked request, no ping, no sender.\<close>

definition closed_ok :: "conn \<Rightarrow> bool" where
  "closed_ok c \<longleftrightarrow> (if cn_closed c then cn_streams c = [] \<and> cn_slot_waiters c = [] \<and> cn_pings c = [] \<and> \<not> cn_out_tx c
     else cn_out_tx c \<and> \<not> sw_closed (cn_send_window c))"

definition pending_ok :: "conn \<Rightarrow> bool" where
  "pending_ok c \<longleftrightarrow> cn_closed c \<or> pred_option (\<lambda>pb. pb_size pb \<le> MAX_HEADER_BLOCK_SIZE) (cn_pending c)"

definition conn_inv :: "conn \<Rightarrow> bool" where
  "conn_inv c \<longleftrightarrow> conn_core c \<and> closed_ok c \<and> pending_ok c"

subsection \<open>Methods on streams\<close>

definition method_ok :: "stream_method \<Rightarrow> bool" where
  "method_ok f \<longleftrightarrow> (\<forall>s cl s' cl' ts. f s cl = (s', cl', ts) \<longrightarrow> sw_inv (ss_send_window s) \<longrightarrow> recv_inv (sc_recv cl) \<longrightarrow>
     (ss_head_tx s \<longrightarrow> \<not> ss_got_head s) \<longrightarrow>
     ss_id s' = ss_id s \<and> ss_cell s' = ss_cell s \<and> sw_inv (ss_send_window s') \<and> recv_inv (sc_recv cl')
     \<and> (ss_head_tx s' \<longrightarrow> \<not> ss_got_head s'))"

lemma sw_inv_close [simp]: "sw_inv (fst (sw_close w))"
  by (rule sw_inv_ops)

lemma method_okI:
  assumes "\<And>s cl s' cl' ts. f s cl = (s', cl', ts) \<Longrightarrow> sw_inv (ss_send_window s) \<Longrightarrow> recv_inv (sc_recv cl) \<Longrightarrow>
     ss_head_tx s \<longrightarrow> \<not> ss_got_head s \<Longrightarrow>
     ss_id s' = ss_id s \<and> ss_cell s' = ss_cell s \<and> sw_inv (ss_send_window s') \<and> recv_inv (sc_recv cl')
     \<and> (ss_head_tx s' \<longrightarrow> \<not> ss_got_head s')"
  shows "method_ok f"
  unfolding method_ok_def using assms by blast

lemma fail_result:
  "fail err s cl = (s', cl', ts) \<Longrightarrow> ss_head_tx s \<longrightarrow> \<not> ss_got_head s \<Longrightarrow>
   ss_id s' = ss_id s \<and> ss_cell s' = ss_cell s \<and> ss_send_window s' = fst (sw_close (ss_send_window s)) \<and> \<not> ss_head_tx s'"
  by (auto simp: fail_def Let_def send_head_def split: if_splits prod.splits)

lemma method_ok_fail [simp]: "method_ok (fail err)"
  by (rule method_okI, frule (1) fail_result) (auto dest: recv_inv_fail)

lemma method_ok_reset [simp]: "method_ok (receive_reset code)"
  by (rule method_okI, unfold receive_reset_def Let_def, frule (1) fail_result) (auto dest: recv_inv_fail)

lemma receive_headers_result:
  "receive_headers raw e s cl = (s', cl', ts) \<Longrightarrow> ss_head_tx s \<longrightarrow> \<not> ss_got_head s \<Longrightarrow>
   ss_id s' = ss_id s \<and> ss_cell s' = ss_cell s \<and> ss_send_window s' = ss_send_window s
   \<and> (ss_head_tx s' \<longrightarrow> \<not> ss_got_head s')"
  by (auto simp: receive_headers_def Let_def send_head_def split: if_splits prod.splits)

lemma method_ok_receive_headers [simp]: "method_ok (receive_headers raw e)"
  by (rule method_okI) (auto dest: receive_headers_result recv_inv_receive_headers)

lemma method_ok_receive_data [simp]: "method_ok (receive_data d e)"
proof (rule method_okI)
  fix s cl s' cl' ts
  assume r: "receive_data d e s cl = (s', cl', ts)" and "sw_inv (ss_send_window s)" "recv_inv (sc_recv cl)"
    "ss_head_tx s \<longrightarrow> \<not> ss_got_head s"
  moreover have "s' = s" using r by (simp add: receive_data_def Let_def split: prod.splits)
  ultimately show "ss_id s' = ss_id s \<and> ss_cell s' = ss_cell s \<and> sw_inv (ss_send_window s') \<and> recv_inv (sc_recv cl')
      \<and> (ss_head_tx s' \<longrightarrow> \<not> ss_got_head s')"
    using recv_inv_receive_data [of cl d e s s' cl' ts] by simp
qed

lemma method_ok_simple [simp]:
  "method_ok (\<lambda>s cl. (s, cl, []))"
  "method_ok (\<lambda>s cl. (s\<lparr>ss_remote_closed := True\<rparr>, cl, []))"
  "method_ok (\<lambda>s cl. (s\<lparr>ss_local_closed := True\<rparr>, cl, []))"
  "0 \<le> n \<Longrightarrow> method_ok (consume_stream n)"
  "method_ok (update_stream_window n)"
  "method_ok (\<lambda>s cl. (if \<not> sw_is_ready (ss_send_window s)
      then s\<lparr>ss_send_window := sw_register_waker t (ss_send_window s)\<rparr> else s, cl, []))"
  by (rule method_okI; auto simp: consume_stream_def update_stream_window_def split: prod.splits if_splits
      dest!: arg_cong [where f = fst])+

subsection \<open>Preservation by the helpers\<close>

lemma streams_inv_update:
  assumes inv: "streams_inv ss cells" and s: "map_of ss sid = Some s"
    and s': "ss_id s' = ss_id s" "ss_cell s' = ss_cell s" "sw_inv (ss_send_window s')" "ss_head_tx s' \<longrightarrow> \<not> ss_got_head s'"
    and cl: "recv_inv (sc_recv cl)"
  shows "streams_inv (AList.update sid s' ss) (cells[ss_cell s := cl])"
proof -
  have mem: "(sid, s) \<in> set ss" using s by (rule map_of_SomeD)
  have dom: "sid \<in> fst ` set ss" using mem by force
  have upd: "AList.update sid s' ss = map (\<lambda>x. if fst x = sid then (sid, s') else x) ss"
  proof -
    have "distinct (map fst ss)" using inv by (simp add: streams_inv_def)
    then show ?thesis using dom
    proof (induction ss)
      case (Cons x xs)
      have "sid \<notin> fst ` set xs \<Longrightarrow> map (\<lambda>x. if fst x = sid then (sid, s') else x) xs = xs"
        by (rule map_idI) (auto simp: image_iff)
      then show ?case using Cons by (cases x) auto
    qed simp
  qed
  have uniq: "x \<in> set ss \<Longrightarrow> fst x = sid \<Longrightarrow> snd x = s" for x
    using inv mem by (cases x) (auto simp: streams_inv_def dest: eq_key_imp_eq_value)
  have "map (\<lambda>x. ss_cell (snd x)) (AList.update sid s' ss) = map (\<lambda>x. ss_cell (snd x)) ss"
    unfolding upd map_map by (rule map_cong) (auto simp: s' dest: uniq)
  moreover have "map fst (AList.update sid s' ss) = map fst ss" unfolding upd by (simp add: o_def cong: if_cong)
  moreover have "list_all (stream_ok (length cells)) (AList.update sid s' ss)"
    using inv mem s' unfolding upd by (auto simp: streams_inv_def list_all_iff stream_ok_def)
  moreover have "list_all (\<lambda>cl. recv_inv (sc_recv cl)) (cells[ss_cell s := cl])"
    using inv cl by (auto simp: streams_inv_def list_all_iff dest: set_update_subset_insert [THEN subsetD])
  ultimately show ?thesis using inv by (simp add: streams_inv_def)
qed

lemma streams_inv_delete:
  assumes "streams_inv ss cells" and "recv_inv (sc_recv cl)"
  shows "streams_inv (AList.delete sid ss) (cells[a := cl])"
proof -
  have "AList.delete sid ss = filter (\<lambda>x. sid \<noteq> fst x) ss" by (simp add: AList.delete_eq case_prod_unfold)
  then show ?thesis
    using assms by (auto simp: streams_inv_def list_all_iff distinct_map_filter
        dest: set_update_subset_insert [THEN subsetD])
qed

lemma streams_inv_get:
  assumes "streams_inv (cn_streams c) (cn_cells c)" and "get_stream sid c = Some s"
  shows "stream_ok (length (cn_cells c)) (sid, s)" and "recv_inv (sc_recv (cn_cells c ! ss_cell s))"
proof -
  have "(sid, s) \<in> set (cn_streams c)" using assms(2) by (simp add: get_stream_def map_of_SomeD)
  then show ok: "stream_ok (length (cn_cells c)) (sid, s)" using assms(1) by (auto simp: streams_inv_def list_all_iff)
  then have "ss_cell s < length (cn_cells c)" by (simp add: stream_ok_def)
  then show "recv_inv (sc_recv (cn_cells c ! ss_cell s))"
    using assms(1) by (simp add: streams_inv_def list_all_iff)
qed

lemma with_stream_streams_inv:
  assumes "streams_inv (cn_streams c) (cn_cells c)" and "method_ok f"
  shows "streams_inv (cn_streams (with_stream sid f c)) (cn_cells (with_stream sid f c))"
proof (cases "get_stream sid c")
  case (Some s)
  obtain s' cl' ts where f: "f s (cn_cells c ! ss_cell s) = (s', cl', ts)" by (metis prod_cases3)
  note ok = streams_inv_get [OF assms(1) Some]
  have "ss_id s' = ss_id s \<and> ss_cell s' = ss_cell s \<and> sw_inv (ss_send_window s') \<and> recv_inv (sc_recv cl')
      \<and> (ss_head_tx s' \<longrightarrow> \<not> ss_got_head s')"
    using assms(2) f ok unfolding method_ok_def stream_ok_def by (metis fst_conv snd_conv)
  then show ?thesis
    using streams_inv_update [OF assms(1), of sid s s' cl'] Some
    by (simp add: with_stream_def f put_stream_def set_cell_def get_stream_def wake_def)
qed (use assms in \<open>simp add: with_stream_def\<close>)

lemma take_stream_streams_inv:
  assumes "streams_inv (cn_streams c) (cn_cells c)" and "method_ok f"
  shows "streams_inv (cn_streams (take_stream sid f c)) (cn_cells (take_stream sid f c))"
proof (cases "get_stream sid c")
  case (Some s)
  obtain s' cl' ts where f: "f s (cn_cells c ! ss_cell s) = (s', cl', ts)" by (metis prod_cases3)
  note ok = streams_inv_get [OF assms(1) Some]
  have "recv_inv (sc_recv cl')"
    using assms(2) f ok unfolding method_ok_def stream_ok_def by (metis fst_conv snd_conv)
  then have "recv_inv (sc_recv (drop_stream s' cl'))" by (simp add: drop_stream_def)
  then show ?thesis
    using streams_inv_delete [OF assms(1)] Some
    by (simp add: take_stream_def f delete_stream_def set_cell_def wake_def)
qed (use assms in \<open>simp add: take_stream_def\<close>)

lemma take_stream_streams: "cn_streams (take_stream sid f c) = filter (\<lambda>x. sid \<noteq> fst x) (cn_streams c)"
proof (cases "get_stream sid c")
  case None
  then have "sid \<notin> fst ` set (cn_streams c)" by (simp add: get_stream_def map_of_eq_None_iff)
  then have "filter (\<lambda>x. sid \<noteq> fst x) (cn_streams c) = cn_streams c" by (auto simp: filter_id_conv)
  then show ?thesis using None by (simp add: take_stream_def)
next
  case (Some s)
  then show ?thesis
    by (simp add: take_stream_def delete_stream_def AList.delete_eq case_prod_unfold split: prod.split)
qed

lemma fail_streams_streams: "cn_streams (fail_streams sids e c) = filter (\<lambda>x. fst x \<notin> set sids) (cn_streams c)"
  by (induction sids e c rule: fail_streams.induct) (auto simp: take_stream_streams intro: filter_cong)

lemma no_streams_simps [simp]:
  "cn_streams c = [] \<Longrightarrow> with_stream sid f c = c" "cn_streams c = [] \<Longrightarrow> take_stream sid f c = c"
  by (simp_all add: with_stream_def take_stream_def get_stream_def)

lemma conn_core_cong:
  assumes "cn_streams c' = cn_streams c" "cn_cells c' = cn_cells c" "cn_send_window c' = cn_send_window c"
    "cn_decoder c' = cn_decoder c" "cn_frame_decoder c' = cn_frame_decoder c" "cn_remote c' = cn_remote c"
    "cn_next_stream_id c' = cn_next_stream_id c" "cn_pending c' = cn_pending c"
  shows "conn_core c' \<longleftrightarrow> conn_core c"
  using assms by (simp add: conn_core_def)

lemma conn_core_simps [simp]:
  "conn_core (send_frame f c) \<longleftrightarrow> conn_core c" "conn_core (wake ts c) \<longleftrightarrow> conn_core c"
  "conn_core (wake_slot_waiters c) \<longleftrightarrow> conn_core c" "conn_core (fail_pings ws e c) \<longleftrightarrow> conn_core c"
  "conn_core (send_headers sid b es c) \<longleftrightarrow> conn_core c" "conn_core (replenish_recv_window sid n c) \<longleftrightarrow> conn_core c"
  "conn_core (c\<lparr>cn_pings := ps\<rparr>) \<longleftrightarrow> conn_core c"
  "conn_core (c\<lparr>cn_slot_waiters := sws\<rparr>) \<longleftrightarrow> conn_core c" "conn_core (c\<lparr>cn_closed := b'\<rparr>) \<longleftrightarrow> conn_core c"
  "conn_core (c\<lparr>cn_close_error := ce\<rparr>) \<longleftrightarrow> conn_core c" "conn_core (c\<lparr>cn_out_tx := b'\<rparr>) \<longleftrightarrow> conn_core c"
  "conn_core (c\<lparr>cn_goaway_received := b'\<rparr>) \<longleftrightarrow> conn_core c" "conn_core (c\<lparr>cn_highest_promised := hp\<rparr>) \<longleftrightarrow> conn_core c"
  "conn_core (c\<lparr>cn_task_q := q\<rparr>) \<longleftrightarrow> conn_core c" "conn_core (c\<lparr>cn_outq := oq\<rparr>) \<longleftrightarrow> conn_core c"
  "conn_core (c\<lparr>cn_ping_results := pr\<rparr>) \<longleftrightarrow> conn_core c" "conn_core (c\<lparr>cn_ping_counter := pc\<rparr>) \<longleftrightarrow> conn_core c"
  by (rule conn_core_cong; simp)+

lemma conn_core_pending: "conn_core c \<Longrightarrow> pred_option block_sized p \<Longrightarrow> conn_core (c\<lparr>cn_pending := p\<rparr>)"
  by (simp add: conn_core_def)

lemma conn_core_streams [intro]:
  "conn_core c \<Longrightarrow> method_ok f \<Longrightarrow> conn_core (with_stream sid f c)"
  "conn_core c \<Longrightarrow> method_ok f \<Longrightarrow> conn_core (take_stream sid f c)"
  by (simp_all add: conn_core_def with_stream_streams_inv take_stream_streams_inv)

lemma conn_core_close_window [intro]: "conn_core c \<Longrightarrow> conn_core (close_conn_window c)"
proof -
  have "cn_send_window (close_conn_window c) = fst (sw_close (cn_send_window c))"
    by (simp add: close_conn_window_def split: prod.split)
  then show "conn_core c \<Longrightarrow> conn_core (close_conn_window c)" by (simp add: conn_core_def)
qed

lemma conn_core_fail_streams [intro]: "conn_core c \<Longrightarrow> conn_core (fail_streams sids e c)"
  by (induction sids e c rule: fail_streams.induct) (simp_all add: conn_core_streams)

lemma conn_core_reset [intro]: "conn_core c \<Longrightarrow> conn_core (reset_stream sid code c)"
  by (simp add: reset_stream_def conn_core_streams)

lemma conn_core_retire [intro]: "conn_core c \<Longrightarrow> conn_core (retire_if_fully_closed sid c)"
  by (simp add: retire_if_fully_closed_def conn_core_streams split: option.split)

lemma conn_core_remote_closed [intro]: "conn_core c \<Longrightarrow> conn_core (set_remote_closed sid c)"
  by (simp add: set_remote_closed_def conn_core_streams)

lemma conn_core_adjust [intro]: "conn_core c \<Longrightarrow> conn_core (adjust_streams delta c)"
proof -
  let ?f = "\<lambda>x. (fst x, (snd x)\<lparr>ss_send_window := fst (sw_adjust delta (ss_send_window (snd x)))\<rparr>)"
  have streams: "cn_streams (adjust_streams delta c) = map ?f (cn_streams c)"
    by (simp add: adjust_streams_def case_prod_unfold)
  have "list_all (stream_ok n) (map ?f ss)" if "list_all (stream_ok n) ss" for n ss
    using that by (auto simp: list_all_iff stream_ok_def)
  then have "streams_inv (map ?f ss) cells" if "streams_inv ss cells" for ss cells
    using that by (simp add: streams_inv_def o_def)
  then show "conn_core c \<Longrightarrow> conn_core (adjust_streams delta c)"
    unfolding conn_core_def streams by simp
qed

lemma conn_core_destroy [intro]: "conn_core c \<Longrightarrow> conn_core (destroy err c)"
  by (simp add: destroy_def Let_def conn_core_fail_streams conn_core_close_window)

lemma conn_core_error [intro]: "conn_core c \<Longrightarrow> conn_core (connection_error err c)"
  by (simp add: connection_error_def conn_core_destroy)

subsection \<open>Teardown\<close>

text \<open>
  \<open>quiet c c'\<close>: a step that neither closes nor reopens the connection and creates no stream, no
  parked request and no ping.
\<close>

definition quiet :: "conn \<Rightarrow> conn \<Rightarrow> bool" where
  "quiet c c' \<longleftrightarrow> cn_closed c' = cn_closed c \<and> cn_out_tx c' = cn_out_tx c
     \<and> sw_closed (cn_send_window c') = sw_closed (cn_send_window c)
     \<and> fst ` set (cn_streams c') \<subseteq> fst ` set (cn_streams c)
     \<and> set (cn_slot_waiters c') \<subseteq> set (cn_slot_waiters c)
     \<and> fst ` set (cn_pings c') \<subseteq> fst ` set (cn_pings c)"

lemma quiet_refl [simp]: "quiet c c"
  by (simp add: quiet_def)

lemma quiet_trans [trans]: "quiet c c' \<Longrightarrow> quiet c' c'' \<Longrightarrow> quiet c c''"
  unfolding quiet_def by (elim conjE, intro conjI) (simp, simp, simp, (rule subset_trans; assumption)+)

lemma quiet_closed_ok: "quiet c c' \<Longrightarrow> closed_ok c \<Longrightarrow> closed_ok c'"
  by (auto simp: quiet_def closed_ok_def)

lemma put_known_stream_keys: "get_stream sid c = Some s \<Longrightarrow> fst ` set (AList.update sid s' (cn_streams c)) = fst ` set (cn_streams c)"
proof -
  assume "get_stream sid c = Some s"
  then have "sid \<in> dom (map_of (cn_streams c))" by (auto simp: get_stream_def)
  then show ?thesis by (auto simp: dom_map_of_conv_image_fst AList.update_keys simp flip: set_map)
qed

lemma quiet_with_stream [intro]: "quiet c (with_stream sid f c)"
  using put_known_stream_keys [of sid c]
  by (simp add: quiet_def) (simp add: with_stream_def put_stream_def split: option.split prod.split)

lemma quiet_simps [intro]:
  "quiet c (take_stream sid f c)" "quiet c (send_frame fr c)" "quiet c (wake ts c)" "quiet c (wake_slot_waiters c)"
  "quiet c (send_headers sid b es c)" "quiet c (replenish_recv_window sid n c)"
  by (auto simp: quiet_def take_stream_streams wake_slot_waiters_def)

lemma quiet_reset [intro]: "quiet c (reset_stream sid code c)"
  unfolding reset_stream_def by (meson quiet_simps quiet_trans)

lemma quiet_retire [intro]: "quiet c (retire_if_fully_closed sid c)"
  using quiet_trans [OF quiet_simps(1) quiet_simps(4)]
  by (auto simp: retire_if_fully_closed_def split: option.split)

lemma quiet_remote_closed [intro]: "quiet c (set_remote_closed sid c)"
  by (auto simp: set_remote_closed_def)

lemma quiet_adjust [intro]: "quiet c (adjust_streams delta c)"
  by (simp add: quiet_def adjust_streams_def case_prod_unfold image_image)

lemma destroy_closed: "cn_closed (destroy err c)"
  by (simp add: destroy_def Let_def)

lemma closed_ok_destroy: "closed_ok c \<or> \<not> cn_closed c \<Longrightarrow> closed_ok (destroy err c)"
  by (auto simp: closed_ok_def destroy_def Let_def fail_streams_streams wake_slot_waiters_def
      close_conn_window_def split: prod.split)

lemma conn_inv_destroy:
  assumes "conn_core c" and "closed_ok c" shows "conn_inv (destroy err c)"
  using assms closed_ok_destroy destroy_closed by (auto simp: conn_inv_def pending_ok_def)

lemma conn_inv_error:
  assumes "conn_core c" and "closed_ok c" shows "conn_inv (connection_error err c)"
  unfolding connection_error_def
  using assms quiet_closed_ok [OF quiet_simps(2)] by (intro conn_inv_destroy) auto


subsection \<open>Preservation by the frame handlers\<close>

definition handled_ok :: "handled \<Rightarrow> bool" where
  "handled_ok m \<longleftrightarrow> fst m \<noteq> Panic \<and> conn_core (snd m) \<and> closed_ok (snd m) \<and> (fst m = Ok () \<longrightarrow> pending_ok (snd m))"

lemma handled_ok_Ok [simp]: "handled_ok (Ok (), c) \<longleftrightarrow> conn_inv c"
  by (auto simp: handled_ok_def conn_inv_def)

lemma handled_ok_Err [simp]: "handled_ok (Err e, c) \<longleftrightarrow> conn_core c \<and> closed_ok c"
  by (simp add: handled_ok_def)

lemma handled_ok_proto_err [simp]: "handled_ok (proto_err code m c) \<longleftrightarrow> conn_core c \<and> closed_ok c"
  by (simp add: handled_ok_def proto_err_def)

lemma handled_ok_and_then:
  "handled_ok m \<Longrightarrow> (\<And>c. m = (Ok (), c) \<Longrightarrow> conn_inv c \<Longrightarrow> handled_ok (f c)) \<Longrightarrow> handled_ok (and_then m f)"
  by (cases m; cases "fst m") (auto simp: and_then_def handled_ok_def conn_inv_def)

lemma conn_inv_quiet:
  "conn_inv c \<Longrightarrow> conn_core c' \<Longrightarrow> quiet c c' \<Longrightarrow> cn_pending c' = cn_pending c \<Longrightarrow> conn_inv c'"
  using quiet_closed_ok [of c c'] by (auto simp: conn_inv_def pending_ok_def quiet_def)

lemma conn_invD [dest]: "conn_inv c \<Longrightarrow> conn_core c" "conn_inv c \<Longrightarrow> closed_ok c"
  by (simp_all add: conn_inv_def)

lemma conn_inv_steps [simp]:
  "conn_inv c \<Longrightarrow> conn_inv (send_frame f c)"
  "conn_inv c \<Longrightarrow> conn_inv (wake ts c)"
  "conn_inv c \<Longrightarrow> conn_inv (wake_slot_waiters c)"
  "conn_inv c \<Longrightarrow> method_ok g \<Longrightarrow> conn_inv (with_stream sid g c)"
  "conn_inv c \<Longrightarrow> method_ok g \<Longrightarrow> conn_inv (take_stream sid g c)"
  "conn_inv c \<Longrightarrow> conn_inv (reset_stream sid code c)"
  "conn_inv c \<Longrightarrow> conn_inv (retire_if_fully_closed sid c)"
  "conn_inv c \<Longrightarrow> conn_inv (replenish_recv_window sid n c)"
  "conn_inv c \<Longrightarrow> conn_inv (set_remote_closed sid c)"
  "conn_inv c \<Longrightarrow> conn_inv (adjust_streams delta c)"
  "conn_inv c \<Longrightarrow> conn_inv (send_headers sid b es c)"
  by (rule conn_inv_quiet, assumption; auto)+

lemma conn_inv_fail_streams [simp]: "conn_inv c \<Longrightarrow> conn_inv (fail_streams sids e c)"
  by (induction sids e c rule: fail_streams.induct) auto

lemma conn_inv_destroy' [simp]: "conn_inv c \<Longrightarrow> conn_inv (destroy err c)"
  by (rule conn_inv_destroy) auto

lemma conn_inv_remote [simp]: "conn_inv c \<Longrightarrow> remote_ok r \<Longrightarrow> conn_inv (c\<lparr>cn_remote := r\<rparr>)"
  by (simp add: conn_inv_def conn_core_def closed_ok_def pending_ok_def)

lemma conn_inv_remote_ok: "conn_inv c \<Longrightarrow> remote_ok (cn_remote c)"
  by (simp add: conn_inv_def conn_core_def)

lemma on_data_inv [simp]: "conn_inv c \<Longrightarrow> conn_inv (on_data sid data es c)"
  by (auto simp: on_data_def Let_def)

lemma on_rst_stream_inv [simp]: "conn_inv c \<Longrightarrow> conn_inv (on_rst_stream sid code c)"
  by (auto simp: on_rst_stream_def)

lemma on_goaway_inv [simp]: "conn_inv c \<Longrightarrow> conn_inv (on_goaway lsid code c)"
proof -
  assume "conn_inv c"
  then have "conn_inv (c\<lparr>cn_goaway_received := True\<rparr>)"
    by (auto simp: conn_inv_def closed_ok_def pending_ok_def)
  then show ?thesis by (auto simp: on_goaway_def Let_def)
qed

lemma on_ping_inv [simp]: "conn_inv c \<Longrightarrow> conn_inv (on_ping now ack opaque c)"
proof -
  assume inv: "conn_inv c"
  let ?c = "\<lambda>w. c\<lparr>cn_pings := AList.delete opaque (cn_pings c),
    cn_ping_results := (cn_ping_results c)[pw_resolve w := Sent (Ok (now, pw_sent_at w))]\<rparr>"
  have "quiet c (?c w)" for w by (auto simp: quiet_def AList.delete_eq)
  moreover have "conn_core (?c w)" for w using inv by (auto simp: conn_inv_def)
  ultimately have "conn_inv (?c w)" for w by (intro conn_inv_quiet [OF inv]) simp_all
  then show ?thesis using inv by (auto simp: on_ping_def split: option.split)
qed

lemma on_window_update_inv: "conn_inv c \<Longrightarrow> handled_ok (on_window_update sid inc c)"
proof -
  assume inv: "conn_inv c"
  obtain w ts where w: "sw_update (int (unat inc)) (cn_send_window c) = (w, ts)" by fastforce
  have "sw_inv w" "sw_available w = sw_available (cn_send_window c) + int (unat inc)"
      "sw_closed w = sw_closed (cn_send_window c)"
    using w sw_inv_ops(1) [of "cn_send_window c" "int (unat inc)"] sw_available_ops(2) [of "int (unat inc)" "cn_send_window c"]
      sw_closed_ops(2) [of "int (unat inc)" "cn_send_window c"] inv
    by (auto simp: conn_inv_def conn_core_def)
  then have "conn_inv (c\<lparr>cn_send_window := w\<rparr>)"
    using inv by (auto simp: conn_inv_def conn_core_def closed_ok_def pending_ok_def)
  then show ?thesis using inv by (simp add: on_window_update_def w conn_invD del: of_nat_unat)
qed

lemma apply_initial_window_inv: "conn_inv c \<Longrightarrow> handled_ok (apply_initial_window iwo c)"
proof (cases iwo)
  case (Some iw)
  assume inv: "conn_inv c"
  have "int (unat iw) \<le> 2 ^ 31 - 1" if "\<not> iw > 0x7fffffff"
    using that by (simp add: word_less_nat_alt del: of_nat_unat)
  then have "remote_ok ((cn_remote c)\<lparr>rm_initial_window_size := int (unat iw)\<rparr>)" if "\<not> iw > 0x7fffffff"
    using that conn_inv_remote_ok [OF inv] by (simp add: remote_ok_def)
  then show ?thesis using inv Some by (simp add: apply_initial_window_def Let_def conn_invD del: of_nat_unat)
qed (simp add: apply_initial_window_def)

lemma apply_max_frame_size_inv: "conn_inv c \<Longrightarrow> handled_ok (apply_max_frame_size mfso c)"
proof (cases mfso)
  case (Some mfs)
  assume inv: "conn_inv c"
  have "remote_ok ((cn_remote c)\<lparr>rm_max_frame_size := unat mfs\<rparr>)" if "16384 \<le> mfs" "mfs \<le> 16777215"
    using that conn_inv_remote_ok [OF inv] by (simp add: remote_ok_def word_le_nat_alt)
  then show ?thesis using inv Some by (auto simp: apply_max_frame_size_def)
qed (simp add: apply_max_frame_size_def)

lemma remote_ok_other [simp]:
  "remote_ok (r\<lparr>rm_header_table_size := a\<rparr>) = remote_ok r" "remote_ok (r\<lparr>rm_enable_push := b\<rparr>) = remote_ok r"
  "remote_ok (r\<lparr>rm_max_concurrent_streams := d\<rparr>) = remote_ok r"
  by (simp_all add: remote_ok_def)

lemma apply_other_settings_inv: "conn_inv c \<Longrightarrow> conn_inv (apply_other_settings s c)"
  using conn_inv_remote_ok [of c]
  by (auto simp: apply_other_settings_def Let_def split: option.split)

lemma apply_remote_settings_inv: "conn_inv c \<Longrightarrow> handled_ok (apply_remote_settings s c)"
  unfolding apply_remote_settings_def
  by (intro handled_ok_and_then apply_initial_window_inv apply_max_frame_size_inv)
     (simp_all add: apply_other_settings_inv)

lemma deliver_headers_inv [simp]: "conn_inv c \<Longrightarrow> conn_inv (deliver_headers pb hs c)"
proof -
  assume inv: "conn_inv c"
  then have "conn_inv (c\<lparr>cn_highest_promised := hp\<rparr>)" for hp
    by (auto simp: conn_inv_def closed_ok_def pending_ok_def)
  then show ?thesis using inv by (auto simp: deliver_headers_def Let_def split: header_block_kind.split)
qed

lemma complete_header_block_inv:
  assumes "conn_core c" and "closed_ok c" and "cn_pending c = Some pb"
  shows "handled_ok (complete_header_block W c)"
proof -
  let ?c = "c\<lparr>cn_pending := None\<rparr>"
  let ?block = "if length (pb_fragments pb) = 1 then pb_fragments pb ! 0 else concat (pb_fragments pb)"
  obtain res d where d: "hpack_decode W ?block (cn_decoder c) = (res, d)" by fastforce
  have "table_inv (cn_decoder c)" using assms(1) by (simp add: conn_core_def)
  from decode_loop_safe [OF this d [unfolded hpack_decode_def]] have "res \<noteq> Panic \<and> table_inv d" by simp
  then have "conn_inv (?c\<lparr>cn_decoder := d\<rparr>)" and "res \<noteq> Panic"
    using assms by (auto simp: conn_inv_def conn_core_def closed_ok_def pending_ok_def)
  then show ?thesis
    using assms(3) d by (cases res) (auto simp: complete_header_block_def Let_def)
qed

lemma guard_then_complete_inv:
  assumes "conn_core c" and "closed_ok c" and "cn_pending c = Some pb"
  shows "handled_ok (guard_then_complete W eh c)"
  unfolding guard_then_complete_def
proof (rule handled_ok_and_then)
  show "handled_ok (guard_header_block_size c)"
    using assms by (auto simp: guard_header_block_size_def conn_inv_def pending_ok_def)
next
  fix c' assume "guard_header_block_size c = (Ok (), c')" and inv: "conn_inv c'"
  then have "c' = c" using assms(3) by (auto simp: guard_header_block_size_def proto_err_def split: if_splits)
  then show "handled_ok (if eh then complete_header_block W c' else (Ok (), c'))"
    using complete_header_block_inv [OF assms(1-3)] inv by simp
qed

lemma guard_set_pending:
  assumes "conn_inv c" and "block_sized pb"
  shows "handled_ok (guard_then_complete W eh (c\<lparr>cn_pending := Some pb\<rparr>))"
  by (rule guard_then_complete_inv) (use assms in \<open>auto simp: conn_core_pending conn_inv_def closed_ok_def\<close>)

lemma header_frames_inv:
  assumes "conn_inv c"
  shows "handled_ok (on_headers W sid frag es eh c)" "handled_ok (on_push_promise W sid prom frag eh c)"
  by (simp_all add: on_headers_def on_push_promise_def guard_set_pending [OF assms] block_sized_def)

lemma on_continuation_inv:
  assumes "conn_inv c"
  shows "handled_ok (on_continuation W sid frag eh c)"
proof (cases "cn_pending c")
  case (Some pb)
  then have "block_sized pb" using assms by (simp add: conn_inv_def conn_core_def)
  then show ?thesis
    using assms Some by (auto simp: on_continuation_def Let_def block_sized_def intro!: guard_set_pending)
qed (use assms in \<open>auto simp: on_continuation_def Let_def\<close>)

lemma handle_frame_inv: "conn_inv c \<Longrightarrow> handled_ok (handle_frame W now f c)"
  by (cases f) (auto simp: header_frames_inv on_continuation_inv on_window_update_inv
      intro!: handled_ok_and_then apply_remote_settings_inv)

lemma dispatch_inv: "conn_inv c \<Longrightarrow> handled_ok (dispatch W now f c)"
  by (auto simp: dispatch_def handle_frame_inv)

lemma dispatch_all_inv: "conn_inv c \<Longrightarrow> \<exists>c'. dispatch_all W now fs c = (Ok (), c') \<and> conn_inv c'"
proof (induction fs arbitrary: c)
  case (Cons f fs)
  obtain res c1 where d: "dispatch W now f c = (res, c1)" by fastforce
  have ok: "handled_ok (res, c1)" using dispatch_inv [OF Cons.prems, of W now f] d by simp
  show ?case
  proof (cases res)
    case (Ok u)
    then show ?thesis using ok Cons.IH [of c1] d by simp
  next
    case (Err e)
    then show ?thesis using ok conn_inv_error [of c1 e] d by (simp add: handled_ok_def)
  qed (use ok in \<open>simp add: handled_ok_def\<close>)
qed simp

lemma on_bytes_inv: "conn_inv c \<Longrightarrow> \<exists>c'. on_bytes W now chunk c = (Ok (), c') \<and> conn_inv c'"
proof -
  assume inv: "conn_inv c"
  show ?thesis
  proof (cases "fd_push chunk (cn_frame_decoder c)")
    case (Ok x)
    obtain fs d where x: "x = (fs, d)" by (cases x)
    then have "decoder_inv d" using fd_push_inv Ok by blast
    then have "conn_inv (c\<lparr>cn_frame_decoder := d\<rparr>)"
      using inv by (auto simp: conn_inv_def conn_core_def closed_ok_def pending_ok_def)
    then show ?thesis using dispatch_all_inv [of _ W now fs] Ok x by (simp add: on_bytes_def)
  next
    case (Err e)
    then show ?thesis using conn_inv_error [of c e] inv by (auto simp: on_bytes_def)
  next
    case Panic
    then show ?thesis by (simp add: fd_push_eq_spec push_spec_def rbind_Panic_iff)
  qed
qed

end
