(* ===== verification/Client_Inv.thy ===== *)
theory Client_Inv
  imports Connection_Inv
begin

text \<open>
  The calls of the client and the steps of the driver keep the invariant, so it holds in every
  reachable state of a connection, and no reachable state panics.
\<close>

subsection \<open>Addresses stay valid\<close>

lemma length_cells_streams [simp]:
  "length (cn_cells (with_stream sid f c)) = length (cn_cells c)"
  "length (cn_cells (take_stream sid f c)) = length (cn_cells c)"
  by (simp_all add: with_stream_def take_stream_def set_cell_def split: option.split prod.split)

lemma length_cells_fail_streams [simp]: "length (cn_cells (fail_streams sids e c)) = length (cn_cells c)"
  by (induction sids e c rule: fail_streams.induct) simp_all

lemma length_cells_ends [simp]:
  "length (cn_cells (reset_stream sid code c)) = length (cn_cells c)"
  "length (cn_cells (retire_if_fully_closed sid c)) = length (cn_cells c)"
  "length (cn_cells (set_remote_closed sid c)) = length (cn_cells c)"
  "length (cn_cells (destroy err c)) = length (cn_cells c)"
  "length (cn_cells (connection_error err c)) = length (cn_cells c)"
  by (simp_all add: reset_stream_def retire_if_fully_closed_def set_remote_closed_def destroy_def Let_def
      connection_error_def split: option.split)

lemma length_cells_handlers [simp]:
  "length (cn_cells (deliver_headers pb hs c)) = length (cn_cells c)"
  "length (cn_cells (on_data sid data es c)) = length (cn_cells c)"
  "length (cn_cells (on_rst_stream sid code c)) = length (cn_cells c)"
  "length (cn_cells (on_goaway lsid code c)) = length (cn_cells c)"
  "length (cn_cells (on_ping now ack opaque c)) = length (cn_cells c)"
  "length (cn_cells (apply_other_settings s c)) = length (cn_cells c)"
  by (simp_all add: deliver_headers_def on_data_def on_rst_stream_def on_goaway_def on_ping_def
      apply_other_settings_def Let_def split: header_block_kind.split option.split)

lemma length_cells_and_then:
  "length (cn_cells (snd m)) = n \<Longrightarrow> (\<And>c. length (cn_cells c) = n \<Longrightarrow> length (cn_cells (snd (f c))) = n)
   \<Longrightarrow> length (cn_cells (snd (and_then m f))) = n"
  by (cases m; cases "fst m") (auto simp: and_then_def)

lemma length_cells_settings [simp]:
  "length (cn_cells (snd (apply_remote_settings s c))) = length (cn_cells c)"
  unfolding apply_remote_settings_def
  by (intro length_cells_and_then)
     (auto simp: apply_initial_window_def apply_max_frame_size_def proto_err_def Let_def split: option.split)

lemma length_cells_complete [simp]: "length (cn_cells (snd (guard_then_complete W eh c))) = length (cn_cells c)"
  unfolding guard_then_complete_def
  by (rule length_cells_and_then)
     (auto simp: guard_header_block_size_def complete_header_block_def proto_err_def Let_def
      split: option.split prod.split result.split)

lemma length_cells_dispatch [simp]: "length (cn_cells (snd (dispatch W now f c))) = length (cn_cells c)"
proof (cases f)
  case (SettingsF ack s)
  have "length (cn_cells (snd (and_then (apply_remote_settings s c)
      (\<lambda>c. (Ok (), send_frame (SettingsF True settings_default) c))))) = length (cn_cells c)"
    by (rule length_cells_and_then) simp_all
  then show ?thesis using SettingsF by (simp add: dispatch_def proto_err_def)
qed (auto simp: dispatch_def proto_err_def on_headers_def on_push_promise_def on_continuation_def
      on_window_update_def Let_def split: option.split prod.split)

lemma length_cells_dispatch_all [simp]: "length (cn_cells (snd (dispatch_all W now fs c))) = length (cn_cells c)"
proof (induction fs arbitrary: c)
  case (Cons f fs)
  obtain res c1 where d: "dispatch W now f c = (res, c1)" by fastforce
  then have "length (cn_cells c1) = length (cn_cells c)" using length_cells_dispatch [of W now f c] by simp
  then show ?case using Cons.IH [of c1] by (cases res) (simp_all add: d)
qed simp

lemma length_cells_on_bytes [simp]: "length (cn_cells (snd (on_bytes W now chunk c))) = length (cn_cells c)"
  by (simp add: on_bytes_def split: result.split prod.split)

subsection \<open>Preservation by the calls of the client\<close>

lemma conn_inv_close [simp]: "conn_inv c \<Longrightarrow> conn_inv (close c)"
  by (simp add: close_def)

lemma ping_inv: "conn_inv c \<Longrightarrow> conn_inv (snd (ping now c))"
  by (auto simp: ping_def Let_def conn_inv_def closed_ok_def pending_ok_def split: option.split)

lemma streams_inv_cell:
  "streams_inv ss cells \<Longrightarrow> recv_inv (sc_recv cl) \<Longrightarrow> streams_inv ss (cells[a := cl])"
  by (auto simp: streams_inv_def list_all_iff dest: set_update_subset_insert [THEN subsetD])

lemma conn_inv_set_cell: "conn_inv c \<Longrightarrow> recv_inv (sc_recv cl) \<Longrightarrow> conn_inv (set_cell a cl c)"
  by (simp add: conn_inv_def conn_core_def closed_ok_def pending_ok_def set_cell_def streams_inv_cell)

lemma conn_inv_cell: "conn_inv c \<Longrightarrow> a < length (cn_cells c) \<Longrightarrow> recv_inv (sc_recv (cn_cells c ! a))"
  by (simp add: conn_inv_def conn_core_def streams_inv_def list_all_length)

lemma body_poll_inv:
  assumes "conn_inv c" and "cell < length (cn_cells c)"
  shows "\<exists>res c'. body_poll t sid cell c = Ok (res, c') \<and> conn_inv c' \<and> length (cn_cells c') = length (cn_cells c)"
proof -
  obtain res n r where "recv_poll t (sc_recv (cn_cells c ! cell)) = Ok (res, n, r)" "recv_inv r"
    using recv_poll_inv [OF conn_inv_cell [OF assms]] by blast
  then show ?thesis
    using assms conn_inv_set_cell [OF assms(1), of "(cn_cells c ! cell)\<lparr>sc_recv := r\<rparr>" cell]
    by (simp add: body_poll_def) (simp add: set_cell_def)
qed

lemma body_drop_inv [simp]: "conn_inv c \<Longrightarrow> conn_inv (body_drop sid cell c)"
  by (simp add: body_drop_def Let_def)

lemma length_cells_body_drop [simp]: "length (cn_cells (body_drop sid cell c)) = length (cn_cells c)"
  by (simp add: body_drop_def Let_def)

lemma streams_inv_insert:
  assumes "streams_inv ss cells" and "sid \<notin> fst ` set ss" and "stream_ok (Suc (length cells)) (sid, s)"
    and "ss_cell s = length cells" and "recv_inv (sc_recv cl)"
  shows "streams_inv (ss @ [(sid, s)]) (cells @ [cl])"
proof -
  have ok: "x \<in> set ss \<Longrightarrow> stream_ok (length cells) x" for x
    using assms(1) by (simp add: streams_inv_def list_all_iff)
  then have "length cells \<notin> (\<lambda>x. ss_cell (snd x)) ` set ss" by (fastforce simp: stream_ok_def)
  moreover have "x \<in> set ss \<Longrightarrow> stream_ok (Suc (length cells)) x" for x
    using ok [of x] by (simp add: stream_ok_def)
  ultimately show ?thesis using assms by (simp add: streams_inv_def list_all_iff)
qed

lemma odd_plus_2: "(x :: u32) mod 2 = 1 \<Longrightarrow> (x + 2) mod 2 = 1"
proof -
  assume "x mod 2 = 1"
  then have "odd x" by (simp add: odd_iff_mod_2_eq_one)
  then have "odd (x + 2)" by simp
  then show ?thesis by (simp only: odd_iff_mod_2_eq_one)
qed

lemma AList_update_new: "k \<notin> fst ` set xs \<Longrightarrow> AList.update k v xs = xs @ [(k, v)]"
  by (induction xs) auto

lemma insert_new_stream_inv:
  assumes inv: "conn_inv c" and opn: "\<not> cn_closed c" and s: "ss_id s = sid" "ss_cell s = length (cn_cells c)"
    "sw_inv (ss_send_window s)" "ss_head_tx s \<longrightarrow> \<not> ss_got_head s" and sid: "sid = cn_next_stream_id c"
  shows "conn_inv (insert_stream sid s (c\<lparr>cn_next_stream_id := sid + 2, cn_cells := cn_cells c @ [cell_default]\<rparr>))"
proof -
  let ?c = "c\<lparr>cn_next_stream_id := sid + 2, cn_cells := cn_cells c @ [cell_default]\<rparr>"
  let ?id = "\<lambda>s cl. (s, cl, [])"
  let ?t = "take_stream sid ?id c"
  have core: "conn_core c" using inv by auto
  have get: "get_stream sid ?c = get_stream sid c" by (simp add: get_stream_def)
  have cells: "cn_cells (take_stream sid ?id ?c) = cn_cells ?t @ [cell_default]"
  proof (cases "get_stream sid c")
    case (Some s')
    then have "ss_cell s' < length (cn_cells c)"
      using streams_inv_get(1) core by (fastforce simp: conn_core_def stream_ok_def)
    then show ?thesis using Some get
      by (simp add: take_stream_def set_cell_def delete_stream_def nth_append list_update_append1 wake_def)
  qed (simp add: take_stream_def get)
  have streams: "cn_streams (take_stream sid ?id ?c) = cn_streams ?t" by (simp add: take_stream_streams)
  have new: "sid \<notin> fst ` set (cn_streams ?t)" by (auto simp: take_stream_streams)
  have "streams_inv (cn_streams ?t) (cn_cells ?t)" using core by (simp add: conn_core_def take_stream_streams_inv)
  moreover have "sid mod 2 = 1" using core sid by (simp add: conn_core_def)
  ultimately have "streams_inv (cn_streams ?t @ [(sid, s)]) (cn_cells ?t @ [cell_default])"
    using s new by (intro streams_inv_insert) (simp_all add: stream_ok_def cell_default_def)
  then have "streams_inv (cn_streams (insert_stream sid s ?c)) (cn_cells (insert_stream sid s ?c))"
    using new by (simp add: insert_stream_def cells put_stream_def streams AList_update_new)
  moreover have "(sid + 2) mod 2 = 1" using \<open>sid mod 2 = 1\<close> by (rule odd_plus_2)
  ultimately have "conn_core (insert_stream sid s ?c)"
    using core by (simp add: conn_core_def) (simp add: insert_stream_def)
  then show ?thesis
    using inv opn by (simp add: conn_inv_def) (simp add: closed_ok_def pending_ok_def insert_stream_def)
qed

lemma open_request_inv:
  assumes "conn_inv c" and "open_request up init c = (out, c')"
  shows "conn_inv c' \<and> out \<noteq> ReqPanic \<and> length (cn_cells c) \<le> length (cn_cells c')
     \<and> (\<forall>sid cell. out = ReqOpened sid cell \<longrightarrow> sid = cn_next_stream_id c \<and> cell = length (cn_cells c)
          \<and> length (cn_cells c') = Suc cell)"
proof (cases "refuse_request c")
  case None
  then have opn: "\<not> cn_closed c" by (auto simp: refuse_request_def split: if_splits)
  let ?sid = "cn_next_stream_id c"
  let ?s = "(ss_new ?sid (rm_initial_window_size (cn_remote c)) (length (cn_cells c)))
    \<lparr>ss_head_tx := True, ss_local_closed := body_is_empty (ri_body init)\<rparr>"
  let ?c = "insert_stream ?sid ?s (c\<lparr>cn_next_stream_id := ?sid + 2, cn_cells := cn_cells c @ [cell_default]\<rparr>)"
  have inv: "conn_inv ?c" by (rule insert_new_stream_inv [OF assms(1) opn]) (simp_all add: ss_new_def)
  have len: "length (cn_cells ?c) = Suc (length (cn_cells c))" by (simp add: insert_stream_def)
  have task: "conn_inv (d\<lparr>cn_task_q := q\<rparr>) = conn_inv d" for d q
    by (simp add: conn_inv_def closed_ok_def pending_ok_def)
  show ?thesis
    using assms(2) None inv len by (auto simp: open_request_def hpack_encode_bytes Let_def task split: if_splits)
qed (use assms in \<open>auto simp: open_request_def\<close>)

lemma request_inv:
  assumes "conn_inv c" and "request up t init c = (out, c')"
  shows "conn_inv c' \<and> out \<noteq> ReqPanic \<and> length (cn_cells c) \<le> length (cn_cells c')
     \<and> (\<forall>sid cell. out = ReqOpened sid cell \<longrightarrow> sid = cn_next_stream_id c \<and> cell = length (cn_cells c)
          \<and> length (cn_cells c') = Suc cell)"
proof -
  have "conn_inv (c\<lparr>cn_slot_waiters := cn_slot_waiters c @ [t]\<rparr>)" if "\<not> cn_closed c"
    using assms(1) that by (auto simp: conn_inv_def closed_ok_def pending_ok_def)
  then show ?thesis
    using assms open_request_inv [OF assms(1)]
    by (fastforce simp: request_def refuse_request_def split: option.splits if_splits)
qed

subsection \<open>Preservation by the pumps\<close>

lemma conn_inv_send_window:
  "conn_inv c \<Longrightarrow> sw_inv w \<Longrightarrow> 0 \<le> sw_available w \<Longrightarrow> sw_closed w = sw_closed (cn_send_window c) \<Longrightarrow>
   conn_inv (c\<lparr>cn_send_window := w\<rparr>)"
  by (simp add: conn_inv_def conn_core_def closed_ok_def pending_ok_def)

lemma park_pump_inv [simp]: "conn_inv c \<Longrightarrow> conn_inv (park_pump t sid c)"
proof -
  assume inv: "conn_inv c"
  then have "conn_inv (c\<lparr>cn_send_window := sw_register_waker t (cn_send_window c)\<rparr>)" if "\<not> sw_is_ready (cn_send_window c)"
    using that by (intro conn_inv_send_window) (auto simp: conn_inv_def conn_core_def)
  then show ?thesis using inv unfolding park_pump_def Let_def by (intro conn_inv_steps(4)) auto
qed

lemma pump_finish_inv [simp]: "conn_inv c \<Longrightarrow> conn_inv (pump_finish sid c)"
  by (simp add: pump_finish_def)

lemma length_cells_pump [simp]:
  "length (cn_cells (park_pump t sid c)) = length (cn_cells c)"
  "length (cn_cells (pump_finish sid c)) = length (cn_cells c)"
  by (simp_all add: park_pump_def pump_finish_def Let_def)

lemma pump_step_inv:
  assumes "conn_inv c" and "pump_step t sid p c = (p', parked, c')"
  shows "conn_inv c' \<and> length (cn_cells c') = length (cn_cells c)"
  using assms
proof (cases "(t, sid, p, c)" rule: pump_step.cases)
  case (4 t' sid' chunk offset chunks c1)
  show ?thesis
  proof (cases "get_stream sid c")
    case (Some s)
    let ?g = "pump_grant chunk offset s c"
    let ?w = "sw_consume ?g (cn_send_window c)"
    have le: "?g \<le> sw_available (cn_send_window c)" by (simp add: pump_grant_def)
    have "conn_inv (c\<lparr>cn_send_window := ?w\<rparr>)" if "0 < ?g"
      using that le assms(1) by (intro conn_inv_send_window) (auto simp: conn_inv_def conn_core_def)
    then have "conn_inv (with_stream sid (consume_stream ?g) (c\<lparr>cn_send_window := ?w\<rparr>))" if "0 < ?g"
      using that by simp
    then show ?thesis
      using assms 4 Some by (auto simp: Let_def not_le split: if_splits)
  qed (use assms 4 in \<open>auto split: if_splits\<close>)
qed (auto split: if_splits)

subsection \<open>Reachable states\<close>

definition sys_inv :: "system \<Rightarrow> bool" where
  "sys_inv sy \<longleftrightarrow> conn_inv (sy_conn sy)
     \<and> (\<forall>x \<in> set (sy_requests sy) \<union> set (sy_bodies sy). snd x < length (cn_cells (sy_conn sy)))"

lemma sys_inv_conn:
  assumes "sys_inv sy" and "conn_inv c" and "length (cn_cells (sy_conn sy)) \<le> length (cn_cells c)"
  shows "sys_inv (sy\<lparr>sy_conn := c\<rparr>)"
  using assms by (auto simp: sys_inv_def intro: less_le_trans)

lemma conn_new_inv [simp]: "conn_inv (conn_new h m)"
  by (simp add: conn_new_def conn_inv_def conn_core_def closed_ok_def pending_ok_def streams_inv_def
      table_inv_def hpack_decoder_new_def remote_ok_def remote_settings_default_def DEFAULT_MAX_FRAME_SIZE_def
      SPEC_INITIAL_WINDOW_def)

lemma connect_inv: "conn_inv (connect options)"
proof -
  have "conn_inv c \<Longrightarrow> conn_inv (write_raw b c)" for b c
    by (simp add: conn_inv_def conn_core_def closed_ok_def pending_ok_def)
  then show ?thesis by (simp add: connect_def Let_def)
qed

lemma sys_init_inv: "sys_inv (sys_init options)"
  by (simp add: sys_init_def sys_inv_def connect_inv)

lemma read_chunk_inv:
  assumes "conn_inv c"
  shows "\<exists>go c'. read_chunk W now chunk c = (Ok go, c') \<and> conn_inv c' \<and> length (cn_cells c') = length (cn_cells c)"
proof -
  obtain c1 where c1: "on_bytes W now chunk c = (Ok (), c1)" "conn_inv c1"
    using on_bytes_inv [OF assms] by blast
  then have "length (cn_cells c1) = length (cn_cells c)" by (metis length_cells_on_bytes snd_conv)
  then show ?thesis using assms c1 by (auto simp: read_chunk_def)
qed

lemma remove_nth_subset: "set (remove_nth i xs) \<subseteq> set xs"
  by (auto simp: remove_nth_def dest: in_set_takeD in_set_dropD)

lemma sys_step_inv:
  assumes "sys_inv sy"
  shows "\<exists>sy'. sys_step W up ev sy = Ok sy' \<and> sys_inv sy'"
proof (cases ev)
  case (EvRead now chunk)
  have inv: "conn_inv (sy_conn sy)" using assms by (simp add: sys_inv_def)
  obtain go c' where "read_chunk W now chunk (sy_conn sy) = (Ok go, c')" "conn_inv c'"
      "length (cn_cells c') = length (cn_cells (sy_conn sy))"
    using read_chunk_inv [OF inv] by blast
  then show ?thesis using EvRead assms by (simp add: sys_inv_def)
next
  case (EvPump t)
  then show ?thesis
    using assms pump_step_inv [of "sy_conn sy"] by (auto simp: sys_inv_def split: prod.split)
next
  case (EvRequest t init)
  obtain out c' where r: "request up t init (sy_conn sy) = (out, c')" by fastforce
  have "conn_inv (sy_conn sy)" using assms by (simp add: sys_inv_def)
  from request_inv [OF this r] show ?thesis
    using assms EvRequest r by (cases out) (auto simp: sys_inv_def intro: less_le_trans)
next
  case (EvHead i)
  show ?thesis
  proof (cases "request_finish (snd (sy_requests sy ! i)) (sy_conn sy)")
    case (Ready r)
    then show ?thesis
      using assms EvHead remove_nth_subset [of i "sy_requests sy"] by (cases r) (auto simp: sys_inv_def)
  qed (use assms EvHead in simp)
next
  case (EvBodyPoll t i)
  have inv: "conn_inv (sy_conn sy)" using assms by (simp add: sys_inv_def)
  show ?thesis
  proof (cases "i < length (sy_bodies sy)")
    case True
    obtain sid cell where h: "sy_bodies sy ! i = (sid, cell)" by fastforce
    then have "cell < length (cn_cells (sy_conn sy))"
      using assms nth_mem [OF True] unfolding sys_inv_def by (metis UnI2 snd_conv)
    from body_poll_inv [OF inv this, of t sid] obtain res c' where "body_poll t sid cell (sy_conn sy) = Ok (res, c')"
        "conn_inv c'" "length (cn_cells c') = length (cn_cells (sy_conn sy))" by blast
    then show ?thesis using EvBodyPoll True h assms by (simp add: sys_inv_def)
  qed (use EvBodyPoll assms in simp)
next
  case (EvBodyDrop i)
  then show ?thesis
    using assms remove_nth_subset [of i "sy_bodies sy"] by (auto simp: sys_inv_def split: prod.split)
next
  case (EvPing now)
  have "length (cn_cells (snd (ping now (sy_conn sy)))) = length (cn_cells (sy_conn sy))"
    by (simp add: ping_def Let_def)
  then show ?thesis using EvPing assms ping_inv [of "sy_conn sy" now] by (auto simp: sys_inv_def)
next
  case EvClose
  have "length (cn_cells (close (sy_conn sy))) = length (cn_cells (sy_conn sy))" by (simp add: close_def)
  then show ?thesis using EvClose assms by (auto simp: sys_inv_def)
next
  case EvWrite
  have "conn_inv (c\<lparr>cn_outq := q\<rparr>) = conn_inv c" for c q by (simp add: conn_inv_def closed_ok_def pending_ok_def)
  then show ?thesis using EvWrite assms by (auto simp: sys_inv_def split: list.split)
next
  case EvWriteFailed
  have "conn_inv (c\<lparr>cn_outq := q\<rparr>) = conn_inv c" for c q by (simp add: conn_inv_def closed_ok_def pending_ok_def)
  then show ?thesis using EvWriteFailed assms by (auto simp: sys_inv_def split: list.split)
next
  case EvTasks
  have "conn_inv (c\<lparr>cn_task_q := q\<rparr>) = conn_inv c" for c q by (simp add: conn_inv_def closed_ok_def pending_ok_def)
  then show ?thesis using EvTasks assms by (simp add: sys_inv_def)
qed (use assms in \<open>auto simp: sys_inv_def\<close>)

lemma reachable_inv: "reachable W up options evs sy \<Longrightarrow> sys_inv sy"
proof (induction rule: reachable.induct)
  case reach_init
  then show ?case by (rule sys_init_inv)
next
  case (reach_step evs sy ev sy')
  then show ?case using sys_step_inv [of sy W up ev] by auto
qed

end
