(* ===== verification/Sending.thy ===== *)
theory Sending
  imports Client_Inv
begin

text \<open>
  What the connection puts on the wire: header blocks cut into frames, request bodies under
  flow control, and the ledger of the connection window over every run of the driver.
\<close>

subsection \<open>Header blocks\<close>

fun fragment :: "frame \<Rightarrow> bytes" where
  "fragment (Headers sid frag es eh p) = frag"
| "fragment (Continuation sid frag eh) = frag"
| "fragment _ = []"

fun ends_headers :: "frame \<Rightarrow> bool" where
  "ends_headers (Headers sid frag es eh p) = eh"
| "ends_headers (Continuation sid frag eh) = eh"
| "ends_headers _ = False"

definition is_open :: "conn \<Rightarrow> bool" where
  "is_open c \<longleftrightarrow> \<not> cn_closed c \<and> cn_out_tx c"

lemma send_frame_open: "is_open c \<Longrightarrow> send_frame f c = c\<lparr>cn_outq := cn_outq c @ [serialize_frame f]\<rparr>"
  by (simp add: is_open_def send_frame_def write_raw_def)

lemma is_open_send [simp]: "is_open (send_frame f c) \<longleftrightarrow> is_open c"
  by (simp add: is_open_def)

lemma is_open_outq [simp]: "is_open (c\<lparr>cn_outq := q\<rparr>) \<longleftrightarrow> is_open c"
  by (simp add: is_open_def)

lemma conn_inv_is_open: "conn_inv c \<Longrightarrow> is_open c \<longleftrightarrow> \<not> cn_closed c"
  by (auto simp: is_open_def conn_inv_def closed_ok_def)

text \<open>The frames of the loop over the rest of a block, as a list.\<close>

function continuation_frames :: "u32 \<Rightarrow> bytes \<Rightarrow> nat \<Rightarrow> frame list" where
  "continuation_frames sid rest mx =
     (if rest \<noteq> [] \<and> 0 < mx
      then Continuation sid (take mx rest) (length rest \<le> mx) # continuation_frames sid (drop mx rest) mx
      else [])"
  by pat_completeness auto
termination by (relation "measure (\<lambda>(sid, rest, mx). length rest)") auto

declare continuation_frames.simps [simp del]

lemma send_continuations_frames:
  "is_open c \<Longrightarrow> send_continuations sid block mx offset c =
     c\<lparr>cn_outq := cn_outq c @ map serialize_frame (continuation_frames sid (drop offset block) mx)\<rparr>"
proof (induction sid block mx offset c rule: send_continuations.induct)
  case (1 sid block mx offset c)
  show ?case
  proof (cases "offset < length block \<and> 0 < mx")
    case True
    let ?nxt = "min (offset + mx) (length block)"
    have "range_slice block offset ?nxt = take mx (drop offset block)"
      by (simp add: range_slice_def min_def)
    moreover have "drop ?nxt block = drop mx (drop offset block)"
      by (simp add: min_def add.commute)
    moreover have "(length block \<le> ?nxt) = (length (drop offset block) \<le> mx)" using True by auto
    ultimately show ?thesis
      using 1 True
      by (simp add: send_continuations.simps [of sid block mx offset c] continuation_frames.simps [of sid "drop offset block"]
          Let_def send_frame_open)
  next
    case False
    then show ?thesis
      by (auto simp: send_continuations.simps [of sid block mx offset c] continuation_frames.simps [of sid "drop offset block"])
  qed
qed

lemma continuation_frames_props:
  "0 < mx \<Longrightarrow> concat (map fragment (continuation_frames sid rest mx)) = rest
     \<and> (\<forall>f \<in> set (continuation_frames sid rest mx). length (fragment f) \<le> mx \<and> (\<exists>frag eh. f = Continuation sid frag eh))
     \<and> (rest \<noteq> [] \<longrightarrow> (\<exists>fs f. continuation_frames sid rest mx = fs @ [f] \<and> ends_headers f \<and> list_all (\<lambda>g. \<not> ends_headers g) fs))"
proof (induction sid rest mx rule: continuation_frames.induct)
  case (1 sid rest mx)
  show ?case
  proof (cases "rest = []")
    case False
    note IH = 1(1) [OF conjI [OF False 1(2)] 1(2)]
    have eq: "continuation_frames sid rest mx =
        Continuation sid (take mx rest) (length rest \<le> mx) # continuation_frames sid (drop mx rest) mx"
      using False 1(2) by (simp add: continuation_frames.simps [of sid rest])
    show ?thesis
    proof (cases "length rest \<le> mx")
      case True
      then have "continuation_frames sid (drop mx rest) mx = []" by (simp add: continuation_frames.simps)
      then show ?thesis using eq True False by auto
    next
      case no: False
      then have "drop mx rest \<noteq> []" by simp
      then obtain fs f where fs: "continuation_frames sid (drop mx rest) mx = fs @ [f]" "ends_headers f"
          "list_all (\<lambda>g. \<not> ends_headers g) fs"
        using IH by blast
      then have "continuation_frames sid rest mx = (Continuation sid (take mx rest) False # fs) @ [f]"
        using eq no by simp
      moreover have "list_all (\<lambda>g. \<not> ends_headers g) (Continuation sid (take mx rest) False # fs)" using fs(3) by simp
      ultimately show ?thesis using IH eq fs(2) by (metis (no_types, lifting) append_take_drop_id concat.simps(2)
          fragment.simps(2) length_take list.simps(9) min.cobounded2 set_ConsD)
    qed
  qed (simp add: continuation_frames.simps)
qed

definition header_frames :: "u32 \<Rightarrow> bytes \<Rightarrow> bool \<Rightarrow> nat \<Rightarrow> frame list" where
  "header_frames sid block es mx =
     (if length block \<le> mx then [Headers sid block es True None]
      else Headers sid (take mx block) es False None # continuation_frames sid (drop mx block) mx)"

lemma send_headers_frames:
  "is_open c \<Longrightarrow> send_headers sid block es c =
     c\<lparr>cn_outq := cn_outq c @ map serialize_frame (header_frames sid block es (rm_max_frame_size (cn_remote c)))\<rparr>"
  by (simp add: send_headers_def header_frames_def Let_def send_continuations_frames send_frame_open range_slice_def is_open_def)

text \<open>
  A header block is cut correctly.  On an open connection \<open>send_headers\<close> queues one HEADERS
  frame followed by CONTINUATION frames of the same stream; the fragments concatenate to the
  block, none is larger than the peer's maximum frame size, and END\_HEADERS is on the last frame
  only.
\<close>

theorem send_headers_splits_block:
  assumes "conn_inv c" and "\<not> cn_closed c"
  shows "\<exists>fs f. cn_outq (send_headers sid block es c) = cn_outq c @ map serialize_frame (fs @ [f])
    \<and> concat (map fragment (fs @ [f])) = block
    \<and> (\<forall>g \<in> set (fs @ [f]). length (fragment g) \<le> rm_max_frame_size (cn_remote c))
    \<and> ends_headers f \<and> list_all (\<lambda>g. \<not> ends_headers g) fs
    \<and> (\<exists>frag eh rest. fs @ [f] = Headers sid frag es eh None # rest
         \<and> (\<forall>g \<in> set rest. \<exists>frag eh. g = Continuation sid frag eh))"
proof -
  let ?mx = "rm_max_frame_size (cn_remote c)"
  let ?fs = "header_frames sid block es ?mx"
  have mx: "0 < ?mx" using conn_inv_remote_ok [OF assms(1)] by (simp add: remote_ok_def)
  have sent: "cn_outq (send_headers sid block es c) = cn_outq c @ map serialize_frame ?fs"
    using send_headers_frames [of c] assms conn_inv_is_open by simp
  show ?thesis
  proof (cases "length block \<le> ?mx")
    case True
    then have "?fs = [] @ [Headers sid block es True None]" by (simp add: header_frames_def)
    then show ?thesis using sent True by (intro exI [of _ "[]"] exI [of _ "Headers sid block es True None"]) auto
  next
    case False
    let ?cs = "continuation_frames sid (drop ?mx block) ?mx"
    note p = continuation_frames_props [OF mx, of sid "drop ?mx block"]
    obtain fs f where fs: "?cs = fs @ [f]" "ends_headers f" "list_all (\<lambda>g. \<not> ends_headers g) fs"
      using p False by fastforce
    let ?h = "Headers sid (take ?mx block) es False None"
    have eq: "?fs = (?h # fs) @ [f]" using False fs(1) by (simp add: header_frames_def)
    have "concat (map fragment ((?h # fs) @ [f])) = take ?mx block @ concat (map fragment ?cs)" by (simp add: fs(1))
    also have "\<dots> = block" using p by simp
    finally have cat: "concat (map fragment ((?h # fs) @ [f])) = block" .
    have "\<forall>g \<in> set ((?h # fs) @ [f]). length (fragment g) \<le> ?mx" using p by (auto simp: fs(1))
    moreover have "\<exists>frag eh rest. (?h # fs) @ [f] = Headers sid frag es eh None # rest
        \<and> (\<forall>g \<in> set rest. \<exists>frag eh. g = Continuation sid frag eh)"
      using p fs(1) by auto
    ultimately show ?thesis using sent eq cat fs(2,3)
      by (intro exI [of _ "?h # fs"] exI [of _ f]) simp
  qed
qed

theorem send_headers_splits_block_witness:
  "\<exists>fs f. cn_outq (send_headers 1 [7, 8] True (conn_new 4096 16384)) = map serialize_frame (fs @ [f])
     \<and> concat (map fragment (fs @ [f])) = [7, 8]"
proof -
  let ?c = "conn_new 4096 16384"
  have opn: "\<not> cn_closed ?c" and empty: "cn_outq ?c = []" by (simp_all add: conn_new_def)
  obtain fs f where "cn_outq (send_headers 1 [7, 8] True ?c) = cn_outq ?c @ map serialize_frame (fs @ [f])"
      "concat (map fragment (fs @ [f])) = [7, 8]"
    using send_headers_splits_block [OF conn_new_inv opn, of 1 "[7, 8]" True] by (elim exE conjE)
  then show ?thesis unfolding empty append_Nil by blast
qed

subsection \<open>Request bodies\<close>

lemma get_with_stream: "get_stream sid c = Some s \<Longrightarrow> f s (cn_cells c ! ss_cell s) = (s', cl', ts) \<Longrightarrow>
   get_stream sid (with_stream sid f c) = Some s'"
  by (simp add: with_stream_def get_stream_def put_stream_def AList.update_conv')

text \<open>The connection after a pump has sent a grant of \<open>g\<close> bytes.\<close>

definition pump_sent :: "u32 \<Rightarrow> bytes \<Rightarrow> int \<Rightarrow> conn \<Rightarrow> conn" where
  "pump_sent sid part g c = send_frame (Data sid part False)
     (with_stream sid (consume_stream g) (c\<lparr>cn_send_window := sw_consume g (cn_send_window c)\<rparr>))"

lemma pump_sent_effect:
  assumes "is_open c" "get_stream sid c = Some s"
  shows "cn_outq (pump_sent sid part g c) = cn_outq c @ [serialize_frame (Data sid part False)]"
    and "get_stream sid (pump_sent sid part g c) = Some (s\<lparr>ss_send_window := sw_consume g (ss_send_window s)\<rparr>)"
    and "cn_send_window (pump_sent sid part g c) = sw_consume g (cn_send_window c)"
    and "cn_closed (pump_sent sid part g c) = cn_closed c" and "cn_remote (pump_sent sid part g c) = cn_remote c"
proof -
  let ?d = "with_stream sid (consume_stream g) (c\<lparr>cn_send_window := sw_consume g (cn_send_window c)\<rparr>)"
  have "is_open ?d" using assms(1) by (simp add: is_open_def)
  then show "cn_outq (pump_sent sid part g c) = cn_outq c @ [serialize_frame (Data sid part False)]"
    by (simp add: pump_sent_def send_frame_open)
  have "get_stream sid (c\<lparr>cn_send_window := w\<rparr>) = Some s" for w using assms(2) by (simp add: get_stream_def)
  from get_with_stream [OF this] have "get_stream sid ?d = Some (s\<lparr>ss_send_window := sw_consume g (ss_send_window s)\<rparr>)"
    by (simp add: consume_stream_def)
  then show "get_stream sid (pump_sent sid part g c) = Some (s\<lparr>ss_send_window := sw_consume g (ss_send_window s)\<rparr>)"
    by (simp add: pump_sent_def get_stream_def)
qed (simp_all add: pump_sent_def)

text \<open>
  Flow control of one DATA frame.  Whenever a body pump makes progress it queues exactly one
  DATA frame with the next bytes of its chunk; the frame is not empty, fits the connection window,
  the stream window and the peer's maximum frame size, and both windows shrink by its length.
\<close>

theorem pump_respects_windows:
  assumes "conn_inv c" and "get_stream sid c = Some s"
    and "pump_step t sid (PumpChunk chunk offset chunks) c = (PumpChunk chunk offset' chunks, parked, c')"
    and "offset' \<noteq> offset"
  shows "offset < offset' \<and> offset' \<le> length chunk
    \<and> cn_outq c' = cn_outq c @ [serialize_frame (Data sid (range_slice chunk offset offset') False)]
    \<and> int (offset' - offset) \<le> sw_available (cn_send_window c)
    \<and> int (offset' - offset) \<le> sw_available (ss_send_window s)
    \<and> offset' - offset \<le> rm_max_frame_size (cn_remote c)
    \<and> sw_available (cn_send_window c') = sw_available (cn_send_window c) - int (offset' - offset)
    \<and> (\<exists>s'. get_stream sid c' = Some s'
         \<and> sw_available (ss_send_window s') = sw_available (ss_send_window s) - int (offset' - offset))"
proof -
  let ?g = "pump_grant chunk offset s c"
  have off: "offset < length chunk" and opn: "\<not> cn_closed c" and g: "0 < ?g" and o': "offset' = offset + nat ?g"
    and c': "c' = pump_sent sid (range_slice chunk offset offset') ?g c"
    using assms(2-4) by (auto simp: Let_def pump_sent_def split: if_splits)
  have "is_open c" using conn_inv_is_open [OF assms(1)] opn by simp
  note sent = pump_sent_effect [OF this assms(2), of "range_slice chunk offset offset'" ?g, folded c']
  have "?g \<le> int (length chunk - offset)" "?g \<le> sw_available (cn_send_window c)" "?g \<le> sw_available (ss_send_window s)"
      "?g \<le> int (rm_max_frame_size (cn_remote c))"
    by (simp_all add: pump_grant_def)
  then show ?thesis using off g o' sent by (simp add: nat_le_iff)
qed

definition sample_stream :: stream_state where
  "sample_stream = (ss_new 1 65535 0)\<lparr>ss_head_tx := True\<rparr>"

definition sample_conn :: conn where
  "sample_conn = (conn_new 4096 16384)\<lparr>cn_streams := [(1, sample_stream)], cn_cells := [cell_default], cn_next_stream_id := 3\<rparr>"

lemma sample_conn_inv [simp]: "conn_inv sample_conn"
proof -
  have "streams_inv [(1, sample_stream)] [cell_default]"
    by (simp add: streams_inv_def stream_ok_def sample_stream_def ss_new_def cell_default_def)
  moreover have "(3 :: u32) mod 2 = 1" by simp
  ultimately show ?thesis
    using conn_new_inv [of 4096 16384]
    by (simp add: sample_conn_def conn_inv_def conn_core_def) (simp add: closed_ok_def pending_ok_def conn_new_def)
qed

theorem pump_respects_windows_witness:
  "\<exists>c'. pump_step 0 1 (PumpChunk [1, 2, 3] 0 []) sample_conn = (PumpChunk [1, 2, 3] 3 [], False, c')
     \<and> sw_available (cn_send_window c') = 65532"
proof -
  obtain c' where step: "pump_step 0 1 (PumpChunk [1, 2, 3] 0 []) sample_conn = (PumpChunk [1, 2, 3] 3 [], False, c')"
    by (simp add: sample_conn_def conn_new_def get_stream_def sample_stream_def ss_new_def sw_defs pump_grant_def
        remote_settings_default_def DEFAULT_MAX_FRAME_SIZE_def SPEC_INITIAL_WINDOW_def Let_def)
  have "get_stream 1 sample_conn = Some sample_stream" by (simp add: sample_conn_def get_stream_def)
  from pump_respects_windows [OF sample_conn_inv this step] have "sw_available (cn_send_window c') = 65532"
    by (simp add: sample_conn_def conn_new_def SPEC_INITIAL_WINDOW_def)
  with step show ?thesis by blast
qed

text \<open>What a pump still has to send.\<close>

fun pump_rest :: "pump \<Rightarrow> bytes" where
  "pump_rest (PumpNext chunks) = concat chunks"
| "pump_rest (PumpChunk chunk offset chunks) = drop offset chunk @ concat chunks"
| "pump_rest PumpDone = []"

text \<open>
  The payload of the DATA frames a pump queues over a sequence of its iterations; between two
  iterations anything may happen to the connection, so each finds an arbitrary open one.
\<close>

definition sent_payload :: "conn \<Rightarrow> conn \<Rightarrow> bytes" where
  "sent_payload c c' = concat (map (drop FRAME_HEADER_SIZE) (drop (length (cn_outq c)) (cn_outq c')))"

fun pump_run :: "task \<Rightarrow> u32 \<Rightarrow> conn list \<Rightarrow> pump \<Rightarrow> bytes \<times> pump" where
  "pump_run t sid [] p = ([], p)"
| "pump_run t sid (c # cs) p =
     (case pump_step t sid p c of (p', _, c') \<Rightarrow>
      case pump_run t sid cs p' of (bs, p'') \<Rightarrow> (sent_payload c c' @ bs, p''))"

lemma outq_same_payload [simp]: "cn_outq c' = cn_outq c \<Longrightarrow> sent_payload c c' = []"
  by (simp add: sent_payload_def)

lemma serialize_data_payload: "drop FRAME_HEADER_SIZE (serialize_frame (Data sid d es)) = d"
  by (simp add: serialize_frame_bytes FRAME_HEADER_SIZE_def Let_def be32_def)

lemma outq_park [simp]: "cn_outq (park_pump t sid c) = cn_outq c"
  by (simp add: park_pump_def Let_def)

lemma pump_step_payload:
  assumes "pump_step t sid p c = (p', parked, c')" and "is_open c" and "p' \<noteq> PumpDone"
  shows "sent_payload c c' @ pump_rest p' = pump_rest p"
  using assms
proof (cases "(t, sid, p, c)" rule: pump_step.cases)
  case (4 t' sid' chunk offset chunks c1)
  show ?thesis
  proof (cases "get_stream sid c")
    case (Some s)
    let ?g = "pump_grant chunk offset s c"
    let ?d = "with_stream sid (consume_stream ?g) (c\<lparr>cn_send_window := sw_consume ?g (cn_send_window c)\<rparr>)"
    have "is_open ?d" using assms(2) by (simp add: is_open_def)
    then have out: "cn_outq (send_frame f ?d) = cn_outq c @ [serialize_frame f]" for f by (simp add: send_frame_open)
    have "nat ?g \<le> length chunk - offset" by (simp add: pump_grant_def)
    then have "range_slice chunk offset (offset + nat ?g) @ drop (offset + nat ?g) chunk = drop offset chunk"
      by (simp add: range_slice_def) (metis add.commute append_take_drop_id drop_drop)
    then show ?thesis
      using assms 4 Some out serialize_data_payload
      by (auto simp: Let_def sent_payload_def split: if_splits simp flip: append_assoc)
  qed (use assms 4 in \<open>auto split: if_splits\<close>)
qed (auto split: if_splits)

lemma pump_run_done: "fst (pump_run t sid cs PumpDone) = [] \<and> snd (pump_run t sid cs PumpDone) = PumpDone"
  by (induction cs) (auto split: prod.splits)

lemma pump_run_payload:
  "list_all is_open cs \<Longrightarrow> pump_run t sid cs p = (bs, p') \<Longrightarrow> p' \<noteq> PumpDone \<Longrightarrow> bs @ pump_rest p' = pump_rest p"
proof (induction cs arbitrary: p bs)
  case (Cons c cs)
  obtain p1 parked c1 where s: "pump_step t sid p c = (p1, parked, c1)" by (metis prod_cases3)
  obtain bs1 where r: "pump_run t sid cs p1 = (bs1, p')" "bs = sent_payload c c1 @ bs1"
    using Cons.prems(2) s by (auto split: prod.splits)
  have "p1 \<noteq> PumpDone" using pump_run_done [of t sid cs] r(1) Cons.prems(3) by auto
  then show ?case
    using pump_step_payload [OF s] Cons.IH [OF _ r(1)] Cons.prems r(2) by simp
qed simp

text \<open>
  C9. A request body arrives complete and in order.  However the iterations of a pump interleave
  with everything else that happens to the connection, when the pump comes to half-close the stream
  (no chunk is left) the payloads of the DATA frames it queued concatenate to the whole body.
\<close>

theorem pump_uploads_whole_body:
  assumes "list_all is_open cs" and "pump_run t sid cs (pump_start body) = (sent, PumpNext [])"
  shows "sent = (case body of EmptyBody \<Rightarrow> [] | BytesBody b \<Rightarrow> b | StreamBody chunks \<Rightarrow> concat chunks)"
proof -
  have "sent @ pump_rest (PumpNext []) = pump_rest (pump_start body)"
    by (rule pump_run_payload [OF assms]) simp
  then show ?thesis by (cases body) simp_all
qed

theorem pump_uploads_whole_body_witness:
  "pump_run 0 1 [sample_conn, sample_conn, sample_conn] (pump_start (BytesBody [1, 2, 3])) = ([1, 2, 3], PumpNext [])"
proof -
  have open3: "list_all is_open [sample_conn, sample_conn, sample_conn]"
    by (simp add: is_open_def sample_conn_def conn_new_def)
  obtain sent where run: "pump_run 0 1 [sample_conn, sample_conn, sample_conn] (pump_start (BytesBody [1, 2, 3])) = (sent, PumpNext [])"
    by (simp add: sample_conn_def conn_new_def get_stream_def sample_stream_def ss_new_def sw_defs pump_grant_def
        remote_settings_default_def DEFAULT_MAX_FRAME_SIZE_def SPEC_INITIAL_WINDOW_def Let_def)
  from pump_uploads_whole_body [OF open3 run] show ?thesis using run by simp
qed

end
