(* ===== verification/Ledger.thy ===== *)
theory Ledger
  imports Sending
begin

text \<open>
  The ledger of the connection-level send window over every run of the driver: what was sent
  and what is left of the window never exceeds what the peer granted.
\<close>

text \<open>The flow-controlled bytes of a queued message: the payload of a DATA frame.\<close>

definition flow_bytes :: "bytes \<Rightarrow> nat" where
  "flow_bytes m = (if 9 \<le> length m \<and> m ! 3 = 0 then length m - 9 else 0)"

definition total_flow :: "bytes list \<Rightarrow> nat" where
  "total_flow ms = sum_list (map flow_bytes ms)"

lemma total_flow_simps [simp]:
  "total_flow [] = 0" "total_flow (m # ms) = flow_bytes m + total_flow ms"
  "total_flow (xs @ ys) = total_flow xs + total_flow ys"
  by (simp_all add: total_flow_def)

fun is_data :: "frame \<Rightarrow> bool" where
  "is_data (Data sid d es) = True"
| "is_data _ = False"

lemma flow_bytes_data: "flow_bytes (serialize_frame (Data sid d es)) = length d"
  by (simp add: flow_bytes_def serialize_frame_bytes Let_def be32_def)

lemma flow_bytes_other: "\<not> is_data f \<Longrightarrow> flow_bytes (serialize_frame f) = 0"
  by (cases f) (simp_all add: flow_bytes_def serialize_frame_bytes Let_def split: option.split)

text \<open>The balance: the bytes in the queue plus what is left of the window.\<close>

definition balance :: "conn \<Rightarrow> int" where
  "balance c = int (total_flow (cn_outq c)) + sw_available (cn_send_window c)"

lemma total_flow_send [simp]: "\<not> is_data f \<Longrightarrow> total_flow (cn_outq (send_frame f c)) = total_flow (cn_outq c)"
  by (simp add: send_frame_def write_raw_def flow_bytes_other)

lemma balance_cong: "cn_outq c' = cn_outq c \<Longrightarrow> cn_send_window c' = cn_send_window c \<Longrightarrow> balance c' = balance c"
  by (simp add: balance_def)

lemma balance_basic [simp]:
  "\<not> is_data f \<Longrightarrow> balance (send_frame f c) = balance c" "balance (wake ts c) = balance c"
  "balance (with_stream sid g c) = balance c" "balance (take_stream sid g c) = balance c"
  "balance (wake_slot_waiters c) = balance c" "balance (fail_streams sids e c) = balance c"
  "balance (fail_pings ws e c) = balance c" "balance (adjust_streams delta c) = balance c"
  "balance (set_remote_closed sid c) = balance c" "balance (set_cell a cl c) = balance c"
  by (simp_all add: balance_def)

lemma balance_ends [simp]:
  "balance (reset_stream sid code c) = balance c" "balance (retire_if_fully_closed sid c) = balance c"
  "balance (replenish_recv_window sid n c) = balance c"
  by (simp_all add: reset_stream_def retire_if_fully_closed_def replenish_recv_window_def Let_def split: option.split)

lemma balance_fields [simp]:
  "balance (c\<lparr>cn_pending := p\<rparr>) = balance c" "balance (c\<lparr>cn_decoder := d\<rparr>) = balance c"
  "balance (c\<lparr>cn_frame_decoder := fd\<rparr>) = balance c" "balance (c\<lparr>cn_remote := r\<rparr>) = balance c"
  "balance (c\<lparr>cn_highest_promised := hp\<rparr>) = balance c" "balance (c\<lparr>cn_goaway_received := b\<rparr>) = balance c"
  "balance (c\<lparr>cn_pings := ps\<rparr>) = balance c" "balance (c\<lparr>cn_ping_results := pr\<rparr>) = balance c"
  "balance (c\<lparr>cn_ping_counter := pc\<rparr>) = balance c" "balance (c\<lparr>cn_slot_waiters := ws\<rparr>) = balance c"
  "balance (c\<lparr>cn_task_q := q\<rparr>) = balance c" "balance (c\<lparr>cn_out_tx := b\<rparr>) = balance c"
  "balance (c\<lparr>cn_closed := b\<rparr>) = balance c" "balance (c\<lparr>cn_close_error := ce\<rparr>) = balance c"
  "balance (c\<lparr>cn_cells := cs\<rparr>) = balance c" "balance (c\<lparr>cn_next_stream_id := nx\<rparr>) = balance c"
  "balance (c\<lparr>cn_streams := ss\<rparr>) = balance c"
  by (simp_all add: balance_def)

lemma balance_close_window [simp]: "balance (close_conn_window c) = balance c"
  by (simp add: balance_def close_conn_window_def sw_close_def sw_wake_def)

lemma balance_destroy [simp]: "balance (destroy err c) = balance c" "balance (connection_error err c) = balance c"
  by (simp_all add: destroy_def connection_error_def Let_def)

text \<open>What an inbound frame may add to the connection window.\<close>

fun credit :: "frame \<Rightarrow> int" where
  "credit (WindowUpdate sid inc) = (if sid = 0 then int (unat inc) else 0)"
| "credit _ = 0"

lemma credit_nonneg [simp]: "0 \<le> credit f"
  by (cases f) simp_all

lemma balance_and_then:
  "balance (snd m) = b \<Longrightarrow> (\<And>c. balance c = b \<Longrightarrow> balance (snd (f c)) = b) \<Longrightarrow> balance (snd (and_then m f)) = b"
  by (cases m; cases "fst m") (auto simp: and_then_def)

lemma balance_settings: "balance (snd (apply_remote_settings s c)) = balance c"
  unfolding apply_remote_settings_def
  by (intro balance_and_then)
     (auto simp: apply_initial_window_def apply_max_frame_size_def apply_other_settings_def proto_err_def Let_def
      split: option.split)

lemma balance_deliver [simp]: "balance (deliver_headers pb hs c) = balance c"
  by (simp add: deliver_headers_def Let_def split: header_block_kind.split)

lemma balance_complete [simp]: "balance (snd (guard_then_complete W eh c)) = balance c"
  unfolding guard_then_complete_def
  by (rule balance_and_then)
     (auto simp: guard_header_block_size_def complete_header_block_def proto_err_def Let_def
      split: option.split prod.split result.split)

lemma balance_handlers [simp]:
  "balance (on_data sid data es c) = balance c" "balance (on_rst_stream sid code c) = balance c"
  "balance (on_ping now ack opaque c) = balance c" "balance (on_goaway lsid code c) = balance c"
  by (simp_all add: on_data_def on_rst_stream_def on_ping_def on_goaway_def Let_def split: option.split)

lemma balance_window_update: "balance (snd (on_window_update sid inc c)) = balance c + credit (WindowUpdate sid inc)"
proof (cases "inc = 0 \<or> sid \<noteq> 0")
  case True
  then show ?thesis by (auto simp: on_window_update_def proto_err_def)
next
  case False
  obtain w ts where w: "sw_update (int (unat inc)) (cn_send_window c) = (w, ts)" by fastforce
  then have "sw_available w = sw_available (cn_send_window c) + int (unat inc)"
    using sw_available_ops(2) [of "int (unat inc)" "cn_send_window c"] by simp
  then show ?thesis using False w by (simp add: on_window_update_def balance_def del: of_nat_unat)
qed

lemma balance_dispatch: "balance (snd (dispatch W now f c)) \<le> balance c + credit f"
proof (cases f)
  case (SettingsF ack s)
  have "balance (snd (and_then (apply_remote_settings s c)
      (\<lambda>c. (Ok (), send_frame (SettingsF True settings_default) c)))) = balance c"
    by (rule balance_and_then) (simp_all add: balance_settings)
  then show ?thesis using SettingsF by (simp add: dispatch_def proto_err_def)
qed (auto simp: dispatch_def proto_err_def on_headers_def on_push_promise_def on_continuation_def
      balance_window_update Let_def simp del: of_nat_unat split: option.split)

lemma balance_dispatch_all: "balance (snd (dispatch_all W now fs c)) \<le> balance c + sum_list (map credit fs)"
proof (induction fs arbitrary: c)
  case (Cons f fs)
  obtain res c1 where d: "dispatch W now f c = (res, c1)" by fastforce
  then have "balance c1 \<le> balance c + credit f" using balance_dispatch [of W now f c] by simp
  moreover have "0 \<le> sum_list (map credit fs)" by (induction fs) simp_all
  ultimately show ?case using Cons.IH [of c1] by (cases res) (auto simp: d)
qed simp

text \<open>The credit that reading a chunk grants: that of the frames the chunk completes.\<close>

definition chunk_credit :: "bytes \<Rightarrow> conn \<Rightarrow> int" where
  "chunk_credit chunk c =
     (case fd_push chunk (cn_frame_decoder c) of Ok (fs, d) \<Rightarrow> sum_list (map credit fs) | _ \<Rightarrow> 0)"

lemma chunk_credit_nonneg: "0 \<le> chunk_credit chunk c"
proof -
  have "0 \<le> sum_list (map credit fs)" for fs by (induction fs) simp_all
  then show ?thesis by (simp add: chunk_credit_def split: result.split)
qed

lemma balance_on_bytes: "balance (snd (on_bytes W now chunk c)) \<le> balance c + chunk_credit chunk c"
proof (cases "fd_push chunk (cn_frame_decoder c)")
  case (Ok x)
  obtain fs d where "x = (fs, d)" by (cases x)
  then show ?thesis
    using Ok balance_dispatch_all [of W now fs "c\<lparr>cn_frame_decoder := d\<rparr>"] by (simp add: on_bytes_def chunk_credit_def)
qed (simp_all add: on_bytes_def chunk_credit_def)

lemma balance_read_chunk: "balance (snd (read_chunk W now chunk c)) \<le> balance c + chunk_credit chunk c"
proof (cases "chunk = []")
  case True
  then show ?thesis using chunk_credit_nonneg [of chunk c] by (simp add: read_chunk_def)
next
  case False
  obtain res c1 where "on_bytes W now chunk c = (res, c1)" by fastforce
  then show ?thesis using balance_on_bytes [of W now chunk c] False by (cases res) (simp_all add: read_chunk_def)
qed

subsection \<open>Calls and pumps\<close>

lemma total_flow_headers: "total_flow (cn_outq (send_headers sid b es c)) = total_flow (cn_outq c)"
proof -
  have "total_flow (cn_outq (send_continuations sid b mx off c)) = total_flow (cn_outq c)" for sid b mx off c
  proof (induction sid b mx off c rule: send_continuations.induct)
    case (1 sid b mx off c)
    then show ?case by (simp add: send_continuations.simps [of sid b mx off c] Let_def)
  qed
  then show ?thesis by (simp add: send_headers_def Let_def)
qed

lemma balance_send_headers [simp]: "balance (send_headers sid b es c) = balance c"
  by (simp add: balance_def total_flow_headers)

lemma balance_insert [simp]: "balance (insert_stream sid s c) = balance c"
  by (simp add: insert_stream_def put_stream_def)

lemma balance_request: "balance (snd (request up t init c)) = balance c"
  by (simp add: request_def open_request_def hpack_encode_bytes Let_def split: option.split)

lemma balance_calls [simp]:
  "balance (close c) = balance c" "balance (snd (ping now c)) = balance c" "balance (body_drop sid cell c) = balance c"
  by (simp_all add: close_def ping_def body_drop_def Let_def split: option.split)

lemma balance_body_poll: "body_poll t sid cell c = Ok (res, c') \<Longrightarrow> balance c' = balance c"
  by (auto simp: body_poll_def)

lemma balance_pump_finish [simp]: "balance (pump_finish sid c) = balance c"
proof -
  have "total_flow (cn_outq (send_frame (Data sid [] True) c)) = total_flow (cn_outq c)" for c
    by (simp add: send_frame_def write_raw_def flow_bytes_data)
  then have "balance (send_frame (Data sid [] True) c) = balance c" for c by (simp add: balance_def)
  then show ?thesis by (simp add: pump_finish_def)
qed

lemma balance_park [simp]: "balance (park_pump t sid c) = balance c"
  by (simp add: park_pump_def Let_def) (simp add: balance_def sw_register_waker_def)

lemma balance_pump_step:
  assumes "conn_inv c" and "pump_step t sid p c = (p', parked, c')"
  shows "balance c' = balance c"
  using assms
proof (cases "(t, sid, p, c)" rule: pump_step.cases)
  case (4 t' sid' chunk offset chunks c1)
  show ?thesis
  proof (cases "get_stream sid c")
    case (Some s)
    let ?g = "pump_grant chunk offset s c"
    let ?d = "with_stream sid (consume_stream ?g) (c\<lparr>cn_send_window := sw_consume ?g (cn_send_window c)\<rparr>)"
    let ?slice = "range_slice chunk offset (offset + nat ?g)"
    have "balance (send_frame (Data sid ?slice False) ?d) = balance c" if "\<not> cn_closed c" "0 < ?g"
    proof -
      have "is_open ?d" using that conn_inv_is_open [OF assms(1)] by (simp add: is_open_def)
      moreover have "length ?slice = nat ?g" by (simp add: range_slice_def pump_grant_def)
      ultimately show ?thesis using that by (simp add: balance_def send_frame_open flow_bytes_data sw_consume_def)
    qed
    then show ?thesis using assms 4 Some by (auto simp: Let_def not_le split: if_splits)
  qed (use assms 4 in \<open>auto split: if_splits\<close>)
qed (auto split: if_splits)

subsection \<open>Runs\<close>

text \<open>A run of the driver together with the credit the peer granted during it.\<close>

definition event_credit :: "event \<Rightarrow> system \<Rightarrow> int" where
  "event_credit ev sy = (case ev of EvRead now chunk \<Rightarrow> chunk_credit chunk (sy_conn sy) | _ \<Rightarrow> 0)"

inductive ledger_run :: "nat \<Rightarrow> (string \<Rightarrow> string) \<Rightarrow> connect_options \<Rightarrow> int \<Rightarrow> system \<Rightarrow> bool"
  for W up options where
  ledger_init: "ledger_run W up options 0 (sys_init options)"
| ledger_step: "ledger_run W up options g sy \<Longrightarrow> sys_step W up ev sy = Ok sy' \<Longrightarrow>
    ledger_run W up options (g + event_credit ev sy) sy'"

lemma ledger_run_inv: "ledger_run W up options g sy \<Longrightarrow> sys_inv sy"
proof (induction rule: ledger_run.induct)
  case ledger_init
  then show ?case by (rule sys_init_inv)
next
  case (ledger_step g sy ev sy')
  then show ?case using sys_step_inv [of sy W up ev] by auto
qed

definition sys_flow :: "system \<Rightarrow> int" where
  "sys_flow sy = int (total_flow (sy_written sy)) + balance (sy_conn sy)"

lemma event_credit_nonneg [simp]: "0 \<le> event_credit ev sy"
  by (cases ev) (simp_all add: event_credit_def chunk_credit_nonneg)

lemma sys_flow_step:
  assumes "sys_inv sy" and "sys_step W up ev sy = Ok sy'"
  shows "sys_flow sy' \<le> sys_flow sy + event_credit ev sy"
proof (cases ev)
  case (EvRead now chunk)
  have nonneg: "0 \<le> event_credit ev sy" by simp
  show ?thesis
  proof (cases "sy_reading sy \<and> sy_driving sy")
    case True
    obtain res c where r: "read_chunk W now chunk (sy_conn sy) = (res, c)" by fastforce
    then have "balance c \<le> balance (sy_conn sy) + chunk_credit chunk (sy_conn sy)"
      using balance_read_chunk [of W now chunk "sy_conn sy"] by simp
    then show ?thesis
      using assms(2) EvRead True r by (cases res) (auto simp: sys_flow_def event_credit_def)
  qed (use assms(2) EvRead nonneg in auto)
next
  case (EvPump t)
  have "conn_inv (sy_conn sy)" using assms(1) by (simp add: sys_inv_def)
  note b = balance_pump_step [OF this]
  show ?thesis
    using assms(2) EvPump by (auto simp: sys_flow_def dest: b split: prod.splits if_splits)
next
  case (EvRequest t init)
  obtain out c where r: "request up t init (sy_conn sy) = (out, c)" by fastforce
  then have "balance c = balance (sy_conn sy)" using balance_request [of up t init "sy_conn sy"] by simp
  then show ?thesis using assms(2) EvRequest r by (cases out) (auto simp: sys_flow_def event_credit_def)
next
  case (EvBodyPoll t i)
  then show ?thesis
    using assms(2) by (auto simp: sys_flow_def event_credit_def dest: balance_body_poll split: prod.splits if_splits result.splits)
next
  case (EvHead i)
  then show ?thesis
    using assms(2) by (auto simp: sys_flow_def event_credit_def split: if_splits poll.splits result.splits)
next
  case EvWrite
  then show ?thesis
    using assms(2) by (auto simp: sys_flow_def event_credit_def balance_def split: if_splits list.splits)
next
  case EvWriteFailed
  then show ?thesis
    using assms(2) by (auto simp: sys_flow_def event_credit_def split: if_splits list.splits) (simp add: balance_def)
qed (use assms(2) in \<open>auto simp: sys_flow_def event_credit_def split: if_splits prod.splits\<close>)

lemma connect_balance: "balance (connect options) = 65535"
proof -
  have "flow_bytes CONNECTION_PREFACE = 0"
    by (simp add: flow_bytes_def CONNECTION_PREFACE_def as_bytes_def)
  then have "balance (write_raw CONNECTION_PREFACE c) = balance c" for c
    by (simp add: balance_def write_raw_def)
  moreover have "balance (conn_new h m) = 65535" for h m
    by (simp add: balance_def conn_new_def SPEC_INITIAL_WINDOW_def)
  ultimately show ?thesis by (simp add: connect_def Let_def)
qed

text \<open>
  C8. Connection flow control over whole runs.  In every state the driver can reach, under any
  interleaving of reads, writes, requests, uploads, body reads and teardown, the payload bytes of all
  DATA frames written or queued are at most 65535 plus the connection-level WINDOW\_UPDATE credit
  the peer sent; the client never overruns the peer's connection window.
\<close>

theorem connection_window_never_overrun:
  assumes "ledger_run W up options g sy"
  shows "int (total_flow (sy_written sy) + total_flow (cn_outq (sy_conn sy))) \<le> 65535 + g"
proof -
  have "sys_flow sy \<le> 65535 + g"
    using assms
  proof (induction rule: ledger_run.induct)
    case ledger_init
    then show ?case by (simp add: sys_flow_def sys_init_def connect_balance)
  next
    case (ledger_step g sy ev sy')
    then show ?case using sys_flow_step [OF ledger_run_inv [OF ledger_step(1)] ledger_step(2)] by linarith
  qed
  moreover have "0 \<le> sw_available (cn_send_window (sy_conn sy))"
    using ledger_run_inv [OF assms] by (simp add: sys_inv_def conn_inv_def conn_core_def)
  ultimately show ?thesis by (simp add: sys_flow_def balance_def)
qed

definition no_options :: connect_options where
  "no_options = \<lparr>co_header_table_size = None, co_enable_push = None, co_initial_window_size = None,
     co_max_frame_size = None, co_connection_window_size = None\<rparr>"

theorem connection_window_never_overrun_witness:
  "\<exists>sy. ledger_run 64 (\<lambda>s. s) no_options 0 sy \<and> cn_closed (sy_conn sy)
     \<and> int (total_flow (sy_written sy) + total_flow (cn_outq (sy_conn sy))) \<le> 65535"
proof -
  let ?sy = "sys_init no_options"
  let ?sy' = "?sy\<lparr>sy_conn := close (sy_conn ?sy)\<rparr>"
  have "sys_step 64 (\<lambda>s. s) EvClose ?sy = Ok ?sy'" by simp
  from ledger_run.ledger_step [OF ledger_run.ledger_init this]
  have run: "ledger_run 64 (\<lambda>s. s) no_options 0 ?sy'" by (simp add: event_credit_def)
  have "cn_closed (close c)" for c by (simp add: close_def destroy_closed)
  then have "cn_closed (sy_conn ?sy')" by simp
  with run connection_window_never_overrun [OF run] show ?thesis by auto
qed

text \<open>
  C4. Nothing the peer, the network or the application does makes the client panic.  In every
  reachable state the invariant of the connection holds (unique stream ids and cells, buffered byte
  counts that match the buffers, a consistent header table, flow-control windows without forgotten
  wakers, nothing left open once closed), and every further event has a next state.
\<close>

theorem reachable_states_safe:
  assumes "reachable W up options evs sy"
  shows "conn_inv (sy_conn sy) \<and> (\<exists>sy'. sys_step W up ev sy = Ok sy')"
  using reachable_inv [OF assms] sys_step_inv [of sy W up ev] by (auto simp: sys_inv_def)

theorem reachable_states_safe_witness:
  "\<exists>sy'. sys_step 32 (\<lambda>s. s) (EvRead 0 [0, 0, 0, 4, 0, 0, 0, 0, 0, 1, 2]) (sys_init no_options) = Ok sy'"
  by (rule conjunct2 [OF reachable_states_safe [OF reachable.reach_init]])

text \<open>
  Memory for header blocks is bounded.  In every reachable open state the fragments of a
  header block that waits for CONTINUATION frames hold at most one mebibyte, however many
  CONTINUATION frames the peer sends.
\<close>

theorem pending_header_block_bounded:
  assumes "reachable W up options evs sy" and "\<not> cn_closed (sy_conn sy)" and "cn_pending (sy_conn sy) = Some pb"
  shows "sum_list (map length (pb_fragments pb)) \<le> 2 ^ 20"
  using reachable_inv [OF assms(1)] assms(2,3)
  by (simp add: sys_inv_def conn_inv_def conn_core_def pending_ok_def block_sized_def MAX_HEADER_BLOCK_SIZE_def)

theorem pending_header_block_bounded_witness:
  "\<exists>sy pb. reachable 64 (\<lambda>s. s) no_options [EvRead 0 [0, 0, 2, 1, 0, 0, 0, 0, 1, 7, 8]] sy
     \<and> cn_pending (sy_conn sy) = Some pb \<and> sum_list (map length (pb_fragments pb)) \<le> 2 ^ 20"
proof -
  let ?sy = "sys_init no_options" and ?ev = "EvRead 0 [0, 0, 2, 1, 0, 0, 0, 0, 1, 7, 8]"
  let ?pb = "\<lparr>pb_stream_id = 1, pb_kind = ResponseBlock, pb_end_stream = False,
    pb_promised_stream_id = None, pb_fragments = [[7, 8]], pb_size = 2\<rparr>"
  have fd: "cn_frame_decoder (sy_conn ?sy) = fd_new 16384"
      "cn_pending (sy_conn ?sy) = None" "\<not> cn_closed (sy_conn ?sy)"
    by (simp_all add: sys_init_def connect_def no_options_def unwrap_or_def conn_new_def DEFAULT_MAX_FRAME_SIZE_def Let_def)
  have "\<exists>d. fd_push [0, 0, 2, 1, 0, 0, 0, 0, 1, 7, 8] (fd_new 16384) = Ok ([Headers 1 [7, 8] False False None], d)"
  proof -
    have "wf_frame 16384 (Headers 1 [7, 8] False False None)"
      by (simp add: wf_frame_def payload_length_def)
    from parse_frames_serialize_all [of "[Headers 1 [7, 8] False False None]" 16384] this
    have "parse_frames 16384 (serialize_frame (Headers 1 [7, 8] False False None)) = Ok ([Headers 1 [7, 8] False False None], [])"
      by simp
    moreover have "serialize_frame (Headers 1 [7, 8] False False None) = [0, 0, 2, 1, 0, 0, 0, 0, 1, 7, 8]"
      by (simp add: serialize_frame_bytes be32_def mask31_def Let_def)
    ultimately show ?thesis by (simp add: fd_push_eq_spec push_spec_def fd_new_def)
  qed
  then obtain sy where sy: "sys_step 64 (\<lambda>s. s) ?ev ?sy = Ok sy" "cn_pending (sy_conn sy) = Some ?pb" "\<not> cn_closed (sy_conn sy)"
    using fd by (auto simp: sys_init_def read_chunk_def on_bytes_def dispatch_def on_headers_def guard_then_complete_def
        guard_header_block_size_def and_then_def MAX_HEADER_BLOCK_SIZE_def)
  have run: "reachable 64 (\<lambda>s. s) no_options ([] @ [?ev]) sy"
    by (rule reachable.reach_step [OF reachable.reach_init sy(1)])
  from pending_header_block_bounded [OF run sy(3,2)] run sy(2) show ?thesis by auto
qed

end
