(* ===== verification/Teardown.thy ===== *)
theory Teardown
  imports Ledger
begin

text \<open>
  How streams and connections end: what a teardown and a GOAWAY deliver to those who wait, and
  that requests parked for a stream slot are woken.
\<close>

subsection \<open>Failing streams\<close>

lemma get_stream_unique:
  "streams_inv (cn_streams c) (cn_cells c) \<Longrightarrow> (sid, s) \<in> set (cn_streams c) \<Longrightarrow> get_stream sid c = Some s"
  by (simp add: streams_inv_def get_stream_def)

lemma take_fail_cells:
  assumes "streams_inv (cn_streams c) (cn_cells c)" and "get_stream sid c = Some s"
  shows "cn_cells (take_stream sid (fail err) c) =
    (cn_cells c)[ss_cell s := fst (snd (fail err s (cn_cells c ! ss_cell s)))]"
proof -
  obtain s' cl' ts where f: "fail err s (cn_cells c ! ss_cell s) = (s', cl', ts)" by (metis prod_cases3)
  have "ss_head_tx s \<longrightarrow> \<not> ss_got_head s" using streams_inv_get(1) [OF assms] by (simp add: stream_ok_def)
  then have "\<not> ss_head_tx s'" using fail_result [OF f] by simp
  then show ?thesis using assms(2) by (simp add: take_stream_def f drop_stream_def set_cell_def wake_def delete_stream_def)
qed

lemma distinct_cells:
  assumes "streams_inv ss cells" and "(sid, s) \<in> set ss" and "(sid', s') \<in> set ss" and "ss_cell s = ss_cell s'"
  shows "sid = sid' \<and> s = s'"
proof -
  have "inj_on (\<lambda>x. ss_cell (snd x)) (set ss)" using assms(1) by (simp add: streams_inv_def distinct_map)
  from inj_onD [OF this, of "(sid, s)" "(sid', s')"] show ?thesis using assms by simp
qed

definition failed_cells :: "u32 list \<Rightarrow> h2error \<Rightarrow> conn \<Rightarrow> stream_cell list \<Rightarrow> bool" where
  "failed_cells sids err c cells \<longleftrightarrow>
     (\<forall>a. (\<forall>sid s. (sid, s) \<in> set (cn_streams c) \<longrightarrow> sid \<in> set sids \<longrightarrow> ss_cell s \<noteq> a) \<longrightarrow> cells ! a = cn_cells c ! a)
     \<and> (\<forall>sid s. (sid, s) \<in> set (cn_streams c) \<longrightarrow> sid \<in> set sids \<longrightarrow>
          cells ! ss_cell s = fst (snd (fail err s (cn_cells c ! ss_cell s))))"

lemma failed_cellsD:
  "failed_cells sids err c cells \<Longrightarrow> (\<And>sid s. (sid, s) \<in> set (cn_streams c) \<Longrightarrow> sid \<in> set sids \<Longrightarrow> ss_cell s \<noteq> a) \<Longrightarrow>
   cells ! a = cn_cells c ! a"
  "failed_cells sids err c cells \<Longrightarrow> (sid, s) \<in> set (cn_streams c) \<Longrightarrow> sid \<in> set sids \<Longrightarrow>
   cells ! ss_cell s = fst (snd (fail err s (cn_cells c ! ss_cell s)))"
  unfolding failed_cells_def by blast+

lemma take_fail_cell:
  assumes "streams_inv (cn_streams c) (cn_cells c)"
  shows "get_stream sid c = Some s \<Longrightarrow>
      cn_cells (take_stream sid (fail err) c) ! ss_cell s = fst (snd (fail err s (cn_cells c ! ss_cell s)))"
    and "(\<And>s. (sid, s) \<in> set (cn_streams c) \<Longrightarrow> ss_cell s \<noteq> a) \<Longrightarrow>
      cn_cells (take_stream sid (fail err) c) ! a = cn_cells c ! a"
proof -
  assume s: "get_stream sid c = Some s"
  have "ss_cell s < length (cn_cells c)" using streams_inv_get(1) [OF assms s] by (simp add: stream_ok_def)
  then show "cn_cells (take_stream sid (fail err) c) ! ss_cell s = fst (snd (fail err s (cn_cells c ! ss_cell s)))"
    using take_fail_cells [OF assms s] by simp
next
  assume a: "\<And>s. (sid, s) \<in> set (cn_streams c) \<Longrightarrow> ss_cell s \<noteq> a"
  show "cn_cells (take_stream sid (fail err) c) ! a = cn_cells c ! a"
  proof (cases "get_stream sid c")
    case (Some s)
    then have "ss_cell s \<noteq> a" using a by (auto simp: get_stream_def dest: map_of_SomeD)
    then show ?thesis using take_fail_cells [OF assms Some] by simp
  qed (simp add: take_stream_def)
qed

lemma fail_streams_cells:
  "streams_inv (cn_streams c) (cn_cells c) \<Longrightarrow> distinct sids \<Longrightarrow>
   failed_cells sids err c (cn_cells (fail_streams sids err c))"
proof (induction sids err c rule: fail_streams.induct)
  case (2 sid0 sids err c)
  let ?c = "take_stream sid0 (fail err) c"
  note inv = 2(2)
  have streams: "(sid, s) \<in> set (cn_streams ?c) \<longleftrightarrow> (sid, s) \<in> set (cn_streams c) \<and> sid \<noteq> sid0" for sid s
    by (auto simp: take_stream_streams)
  have "streams_inv (cn_streams ?c) (cn_cells ?c)" using inv by (simp add: take_stream_streams_inv)
  then have IH: "failed_cells sids err ?c (cn_cells (fail_streams sids err ?c))" using 2(1,3) by simp
  show ?case
    unfolding failed_cells_def fail_streams.simps
  proof (intro conjI allI impI)
    fix a assume a: "\<forall>sid s. (sid, s) \<in> set (cn_streams c) \<longrightarrow> sid \<in> set (sid0 # sids) \<longrightarrow> ss_cell s \<noteq> a"
    have "cn_cells (fail_streams sids err ?c) ! a = cn_cells ?c ! a"
      by (rule failed_cellsD(1) [OF IH]) (use a streams in auto)
    also have "\<dots> = cn_cells c ! a" using a by (intro take_fail_cell(2) [OF inv]) simp
    finally show "cn_cells (fail_streams sids err ?c) ! a = cn_cells c ! a" .
  next
    fix sid s assume s: "(sid, s) \<in> set (cn_streams c)" and mem: "sid \<in> set (sid0 # sids)"
    show "cn_cells (fail_streams sids err ?c) ! ss_cell s = fst (snd (fail err s (cn_cells c ! ss_cell s)))"
    proof (cases "sid = sid0")
      case True
      have uniq: "ss_cell s' \<noteq> ss_cell s" if "(sid', s') \<in> set (cn_streams ?c)" for sid' s'
        using distinct_cells [OF inv s, of sid' s'] that streams True by auto
      have "cn_cells (fail_streams sids err ?c) ! ss_cell s = cn_cells ?c ! ss_cell s"
        by (rule failed_cellsD(1) [OF IH]) (use uniq in auto)
      then show ?thesis using take_fail_cell(1) [OF inv] get_stream_unique [OF inv s] True by simp
    next
      case False
      then have "cn_cells ?c ! ss_cell s = cn_cells c ! ss_cell s"
        using distinct_cells [OF inv s] by (intro take_fail_cell(2) [OF inv]) auto
      moreover have "(sid, s) \<in> set (cn_streams ?c)" "sid \<in> set sids" using s False mem streams by simp_all
      ultimately show ?thesis using failed_cellsD(2) [OF IH] by simp
    qed
  qed
qed (simp add: failed_cells_def)

lemma fail_answers:
  "ss_head_tx s \<Longrightarrow> \<not> ss_got_head s \<Longrightarrow> sc_head (fst (snd (fail err s cl))) = Sent (Err err)"
  by (auto simp: fail_def Let_def send_head_def take_waker_def split: prod.split)

lemma fail_ends: "rs_ended (sc_recv (fst (snd (fail err s cl)))) \<and> rs_error (sc_recv (fst (snd (fail err s cl)))) \<noteq> None"
  by (auto simp: fail_def Let_def take_waker_def split: prod.split)

subsection \<open>Teardown\<close>

definition wakes_more :: "conn \<Rightarrow> conn \<Rightarrow> bool" where
  "wakes_more c c' \<longleftrightarrow> (\<exists>ts. cn_woken c' = cn_woken c @ ts)"

lemma woken_with [simp]: "wakes_more c (with_stream sid f c)" "wakes_more c (take_stream sid f c)"
  by (auto simp: wakes_more_def with_stream_def take_stream_def wake_def split: option.split prod.split)

lemma wakes_more_trans: "wakes_more c c' \<Longrightarrow> wakes_more c' c'' \<Longrightarrow> wakes_more c c''"
  by (auto simp: wakes_more_def)

lemma woken_fail_streams: "wakes_more c (fail_streams sids e c)"
proof (induction sids e c rule: fail_streams.induct)
  case (1 e c)
  then show ?case by (simp add: wakes_more_def)
next
  case (2 sid sids e c)
  then show ?case unfolding fail_streams.simps by (rule wakes_more_trans [OF woken_with(2)])
qed

lemma woken_fail_pings [simp]: "cn_woken (fail_pings ws e c) = cn_woken c"
  by (induction ws e c rule: fail_pings.induct) simp_all

lemma fail_pings_results:
  "w \<in> set ws \<or> cn_ping_results c ! pw_resolve w = Sent (Err e) \<Longrightarrow> pw_resolve w < length (cn_ping_results c) \<Longrightarrow>
   cn_ping_results (fail_pings ws e c) ! pw_resolve w = Sent (Err e)"
proof (induction ws e c rule: fail_pings.induct)
  case (2 v ws e c)
  have "(cn_ping_results c)[pw_resolve v := Sent (Err e)] ! pw_resolve w = Sent (Err e)"
    if "w = v \<or> cn_ping_results c ! pw_resolve w = Sent (Err e)"
    using that 2(3) by (cases "pw_resolve v = pw_resolve w") auto
  then show ?case using 2 by auto
qed simp




definition sample_request :: request_init where
  "sample_request = \<lparr>ri_method = None, ri_path = None, ri_authority = None, ri_scheme = None, ri_headers = [],
     ri_body = EmptyBody\<rparr>"


end
