(* ===== verification/Conn_Steps.thy ===== *)
theory Conn_Steps
  imports Client_Inv
begin

text \<open>
  Relations between the connection before and after a step.  A relation that holds for the
  building blocks of the frame handlers, and composes, holds for the handling of a whole chunk of
  input; the locale carries the argument through \<open>complete_header_block\<close>, \<open>dispatch\<close> and
  \<open>on_bytes\<close> once, for every relation of the later theories.

  The relation is indexed by an amount that adds up along the frames (the bytes a frame brings),
  and restricted to the frames a theory admits.
\<close>

fun is_grant :: "frame \<Rightarrow> bool" where
  "is_grant (WindowUpdate sid inc) = (mask31 sid = 0)"
| "is_grant _ = False"

text \<open>The frames the handlers send, apart from window updates.\<close>

fun is_control :: "frame \<Rightarrow> bool" where
  "is_control (SettingsF ack s) = True"
| "is_control (Ping ack opaque) = True"
| "is_control (Goaway lsid rc d) = True"
| "is_control (RstStream sid rc) = True"
| "is_control _ = False"

lemma control_not_grant [simp]: "is_control f \<Longrightarrow> \<not> is_grant f"
  by (cases f) simp_all

text \<open>A step that touches neither the queue, the streams and cells, nor what parked requests see.\<close>

definition internal :: "conn \<Rightarrow> conn \<Rightarrow> bool" where
  "internal c c' \<longleftrightarrow> cn_out_tx c' = cn_out_tx c \<and> cn_outq c' = cn_outq c \<and> cn_streams c' = cn_streams c
     \<and> cn_remote c' = cn_remote c \<and> cn_slot_waiters c' = cn_slot_waiters c \<and> cn_closed c' = cn_closed c
     \<and> cn_close_error c' = cn_close_error c \<and> cn_goaway_received c' = cn_goaway_received c \<and> cn_cells c' = cn_cells c
     \<and> cn_next_stream_id c' = cn_next_stream_id c
     \<and> (\<exists>ts. cn_woken c' = cn_woken c @ ts)"

lemma internal_updates [simp]:
  "internal c (c\<lparr>cn_pending := p\<rparr>)" "internal c (c\<lparr>cn_pending := p, cn_decoder := d\<rparr>)"
  "internal c (c\<lparr>cn_frame_decoder := fd\<rparr>)" "internal c (c\<lparr>cn_highest_promised := hp\<rparr>)"
  "internal c (c\<lparr>cn_pings := ps, cn_ping_results := rs\<rparr>)"
  "internal c (wake ts (c\<lparr>cn_send_window := w\<rparr>))" "internal c (c\<lparr>cn_send_window := w\<rparr>)"
  by (simp_all add: internal_def wake_def)

locale conn_steps =
  fixes R :: "nat \<Rightarrow> conn \<Rightarrow> conn \<Rightarrow> bool"
    and weight :: "frame \<Rightarrow> nat"
    and admitted :: "frame \<Rightarrow> bool"
  assumes R_trans: "R j c c' \<Longrightarrow> R k c' c'' \<Longrightarrow> R (j + k) c c''"
    and R_mono: "R j c c' \<Longrightarrow> j \<le> k \<Longrightarrow> R k c c'"
    and R_internal: "internal c c' \<Longrightarrow> R 0 c c'"
    and R_send: "is_control f \<Longrightarrow> R 0 c (send_frame f c)"
    and R_headers: "R 0 c (with_stream sid (receive_headers hs es) c)"
    and R_window: "R 0 c (with_stream sid (update_stream_window n) c)"
    and R_remote_closed: "R 0 c (set_remote_closed sid c)"
    and R_retire: "R 0 c (retire_if_fully_closed sid c)"
    and R_reset: "R 0 c (reset_stream sid code c)"
    and R_settings: "R 0 c (snd (apply_remote_settings s c))"
    and R_goaway: "R 0 c (on_goaway lsid rc c)"
    and R_destroy: "R 0 c (destroy err c)"
    and R_data: "admitted (Data sid d es) \<Longrightarrow> R (weight (Data sid d es)) c (on_data sid d es c)"
    and R_rst: "admitted (RstStream sid rc) \<Longrightarrow> R 0 c (on_rst_stream sid rc c)"
begin

lemma R_refl: "R k c c"
  by (rule R_mono [OF R_internal]) (simp_all add: internal_def)

lemma R_trans0: "R 0 c c' \<Longrightarrow> R 0 c' c'' \<Longrightarrow> R 0 c c''"
  using R_trans [of 0 c c' 0 c''] by simp

lemma R_error: "R 0 c (connection_error err c)"
  unfolding connection_error_def by (rule R_trans0 [OF R_send R_destroy]) simp

lemma R_and_then: "R 0 c (snd m) \<Longrightarrow> (\<And>c'. R 0 c' (snd (f c'))) \<Longrightarrow> R 0 c (snd (and_then m f))"
  by (cases m; cases "fst m") (auto simp: and_then_def intro: R_trans0)

lemma R_deliver: "R 0 c (deliver_headers pb hs c)"
proof -
  have "R 0 c (retire_if_fully_closed sid (set_remote_closed sid (with_stream sid (receive_headers hs es) c)))" for sid es
    by (rule R_trans0 [OF R_trans0 [OF R_headers R_remote_closed] R_retire])
  moreover have "R 0 c (send_frame (RstStream p v) (c\<lparr>cn_highest_promised := q\<rparr>))" for p q v
    by (rule R_trans0 [OF R_internal R_send]) simp_all
  ultimately show ?thesis
    using R_headers R_send by (auto simp: deliver_headers_def Let_def split: header_block_kind.split option.split)
qed

lemma R_complete: "R 0 c (snd (complete_header_block W c))"
proof (cases "cn_pending c")
  case (Some pb)
  have "R 0 c (c\<lparr>cn_pending := None, cn_decoder := d\<rparr>)" for d by (rule R_internal) simp
  then show ?thesis
    using Some R_trans0 [OF _ R_deliver]
    by (auto simp: complete_header_block_def Let_def split: prod.split result.split)
qed (simp add: complete_header_block_def R_refl)

lemma R_guard: "R 0 c (snd (guard_then_complete W eh (c\<lparr>cn_pending := p\<rparr>)))"
proof (rule R_trans0 [OF R_internal [OF internal_updates(1)]])
  have "R 0 c (snd (guard_header_block_size c))" for c
    by (simp add: guard_header_block_size_def proto_err_def R_refl split: option.split)
  then show "R 0 (c\<lparr>cn_pending := p\<rparr>) (snd (guard_then_complete W eh (c\<lparr>cn_pending := p\<rparr>)))"
    unfolding guard_then_complete_def by (rule R_and_then) (simp add: R_complete R_refl)
qed

lemma R_settings_frame: "R 0 c (snd (handle_frame W now (SettingsF ack s) c))"
  by (auto simp: R_refl intro!: R_and_then R_settings R_send)

lemma R_window_update: "R 0 c (snd (on_window_update sid inc c))"
  using R_reset R_window R_internal
  by (simp add: on_window_update_def proto_err_def R_refl split: prod.split)

lemma R_ping: "R 0 c (on_ping now ack opaque c)"
  using R_send R_internal [OF internal_updates(5)] by (simp add: on_ping_def R_refl split: option.split)

lemma R_handle: "admitted f \<Longrightarrow> R (weight f) c (snd (handle_frame W now f c))"
proof (cases f)
  case (SettingsF ack s)
  then show ?thesis using R_mono [OF R_settings_frame] by simp
next
  case (Data sid d es)
  assume "admitted f"
  then show ?thesis using Data R_data by simp
next
  case (RstStream sid rc)
  assume "admitted f"
  then show ?thesis using RstStream R_mono [OF R_rst] by simp
qed (auto simp: on_headers_def on_continuation_def on_push_promise_def proto_err_def Let_def R_refl split: option.split
      intro: R_mono [OF R_guard] R_mono [OF R_window_update] R_mono [OF R_ping] R_mono [OF R_goaway])

lemma R_dispatch: "admitted f \<Longrightarrow> R (weight f) c (snd (dispatch W now f c))"
  by (simp add: dispatch_def R_handle proto_err_def R_refl)

lemma R_dispatch_all:
  "list_all admitted fs \<Longrightarrow> R (sum_list (map weight fs)) c (snd (dispatch_all W now fs c))"
proof (induction fs arbitrary: c)
  case (Cons f fs)
  obtain res c1 where d: "dispatch W now f c = (res, c1)" by fastforce
  then have f: "R (weight f) c c1" using R_dispatch [of f c W now] Cons.prems by simp
  have "R (sum_list (map weight fs)) c1 (connection_error e c1)" for e by (rule R_mono [OF R_error]) simp
  from R_trans [OF f Cons.IH] R_trans [OF f this] R_mono [OF f] Cons.prems show ?case by (cases res) (auto simp: d)
qed (simp add: R_refl)

lemma R_on_bytes:
  assumes "\<And>fs d. fd_push chunk (cn_frame_decoder c) = Ok (fs, d) \<Longrightarrow> list_all admitted fs \<and> sum_list (map weight fs) \<le> k"
  shows "R k c (snd (on_bytes W now chunk c))"
proof (cases "fd_push chunk (cn_frame_decoder c)")
  case (Ok x)
  obtain fs d where x: "x = (fs, d)" by (cases x)
  have "R (0 + sum_list (map weight fs)) c (snd (dispatch_all W now fs (c\<lparr>cn_frame_decoder := d\<rparr>)))"
    using assms Ok x by (intro R_trans [OF R_internal [OF internal_updates(3)] R_dispatch_all]) auto
  then show ?thesis using Ok x assms by (auto simp: on_bytes_def intro: R_mono)
qed (simp_all add: on_bytes_def R_refl R_mono [OF R_error])

lemma R_read_chunk:
  assumes "\<And>fs d. fd_push chunk (cn_frame_decoder c) = Ok (fs, d) \<Longrightarrow> list_all admitted fs \<and> sum_list (map weight fs) \<le> k"
  shows "R k c (snd (read_chunk W now chunk c))"
proof -
  let ?h = "if chunk \<noteq> [] then on_bytes W now chunk c else (Ok (), c)"
  have h: "R k c (snd ?h)" using R_on_bytes [OF assms] by (simp add: R_refl)
  obtain res c1 where "?h = (res, c1)" by fastforce
  with h R_trans [OF h R_destroy] show ?thesis by (cases res) (simp_all add: read_chunk_def)
qed

end

end
