(* ===== verification/Slots.thy ===== *)
theory Slots
  imports Teardown Conn_Steps
begin

text \<open>
  Requests that wait for a stream slot: the concurrency limit holds when a stream is opened, and a
  parked request is woken when it could proceed, with one exception that is shown too.
\<close>

subsection \<open>What a step does to parked requests\<close>

text \<open>A parked request can proceed: it would be refused at once or may open its stream.\<close>

definition slot_ready :: "conn \<Rightarrow> bool" where
  "slot_ready c \<longleftrightarrow> refuse_request c \<noteq> None \<or> can_open_stream c"

definition slot_keep :: "conn \<Rightarrow> conn \<Rightarrow> bool" where
  "slot_keep c c' \<longleftrightarrow> cn_slot_waiters c' = cn_slot_waiters c \<and> map fst (cn_streams c') = map fst (cn_streams c)
     \<and> rm_max_concurrent_streams (cn_remote c') = rm_max_concurrent_streams (cn_remote c)
     \<and> cn_closed c' = cn_closed c \<and> cn_goaway_received c' = cn_goaway_received c \<and> wakes_more c c'"

definition slot_flush :: "conn \<Rightarrow> conn \<Rightarrow> bool" where
  "slot_flush c c' \<longleftrightarrow> cn_slot_waiters c' = []
     \<and> (\<exists>ts. cn_woken c' = cn_woken c @ ts \<and> set (cn_slot_waiters c) \<subseteq> set ts)"

definition slot_rel :: "conn \<Rightarrow> conn \<Rightarrow> bool" where
  "slot_rel c c' \<longleftrightarrow> slot_keep c c' \<or> slot_flush c c'"

lemma wakes_more_refl [simp]: "wakes_more c c"
  by (simp add: wakes_more_def)

lemma wakes_more_woken: "cn_woken c' = cn_woken c \<Longrightarrow> wakes_more c c'"
  by (simp add: wakes_more_def)

lemma slot_rel_refl [simp]: "slot_rel c c"
  by (simp add: slot_rel_def slot_keep_def)

lemma slot_rel_trans: "slot_rel c c' \<Longrightarrow> slot_rel c' c'' \<Longrightarrow> slot_rel c c''"
  unfolding slot_rel_def slot_keep_def slot_flush_def wakes_more_def by fastforce

lemma slot_keepI:
  "cn_slot_waiters c' = cn_slot_waiters c \<Longrightarrow> map fst (cn_streams c') = map fst (cn_streams c) \<Longrightarrow>
   cn_remote c' = cn_remote c \<Longrightarrow> cn_closed c' = cn_closed c \<Longrightarrow> cn_goaway_received c' = cn_goaway_received c \<Longrightarrow>
   wakes_more c c' \<Longrightarrow> slot_rel c c'"
  by (simp add: slot_rel_def slot_keep_def)

lemma slot_flushI: "cn_slot_waiters c' = cn_slot_waiters c \<Longrightarrow> wakes_more c c' \<Longrightarrow> slot_rel c (wake_slot_waiters c')"
  by (auto simp: slot_rel_def slot_flush_def wake_slot_waiters_def wake_def wakes_more_def)

lemma slot_rel_fields:
  assumes "slot_rel c c'" and "cn_slot_waiters c'' = cn_slot_waiters c'" and "cn_streams c'' = cn_streams c'"
    and "cn_remote c'' = cn_remote c'" and "cn_closed c'' = cn_closed c'"
    and "cn_goaway_received c'' = cn_goaway_received c'" and "cn_woken c'' = cn_woken c'"
  shows "slot_rel c c''"
  by (rule slot_rel_trans [OF assms(1)]) (rule slot_keepI; simp add: assms wakes_more_woken)

lemma slot_ready_keep: "slot_keep c c' \<Longrightarrow> slot_ready c' = slot_ready c"
  by (simp add: slot_ready_def slot_keep_def refuse_request_def can_open_stream_def active_streams_def)

subsection \<open>The helpers and handlers\<close>

lemma wakes_more_wake [simp]: "wakes_more c (wake ts c)"
  by (simp add: wakes_more_def wake_def)

lemma wakes_more_slot_waiters: "wakes_more c c' \<Longrightarrow> wakes_more c (wake_slot_waiters c')"
  by (auto simp: wakes_more_def wake_slot_waiters_def wake_def)

lemma update_known_keys:
  "get_stream sid c = Some s \<Longrightarrow> map fst (AList.update sid s' (cn_streams c)) = map fst (cn_streams c)"
  by (auto simp: get_stream_def AList.update_keys dest: map_of_SomeD intro: rev_image_eqI)

lemma slot_rel_basic [simp]:
  "slot_rel c (with_stream sid f c)" "slot_rel c (send_frame fr c)" "slot_rel c (send_headers sid block es c)"
  "slot_rel c (replenish_recv_window sid n c)" "slot_rel c (set_cell a cl c)" "slot_rel c (adjust_streams delta c)"
  "slot_rel c (set_remote_closed sid c)"
proof -
  show w: "slot_rel c (with_stream sid f c)" for c f
    by (rule slot_keepI)
      (auto simp: with_stream_def put_stream_def update_known_keys wakes_more_def wake_def split: option.split prod.split)
  then show "slot_rel c (set_remote_closed sid c)" by (simp add: set_remote_closed_def)
  show "slot_rel c (adjust_streams delta c)"
    by (rule slot_keepI) (auto simp: adjust_streams_def wakes_more_def wake_def case_prod_unfold)
qed (rule slot_keepI; simp add: wakes_more_woken)+

lemma slot_rel_reset [simp]: "slot_rel c (reset_stream sid code c)"
  unfolding reset_stream_def
  by (rule slot_flushI) (auto intro: wakes_more_trans [OF wakes_more_woken woken_with(2)])

lemma slot_rel_retire [simp]: "slot_rel c (retire_if_fully_closed sid c)"
  by (auto simp: retire_if_fully_closed_def intro!: slot_flushI split: option.split)

lemma wakes_more_close_window: "wakes_more c (close_conn_window c)"
  by (auto simp: close_conn_window_def wakes_more_def wake_def split: prod.split)

lemma slot_rel_destroy [simp]: "slot_rel c (destroy err c)"
proof (cases "cn_closed c")
  case False
  let ?c0 = "close_conn_window (c\<lparr>cn_closed := True, cn_close_error := Some err\<rparr>)"
  let ?c1 = "fail_streams (map fst (cn_streams c)) err ?c0"
  let ?c2 = "fail_pings (map snd (cn_pings c)) err (?c1\<lparr>cn_pings := []\<rparr>)"
  have "wakes_more c ?c0" using wakes_more_close_window [of "c\<lparr>cn_closed := True, cn_close_error := Some err\<rparr>"]
    by (simp add: wakes_more_def)
  then have "wakes_more c ?c1" by (rule wakes_more_trans) (rule woken_fail_streams)
  then have "wakes_more c ?c2" by (simp add: wakes_more_def)
  then have "slot_rel c (wake_slot_waiters ?c2)" by (rule slot_flushI [rotated]) simp
  then have "slot_rel c ((wake_slot_waiters ?c2)\<lparr>cn_out_tx := False\<rparr>)" by (rule slot_rel_fields) simp_all
  then show ?thesis using False by (simp add: destroy_def Let_def)
qed (simp add: destroy_def)

lemma slot_rel_goaway [simp]: "slot_rel c (on_goaway lsid code c)"
proof -
  let ?c1 = "\<lambda>doomed err. fail_streams doomed err (c\<lparr>cn_goaway_received := True\<rparr>)"
  have "wakes_more c (?c1 doomed err)" for doomed err
    using woken_fail_streams [of "c\<lparr>cn_goaway_received := True\<rparr>"] by (simp add: wakes_more_def)
  then have "slot_rel c (wake_slot_waiters (?c1 doomed err))" for doomed err by (rule slot_flushI [rotated]) simp
  from this slot_rel_trans [OF this slot_rel_destroy] show ?thesis by (simp add: on_goaway_def Let_def)
qed

lemma slot_rel_data [simp]: "slot_rel c (on_data sid d es c)"
proof -
  have "slot_rel c (set_remote_closed sid (with_stream sid f c))" for f
    by (rule slot_rel_trans [OF slot_rel_basic(1) slot_rel_basic(7)])
  then show ?thesis
    using slot_rel_trans [OF _ slot_rel_retire] by (simp add: on_data_def Let_def)
qed

lemma slot_rel_and_then:
  "slot_rel c (snd m) \<Longrightarrow> (\<And>c'. slot_rel c' (snd (f c'))) \<Longrightarrow> slot_rel c (snd (and_then m f))"
  by (auto simp: and_then_def split: prod.split result.split intro: slot_rel_trans)

lemma slot_rel_proto_err [simp]: "slot_rel c (snd (proto_err code m c))"
  by (simp add: proto_err_def)

lemma slot_rel_settings [simp]: "slot_rel c (snd (apply_remote_settings s c))"
proof -
  have 1: "slot_rel c (snd (apply_initial_window iw c))" for iw c
  proof -
    have "slot_rel (c\<lparr>cn_remote := (cn_remote c)\<lparr>rm_initial_window_size := n\<rparr>\<rparr>)
        (adjust_streams delta (c\<lparr>cn_remote := (cn_remote c)\<lparr>rm_initial_window_size := n\<rparr>\<rparr>))" for delta n by simp
    moreover have "slot_rel c (c\<lparr>cn_remote := (cn_remote c)\<lparr>rm_initial_window_size := n\<rparr>\<rparr>)" for n
      by (simp add: slot_rel_def slot_keep_def wakes_more_def)
    ultimately have "slot_rel c (adjust_streams delta (c\<lparr>cn_remote := (cn_remote c)\<lparr>rm_initial_window_size := n\<rparr>\<rparr>))"
      for delta n by (rule slot_rel_trans [rotated])
    then show ?thesis by (simp add: apply_initial_window_def Let_def split: option.split)
  qed
  have 2: "slot_rel c (snd (apply_max_frame_size mfs c))" for mfs c
    by (auto simp: apply_max_frame_size_def slot_rel_def slot_keep_def wakes_more_def proto_err_def split: option.split)
  have 3: "slot_rel c (apply_other_settings s c)" for c
    by (cases "st_max_concurrent_streams s")
      (auto simp: apply_other_settings_def Let_def slot_rel_def slot_keep_def wakes_more_def slot_flush_def
        wake_slot_waiters_def wake_def split: option.split)
  show ?thesis unfolding apply_remote_settings_def
    by (intro slot_rel_and_then 1 2) (simp add: 3)
qed

fun is_rst_stream :: "frame \<Rightarrow> bool" where
  "is_rst_stream (RstStream _ _) = True"
| "is_rst_stream _ = False"

interpretation slot_steps: conn_steps "\<lambda>_. slot_rel" "\<lambda>_. 0" "\<lambda>f. \<not> is_rst_stream f"
proof
  show "slot_rel c c'" if "internal c c'" for c c'
    using that by (intro slot_keepI) (auto simp: internal_def wakes_more_def)
qed (auto intro: slot_rel_trans)

text \<open>No frame that the bytes complete resets a stream.\<close>

definition no_reset_in :: "bytes \<Rightarrow> conn \<Rightarrow> bool" where
  "no_reset_in chunk c \<longleftrightarrow>
     (case fd_push chunk (cn_frame_decoder c) of Ok (fs, _) \<Rightarrow> list_all (\<lambda>f. \<not> is_rst_stream f) fs | _ \<Rightarrow> True)"

lemma slot_rel_read_chunk: "no_reset_in chunk c \<Longrightarrow> slot_rel c (snd (read_chunk W now chunk c))"
  by (rule slot_steps.R_read_chunk) (auto simp: no_reset_in_def)

subsection \<open>The calls of the application and the pumps\<close>

lemma slot_rel_body_poll: "body_poll t sid cell c = Ok (r, c') \<Longrightarrow> slot_rel c c'"
proof -
  assume "body_poll t sid cell c = Ok (r, c')"
  then obtain n cl where "c' = replenish_recv_window sid n (set_cell cell cl c)"
    by (auto simp: body_poll_def split: prod.splits)
  then show ?thesis by (simp add: slot_rel_trans [OF slot_rel_basic(5) slot_rel_basic(4)])
qed

lemma slot_rel_body_drop [simp]: "slot_rel c (body_drop sid cell c)"
  by (auto simp: body_drop_def Let_def intro: slot_rel_trans [OF slot_rel_basic(4) slot_rel_reset])

lemma slot_rel_calls [simp]: "slot_rel c (snd (ping now c))" "slot_rel c (close c)"
proof -
  show "slot_rel c (snd (ping now c))"
    by (rule slot_keepI) (simp_all add: ping_def Let_def wakes_more_woken)
  show "slot_rel c (close c)"
    by (auto simp: close_def intro: slot_rel_trans [OF slot_rel_basic(2) slot_rel_destroy])
qed

lemma slot_rel_window [simp]: "slot_rel c (c\<lparr>cn_send_window := w\<rparr>)"
  by (rule slot_keepI) (simp_all add: wakes_more_woken)

lemma slot_rel_pump: "pump_step t sid p c = (p', parked, c') \<Longrightarrow> slot_rel c c'"
proof (cases "(t, sid, p, c)" rule: pump_step.cases)
  case (2 t' sid' c1)
  have "slot_rel c (retire_if_fully_closed sid (with_stream sid f (send_frame fr c)))" for f fr
    by (rule slot_rel_trans [OF slot_rel_trans [OF slot_rel_basic(2) slot_rel_basic(1)] slot_rel_retire])
  moreover assume "pump_step t sid p c = (p', parked, c')"
  ultimately show ?thesis using 2 by (auto simp: pump_finish_def)
next
  case (4 t' sid' chunk offset chunks c1)
  have "slot_rel c (with_stream sid f (c\<lparr>cn_send_window := w\<rparr>))" for f w
    by (rule slot_rel_trans [OF slot_rel_window slot_rel_basic(1)])
  note st = this slot_rel_trans [OF this slot_rel_basic(2)]
  have "slot_rel c (park_pump t sid c)" using st(1) by (simp add: park_pump_def Let_def)
  moreover assume "pump_step t sid p c = (p', parked, c')"
  ultimately show ?thesis using 4 st(2) by (auto simp: Let_def split: option.splits if_splits)
qed (auto split: if_splits)

text \<open>
  A request keeps the parked requests, itself perhaps added; it opens a stream only when one may be
  opened.
\<close>

lemma insert_stream_slots [simp]:
  "cn_woken (insert_stream sid s c) = cn_woken c" "cn_slot_waiters (insert_stream sid s c) = cn_slot_waiters c"
  by (simp_all add: insert_stream_def take_stream_def wake_def split: option.split)

lemma open_request_slots:
  "open_request up init c = (out, c') \<Longrightarrow> cn_woken c' = cn_woken c \<and> cn_slot_waiters c' = cn_slot_waiters c"
  by (cases "hpack_encode (build_request_headers up init)") (auto simp: open_request_def Let_def split: option.splits)

lemma request_slots:
  assumes "request up t init c = (out, c')"
  shows "cn_woken c' = cn_woken c"
    and "c' = c \<or> cn_slot_waiters c' = cn_slot_waiters c \<and> can_open_stream c
      \<or> cn_slot_waiters c' = cn_slot_waiters c @ [t] \<and> \<not> slot_ready c'"
proof -
  have "cn_woken c' = cn_woken c \<and> (c' = c \<or> cn_slot_waiters c' = cn_slot_waiters c \<and> can_open_stream c
      \<or> cn_slot_waiters c' = cn_slot_waiters c @ [t] \<and> \<not> slot_ready c')"
  proof (cases "refuse_request c")
    case None
    show ?thesis
    proof (cases "can_open_stream c")
      case True
      then have "open_request up init c = (out, c')" using assms None by (simp add: request_def)
      then show ?thesis using True open_request_slots by simp
    next
      case False
      then have c': "c' = c\<lparr>cn_slot_waiters := cn_slot_waiters c @ [t]\<rparr>" using assms None by (simp add: request_def)
      have "\<not> slot_ready c'"
        using None False by (simp add: c' slot_ready_def refuse_request_def can_open_stream_def active_streams_def split: if_splits)
      then show ?thesis by (simp add: c')
    qed
  qed (use assms in \<open>simp add: request_def\<close>)
  then show "cn_woken c' = cn_woken c"
      "c' = c \<or> cn_slot_waiters c' = cn_slot_waiters c \<and> can_open_stream c
      \<or> cn_slot_waiters c' = cn_slot_waiters c @ [t] \<and> \<not> slot_ready c'"
    by simp_all
qed

subsection \<open>Steps of the driver\<close>

fun no_reset_event :: "event \<Rightarrow> conn \<Rightarrow> bool" where
  "no_reset_event (EvRead now chunk) c = no_reset_in chunk c"
| "no_reset_event _ c = True"

inductive slot_step :: "system \<Rightarrow> task list \<Rightarrow> system \<Rightarrow> bool" where
  slot_stepI: "sys_step W up ev sy = Ok sy' \<Longrightarrow> no_reset_event ev (sy_conn sy) \<Longrightarrow>
    cn_woken (sy_conn sy') = cn_woken (sy_conn sy) @ ts \<Longrightarrow> slot_step sy ts sy'"

definition slot_change :: "conn \<Rightarrow> conn \<Rightarrow> bool" where
  "slot_change c c' \<longleftrightarrow> slot_rel c c' \<or> cn_woken c' = cn_woken c
     \<and> (cn_slot_waiters c' = cn_slot_waiters c \<and> can_open_stream c
        \<or> (\<exists>t. cn_slot_waiters c' = cn_slot_waiters c @ [t]) \<and> \<not> slot_ready c')"

lemma sys_step_slots:
  assumes "sys_step W up ev sy = Ok sy'" and "no_reset_event ev (sy_conn sy)"
  shows "slot_change (sy_conn sy) (sy_conn sy')"
proof (cases "\<exists>t init. ev = EvRequest t init")
  case True
  then obtain t init out c' where "ev = EvRequest t init" and r: "request up t init (sy_conn sy) = (out, c')"
    by (metis surj_pair)
  then have "sy_conn sy' = c'" using assms(1) by (auto split: request_outcome.splits)
  then show ?thesis using request_slots [OF r] by (auto simp: slot_change_def)
next
  case False
  have "slot_rel (sy_conn sy) (sy_conn sy')"
  proof (cases ev)
    case (EvRead now chunk)
    then show ?thesis using assms slot_rel_read_chunk [of chunk "sy_conn sy" W now]
      by (auto split: if_splits prod.splits result.splits)
  next
    case EvWrite
    then show ?thesis using assms
      by (auto split: if_splits list.splits intro!: slot_keepI wakes_more_woken)
  next
    case EvWriteFailed
    have "slot_rel c (destroy e (c\<lparr>cn_outq := ms\<rparr>))" for c e ms
      by (rule slot_rel_trans [OF slot_keepI slot_rel_destroy]) (simp_all add: wakes_more_woken)
    then show ?thesis using assms EvWriteFailed by (auto split: if_splits list.splits)
  next
    case EvTasks
    then show ?thesis using assms by (auto split: if_splits intro!: slot_keepI wakes_more_woken)
  next
    case (EvPump t)
    then show ?thesis using assms slot_rel_pump by (auto split: if_splits prod.splits)
  next
    case (EvBodyPoll t i)
    then show ?thesis using assms slot_rel_body_poll by (auto split: if_splits prod.splits result.splits)
  qed (use False assms in \<open>auto split: if_splits prod.splits result.splits poll.splits\<close>)
  then show ?thesis by (simp add: slot_change_def)
qed

lemma slot_change_keeps:
  "slot_change c c' \<Longrightarrow> cn_woken c' = cn_woken c @ ts \<Longrightarrow> set (cn_slot_waiters c) \<subseteq> set (cn_slot_waiters c') \<union> set ts"
  by (auto simp: slot_change_def slot_rel_def slot_keep_def slot_flush_def)

lemma slot_change_ready:
  assumes "slot_change c c'" and "cn_slot_waiters c \<noteq> [] \<longrightarrow> \<not> slot_ready c" and "cn_slot_waiters c' \<noteq> []"
  shows "\<not> slot_ready c'"
proof -
  consider "slot_keep c c'" | "cn_slot_waiters c' = cn_slot_waiters c" "slot_ready c" | "\<not> slot_ready c'"
    using assms(1,3) by (auto simp: slot_change_def slot_rel_def slot_flush_def slot_ready_def)
  then show ?thesis
  proof cases
    case 1
    then show ?thesis using assms slot_ready_keep [OF 1] by (simp add: slot_keep_def)
  qed (use assms in auto)
qed

inductive_cases slot_stepE: "slot_step sy ts sy'"

interpretation slots: wakeup slot_step "\<lambda>sy. slot_ready (sy_conn sy)" "\<lambda>sy. cn_slot_waiters (sy_conn sy)"
proof
  fix sy ts sy'
  assume st: "slot_step sy ts sy'"
  then have change: "slot_change (sy_conn sy) (sy_conn sy')" and "cn_woken (sy_conn sy') = cn_woken (sy_conn sy) @ ts"
    by (auto elim!: slot_stepE dest: sys_step_slots)
  then show "set (cn_slot_waiters (sy_conn sy)) \<subseteq> set (cn_slot_waiters (sy_conn sy')) \<union> set ts"
    by (rule slot_change_keeps)
  show "\<not> slot_ready (sy_conn sy')"
    if "cn_slot_waiters (sy_conn sy) \<noteq> [] \<longrightarrow> \<not> slot_ready (sy_conn sy)" "cn_slot_waiters (sy_conn sy') \<noteq> []"
    using slot_change_ready [OF change that] .
qed

subsection \<open>Main theorems\<close>

text \<open>
  C12. No wake-up of a parked request is lost.  Under any interleaving of reads, writes,
  requests, uploads, body reads, pings and teardown in which the peer resets no stream, a request
  that was parked for a stream slot has been woken whenever the connection comes to a state in which
  it could open its stream or would be refused.
\<close>

theorem slot_no_lost_wakeup:
  assumes "wake_run slot_step sy woken sy'" and "cn_slot_waiters (sy_conn sy) \<noteq> [] \<longrightarrow> \<not> slot_ready (sy_conn sy)"
    and "t \<in> set (cn_slot_waiters (sy_conn sy))" and "can_open_stream (sy_conn sy') \<or> cn_closed (sy_conn sy')"
  shows "t \<in> set woken"
proof -
  have "slot_ready (sy_conn sy')" using assms(4) by (auto simp: slot_ready_def refuse_request_def)
  with slots.no_lost_wakeup [OF assms(1-3)] show ?thesis by simp
qed

text \<open>A connection whose only stream slot is taken, with task 5 parked.\<close>

definition full_conn :: conn where
  "full_conn = sample_conn\<lparr>cn_remote := remote_settings_default\<lparr>rm_max_concurrent_streams := 1\<rparr>\<rparr>"

definition parked_conn :: conn where
  "parked_conn = snd (request (\<lambda>s. s) 5 sample_request full_conn)"

lemma parked_conn_eq: "parked_conn = full_conn\<lparr>cn_slot_waiters := [5]\<rparr>"
    "fst (request (\<lambda>s. s) 5 sample_request full_conn) = ReqParked"
  by (simp_all add: parked_conn_def full_conn_def request_def refuse_request_def can_open_stream_def active_streams_def
      sample_conn_def conn_new_def remote_settings_default_def)

lemma parked_conn_inv: "conn_inv parked_conn"
proof -
  have "conn_inv full_conn"
    unfolding full_conn_def
    by (rule conn_inv_remote) (simp_all add: remote_ok_def remote_settings_default_def DEFAULT_MAX_FRAME_SIZE_def SPEC_INITIAL_WINDOW_def)
  then show ?thesis unfolding parked_conn_def using request_inv [of full_conn "\<lambda>s. s" 5 sample_request] by (metis prod.collapse)
qed

definition parked_system :: system where
  "parked_system = (sys_init no_options)\<lparr>sy_conn := parked_conn\<rparr>"

theorem slot_no_lost_wakeup_witness:
  "\<exists>sy woken. wake_run slot_step parked_system woken sy \<and> cn_closed (sy_conn sy) \<and> 5 \<in> set woken"
proof -
  let ?sy = "parked_system\<lparr>sy_conn := close parked_conn\<rparr>"
  have step: "sys_step 64 (\<lambda>s. s) EvClose parked_system = Ok ?sy" by (simp add: parked_system_def)
  have "wakes_more parked_conn (close parked_conn)"
    using slot_rel_calls(2) [of parked_conn] by (auto simp: slot_rel_def slot_keep_def slot_flush_def wakes_more_def)
  then obtain ts where "cn_woken (sy_conn ?sy) = cn_woken (sy_conn parked_system) @ ts"
    by (auto simp: wakes_more_def parked_system_def)
  from slot_stepI [OF step _ this] have run: "wake_run slot_step parked_system ([] @ ts) ?sy"
    by (intro wake_run.wake_run_step [OF wake_run.wake_run_refl]) simp
  have closed: "cn_closed (sy_conn ?sy)" by (simp add: close_def destroy_closed)
  have "cn_slot_waiters (sy_conn parked_system) = [5]" "\<not> slot_ready (sy_conn parked_system)"
    by (simp_all add: parked_system_def parked_conn_eq full_conn_def slot_ready_def refuse_request_def can_open_stream_def
        active_streams_def sample_conn_def conn_new_def remote_settings_default_def)
  then have "5 \<in> set ([] @ ts)" using slot_no_lost_wakeup [OF run _ _ disjI2 [OF closed], of 5] by simp
  with run closed show ?thesis by blast
qed


lemma insert_stream_keys:
  "map fst (cn_streams (insert_stream sid s c)) = filter (\<lambda>k. k \<noteq> sid) (map fst (cn_streams c)) @ [sid]"
proof -
  let ?xs = "filter (\<lambda>x. sid \<noteq> fst x) (cn_streams c)"
  have "sid \<notin> set (map fst ?xs)" by auto
  then have "map fst (AList.update sid s ?xs) = map fst ?xs @ [sid]" by (simp add: AList.update_keys)
  then show ?thesis by (simp add: insert_stream_def put_stream_def take_stream_streams filter_map o_def eq_commute [of sid])
qed

lemma insert_stream_active:
  "length (filter P (map fst (cn_streams (insert_stream sid s c)))) \<le> Suc (length (filter P (map fst (cn_streams c))))"
proof -
  have "length (filter P (filter Q xs)) \<le> length (filter P xs)" for Q and xs :: "u32 list"
    by (induction xs) auto
  from this [of "\<lambda>k. k \<noteq> sid" "map fst (cn_streams c)"] show ?thesis by (simp add: insert_stream_keys)
qed

lemma request_opened:
  assumes "request up t init c = (ReqOpened sid cell, c')"
  shows "can_open_stream c" and "sid = cn_next_stream_id c" and "cn_next_stream_id c' = sid + 2"
    and "cn_remote c' = cn_remote c" and "active_streams c' \<le> Suc (active_streams c)"
proof -
  have opn: "can_open_stream c" "open_request up init c = (ReqOpened sid cell, c')"
    using assms by (auto simp: request_def split: option.splits if_splits)
  then show "can_open_stream c" by simp
  have *: "cn_next_stream_id (insert_stream sid s c) = cn_next_stream_id c" "cn_remote (insert_stream sid s c) = cn_remote c"
    for sid s c by (simp_all add: insert_stream_def)
  have act: "length (filter (\<lambda>k. k mod 2 = 1) (map fst (cn_streams (insert_stream sid s c)))) \<le> Suc (active_streams c)" for s c
    unfolding active_streams_def by (rule insert_stream_active)
  show "sid = cn_next_stream_id c" "cn_next_stream_id c' = sid + 2" "cn_remote c' = cn_remote c"
      "active_streams c' \<le> Suc (active_streams c)"
    using opn(2) act [of _ "c\<lparr>cn_next_stream_id := sid + 2, cn_cells := cn_cells c @ [cell_default]\<rparr>"]
    by (auto simp: open_request_def Let_def * active_streams_def split: option.splits result.splits)
qed

text \<open>
  The concurrency limit.  A request that opens a stream does so only while fewer streams
  are active than the peer allows, and leaves at most that many; it takes the next odd stream id,
  and the id after it is two higher.
\<close>

theorem request_respects_concurrency:
  assumes "conn_inv c" and "request up t init c = (ReqOpened sid cell, c')"
  shows "active_streams c < unat (rm_max_concurrent_streams (cn_remote c))
    \<and> active_streams c' \<le> unat (rm_max_concurrent_streams (cn_remote c'))
    \<and> sid = cn_next_stream_id c \<and> sid mod 2 = 1 \<and> cn_next_stream_id c' = sid + 2"
proof -
  note o = request_opened [OF assms(2)]
  have "active_streams c < unat (rm_max_concurrent_streams (cn_remote c))" using o(1) by (simp add: can_open_stream_def)
  moreover have "cn_next_stream_id c mod 2 = 1" using assms(1) by (simp add: conn_inv_def conn_core_def)
  ultimately show ?thesis using o(2-5) by simp
qed

theorem request_respects_concurrency_witness:
  "\<exists>c'. request (\<lambda>s. s) 5 sample_request sample_conn = (ReqOpened 3 1, c') \<and> cn_next_stream_id c' = 5"
proof -
  obtain block where "hpack_encode (build_request_headers (\<lambda>s. s) sample_request) = Ok block"
    using hpack_encode_bytes by blast
  then obtain c' where r: "request (\<lambda>s. s) 5 sample_request sample_conn = (ReqOpened 3 1, c')"
    by (simp add: request_def open_request_def refuse_request_def can_open_stream_def active_streams_def Let_def
        sample_conn_def conn_new_def remote_settings_default_def)
  from request_respects_concurrency [OF sample_conn_inv r] r show ?thesis by simp
qed

end
