(* ===== verification/Credit.thy ===== *)
theory Credit
  imports Slots
begin

text \<open>
  The ledger of the connection-level receive window: the credit the client returns to the peer and
  the bytes it still buffers for the application never exceed what it received, so the memory for
  response bodies is bounded by the window the client configured.
\<close>

subsection \<open>Credit in the outbound queue\<close>

text \<open>The increment of a connection-level WINDOW\_UPDATE message, as the peer reads it.\<close>

definition grant_bytes :: "bytes \<Rightarrow> nat" where
  "grant_bytes m =
     (if length m = 13 \<and> m ! 3 = 8 \<and> take 4 (drop 5 m) = [0, 0, 0, 0]
      then unat (from_be32 (m ! 9) (m ! 10) (m ! 11) (m ! 12)) else 0)"

definition total_grant :: "bytes list \<Rightarrow> nat" where
  "total_grant ms = sum_list (map grant_bytes ms)"

lemma total_grant_simps [simp]:
  "total_grant [] = 0" "total_grant (m # ms) = grant_bytes m + total_grant ms"
  "total_grant (xs @ ys) = total_grant xs + total_grant ys"
  by (simp_all add: total_grant_def)

lemma be32_zero: "be32 v = [0, 0, 0, 0] \<longleftrightarrow> v = 0"
proof
  assume "be32 v = [0, 0, 0, 0]"
  then have "from_be32 (ucast (drop_bit 24 v)) (ucast (drop_bit 16 v)) (ucast (drop_bit 8 v)) (ucast v) = from_be32 0 0 0 0"
    by (simp add: be32_def del: from_be32_be32)
  then have "v = from_be32 0 0 0 0" unfolding from_be32_be32 .
  then show "v = 0" by (simp add: from_be32_def)
qed (simp add: be32_def)

lemma unat_mask31: "unat (mask31 v) \<le> unat v"
  unfolding mask31_def by (simp add: word_and_le2 flip: word_le_nat_alt)

lemma grant_bytes_update: "grant_bytes (serialize_frame (WindowUpdate sid inc)) = (if mask31 sid = 0 then unat (mask31 inc) else 0)"
proof -
  let ?m = "serialize_frame (WindowUpdate sid inc)"
  have m: "?m = [0, 0, 4, 8, 0] @ be32 (mask31 sid) @ be32 (mask31 inc)"
    by (simp add: serialize_frame_bytes Let_def)
  have "take 4 (drop 5 ?m) = be32 (mask31 sid)" by (simp add: m)
  moreover have "from_be32 (?m ! 9) (?m ! 10) (?m ! 11) (?m ! 12) = mask31 inc" by (simp add: m be32_def)
  ultimately show ?thesis by (simp add: grant_bytes_def be32_zero) (simp add: m)
qed

lemma grant_bytes_other: "\<not> is_grant f \<Longrightarrow> grant_bytes (serialize_frame f) = 0"
  by (cases f) (simp_all add: grant_bytes_update, simp_all add: grant_bytes_def serialize_frame_bytes Let_def split: option.split)

lemma total_grant_send [simp]: "\<not> is_grant f \<Longrightarrow> total_grant (cn_outq (send_frame f c)) = total_grant (cn_outq c)"
  by (simp add: send_frame_def write_raw_def grant_bytes_other)

lemma total_grant_update: "total_grant (cn_outq (send_frame (WindowUpdate 0 inc) c)) \<le> total_grant (cn_outq c) + unat inc"
  using unat_mask31 [of inc] by (simp add: send_frame_def write_raw_def grant_bytes_update)

subsection \<open>What a step adds to the debt\<close>

text \<open>
  The debt towards the peer for a set of live cells: credit queued plus bytes buffered in the cells.
  A step \<open>owes\<close> at most \<open>k\<close> when it adds at most \<open>k\<close> to the debt of any set of live cells.
\<close>

definition buffered :: "conn \<Rightarrow> nat \<Rightarrow> nat" where
  "buffered c a = rs_buffered (sc_recv (cn_cells c ! a))"

definition debt :: "nat set \<Rightarrow> conn \<Rightarrow> nat" where
  "debt L c = total_grant (cn_outq c) + sum (buffered c) L"

definition live :: "nat set \<Rightarrow> conn \<Rightarrow> bool" where
  "live L c \<longleftrightarrow> L \<subseteq> {..<length (cn_cells c)}"

definition owes :: "nat \<Rightarrow> conn \<Rightarrow> conn \<Rightarrow> bool" where
  "owes k c c' \<longleftrightarrow> length (cn_cells c) \<le> length (cn_cells c') \<and> (\<forall>L. live L c \<longrightarrow> debt L c' \<le> debt L c + k)"

lemma live_finite: "live L c \<Longrightarrow> finite L"
  unfolding live_def using finite_subset by blast

lemma owes_refl [simp]: "owes k c c"
  by (simp add: owes_def)

lemma owes_trans: "owes j c c' \<Longrightarrow> owes k c' c'' \<Longrightarrow> owes (j + k) c c''"
proof -
  assume a: "owes j c c'" and b: "owes k c' c''"
  have "live L c \<Longrightarrow> live L c'" for L using a by (auto simp: owes_def live_def)
  then have "debt L c'' \<le> debt L c + (j + k)" if "live L c" for L
    using a b that unfolding owes_def by (metis add.assoc add_le_mono1 order_trans)
  then show ?thesis using a b by (auto simp: owes_def)
qed

lemmas owes_trans0 = owes_trans [of 0 _ _ 0, simplified]

lemma owes_mono: "owes j c c' \<Longrightarrow> j \<le> k \<Longrightarrow> owes k c c'"
  by (auto simp: owes_def intro: order_trans)

lemma owes_queue:
  assumes "cn_cells c' = cn_cells c" and "total_grant (cn_outq c') \<le> total_grant (cn_outq c) + k"
  shows "owes k c c'"
proof -
  have "buffered c' = buffered c" using assms(1) by (simp add: buffered_def fun_eq_iff)
  then show ?thesis using assms by (simp add: owes_def debt_def)
qed

lemma owes_same: "cn_outq c' = cn_outq c \<Longrightarrow> cn_cells c' = cn_cells c \<Longrightarrow> owes 0 c c'"
  by (rule owes_queue) simp_all

lemma owes_cells:
  assumes "cn_cells c' = (cn_cells c)[a := cl]" and "total_grant (cn_outq c') = total_grant (cn_outq c)"
    and "rs_buffered (sc_recv cl) \<le> rs_buffered (sc_recv (cn_cells c ! a))"
  shows "owes 0 c c'"
proof -
  have "buffered c' b \<le> buffered c b" if "b < length (cn_cells c)" for b
    using assms that by (cases "b = a") (auto simp: buffered_def)
  then show ?thesis using assms(1,2) by (auto simp: owes_def debt_def live_def intro!: sum_mono)
qed

text \<open>Methods that do not add to the buffer.\<close>

definition lean :: "stream_method \<Rightarrow> bool" where
  "lean f \<longleftrightarrow> (\<forall>s cl. rs_buffered (sc_recv (fst (snd (f s cl)))) \<le> rs_buffered (sc_recv cl))"

lemma lean_fail [simp]: "lean (fail err)" "lean (receive_reset code)"
  by (auto simp: lean_def receive_reset_def fail_def Let_def send_head_def take_waker_def split: prod.split option.split)

lemma lean_headers [simp]: "lean (receive_headers hs es)"
  by (auto simp: lean_def receive_headers_def Let_def send_head_def end_body_def take_waker_def split: prod.split)

lemma lean_simple [simp]:
  "lean (\<lambda>s cl. (g s, cl, ts s))" "lean (update_stream_window n)" "lean (consume_stream n)"
  by (simp_all add: lean_def update_stream_window_def consume_stream_def split: prod.split)

lemma owes_with_stream [simp]: "lean f \<Longrightarrow> owes 0 c (with_stream sid f c)"
proof (cases "get_stream sid c")
  case (Some s)
  assume "lean f"
  then have "rs_buffered (sc_recv (fst (snd (f s (cn_cells c ! ss_cell s))))) \<le> rs_buffered (sc_recv (cn_cells c ! ss_cell s))"
    by (simp add: lean_def)
  moreover obtain s' cl' ts where "f s (cn_cells c ! ss_cell s) = (s', cl', ts)" by (metis prod_cases3)
  ultimately show ?thesis
    using Some by (intro owes_cells [of _ _ "ss_cell s" cl']) (simp_all add: with_stream_def, simp_all add: set_cell_def)
qed (simp add: with_stream_def)

lemma owes_take_stream [simp]: "lean f \<Longrightarrow> owes 0 c (take_stream sid f c)"
proof (cases "get_stream sid c")
  case (Some s)
  assume "lean f"
  then have "rs_buffered (sc_recv (fst (snd (f s (cn_cells c ! ss_cell s))))) \<le> rs_buffered (sc_recv (cn_cells c ! ss_cell s))"
    by (simp add: lean_def)
  moreover obtain s' cl' ts where f: "f s (cn_cells c ! ss_cell s) = (s', cl', ts)" by (metis prod_cases3)
  ultimately have "rs_buffered (sc_recv (drop_stream s' cl')) \<le> rs_buffered (sc_recv (cn_cells c ! ss_cell s))"
    by (simp add: drop_stream_def)
  with Some f show ?thesis
    by (intro owes_cells [of _ _ "ss_cell s" "drop_stream s' cl'"]) (simp_all add: take_stream_def, simp_all add: set_cell_def)
qed (simp add: take_stream_def)

lemma owes_send [simp]: "\<not> is_grant f \<Longrightarrow> owes 0 c (send_frame f c)"
  by (rule owes_queue) simp_all

lemma owes_grant: "owes (unat inc) c (send_frame (WindowUpdate 0 inc) c)"
  by (rule owes_queue) (simp_all add: total_grant_update)

subsection \<open>Helpers and handlers\<close>

lemma owes_wake [simp]: "owes 0 c (wake ts c)" "owes 0 c (wake_slot_waiters c)"
  by (simp_all add: owes_same)

lemma owes_reset [simp]: "owes 0 c (reset_stream sid code c)"
  unfolding reset_stream_def
  by (rule owes_trans0 [OF owes_trans0 [OF owes_send owes_take_stream] owes_wake(2)]) simp_all

lemma owes_retire [simp]: "owes 0 c (retire_if_fully_closed sid c)"
proof -
  have "owes 0 c (wake_slot_waiters (take_stream sid (\<lambda>s cl. (s, cl, [])) c))"
    by (rule owes_trans0 [OF owes_take_stream owes_wake(2)]) simp
  then show ?thesis by (simp add: retire_if_fully_closed_def split: option.split)
qed

lemma owes_remote_closed [simp]: "owes 0 c (set_remote_closed sid c)"
  by (simp add: set_remote_closed_def)

lemma owes_fail_streams [simp]: "owes 0 c (fail_streams sids err c)"
proof (induction sids err c rule: fail_streams.induct)
  case (2 sid sids err c)
  show ?case unfolding fail_streams.simps by (rule owes_trans0 [OF owes_take_stream [OF lean_fail(1)] 2])
qed simp

lemma owes_destroy [simp]: "owes 0 c (destroy err c)" "owes 0 c (connection_error err c)"
proof -
  show d: "owes 0 c (destroy err c)" for c
  proof (cases "cn_closed c")
    case False
    let ?c0 = "close_conn_window (c\<lparr>cn_closed := True, cn_close_error := Some err\<rparr>)"
    let ?c1 = "fail_streams (map fst (cn_streams c)) err ?c0"
    let ?c2 = "wake_slot_waiters (fail_pings (map snd (cn_pings c)) err (?c1\<lparr>cn_pings := []\<rparr>))"
    have "owes 0 c ?c1" by (rule owes_trans0 [OF _ owes_fail_streams]) (simp add: owes_same)
    then have "owes 0 c (?c2\<lparr>cn_out_tx := False\<rparr>)" by (rule owes_trans0) (simp add: owes_same)
    then show ?thesis using False by (simp add: destroy_def Let_def)
  qed (simp add: destroy_def)
  show "owes 0 c (connection_error err c)"
    unfolding connection_error_def by (rule owes_trans0 [OF owes_send d]) simp
qed

lemma owes_goaway [simp]: "owes 0 c (on_goaway lsid code c)"
proof -
  have "owes 0 c (wake_slot_waiters (fail_streams sids err (c\<lparr>cn_goaway_received := True\<rparr>)))" for sids err
    by (rule owes_trans0 [OF owes_trans0 [OF owes_same owes_fail_streams] owes_wake(2)]) simp_all
  from this owes_trans0 [OF this owes_destroy(1)] show ?thesis by (simp add: on_goaway_def Let_def)
qed

lemma sum_update_one:
  assumes "finite L" and "\<And>b. b \<noteq> a \<Longrightarrow> f b = g b" and "a \<in> L \<Longrightarrow> f a \<le> g a + k"
  shows "sum f L \<le> sum g L + (k :: nat)"
proof (cases "a \<in> L")
  case True
  have "sum f (L - {a}) = sum g (L - {a})" by (rule sum.cong) (auto intro: assms(2))
  then show ?thesis using assms(3) [OF True] by (simp add: sum.remove [OF assms(1) True])
next
  case False
  then have "sum f L = sum g L" by (intro sum.cong) (auto intro: assms(2))
  then show ?thesis by simp
qed

lemma owes_receive_data: "owes (length d) c (with_stream sid (receive_data d es) c)"
proof (cases "get_stream sid c")
  case (Some s)
  let ?c' = "with_stream sid (receive_data d es) c"
  let ?cl = "cn_cells c ! ss_cell s"
  obtain cl' ts where r: "receive_data d es s ?cl = (s, cl', ts)"
    and le: "rs_buffered (sc_recv cl') \<le> rs_buffered (sc_recv ?cl) + length d"
    by (simp add: receive_data_def Let_def take_waker_def)
  have cells: "cn_cells ?c' = (cn_cells c)[ss_cell s := cl']" using Some r by (simp add: with_stream_def) (simp add: set_cell_def)
  have "buffered ?c' b = buffered c b" if "b \<noteq> ss_cell s" for b using cells that by (simp add: buffered_def)
  moreover have "buffered ?c' (ss_cell s) \<le> buffered c (ss_cell s) + length d" if "ss_cell s < length (cn_cells c)"
    using cells that le by (simp add: buffered_def)
  ultimately have "debt L ?c' \<le> debt L c + length d" if "live L c" for L
    using sum_update_one [OF live_finite [OF that], of "ss_cell s" "buffered ?c'" "buffered c" "length d"] that
    by (auto simp: debt_def live_def)
  then show ?thesis by (simp add: owes_def cells)
qed (simp add: with_stream_def)

lemma owes_data: "owes (length d) c (on_data sid d es c)"
proof -
  let ?c1 = "if get_stream sid c \<noteq> None then
      (let c = with_stream sid (receive_data d es) c in if es then set_remote_closed sid c else c)
    else if d \<noteq> [] then send_frame (WindowUpdate 0 (word_of_nat (length d))) c else c"
  have "owes (length d) c (set_remote_closed sid (with_stream sid (receive_data d es) c))"
    using owes_trans [OF owes_receive_data owes_remote_closed] by simp
  moreover have "owes (length d) c (send_frame (WindowUpdate 0 (word_of_nat (length d))) c)"
    by (rule owes_mono [OF owes_grant]) (simp add: unat_of_nat)
  ultimately have "owes (length d) c ?c1"
    using owes_receive_data [of d c sid es] unfolding Let_def by (simp only: if_split owes_refl simp_thms)
  from this owes_trans [OF this owes_retire] show ?thesis by (simp add: on_data_def Let_def)
qed

lemma owes_and_then:
  "owes 0 c (snd m) \<Longrightarrow> (\<And>c'. owes 0 c' (snd (f c'))) \<Longrightarrow> owes 0 c (snd (and_then m f))"
  by (cases m; cases "fst m") (auto simp: and_then_def intro: owes_trans0)

lemma owes_settings [simp]: "owes 0 c (snd (apply_remote_settings s c))"
  unfolding apply_remote_settings_def
  by (intro owes_and_then)
     (auto simp: apply_initial_window_def apply_max_frame_size_def apply_other_settings_def proto_err_def Let_def
       intro!: owes_same split: option.split)

fun data_len :: "frame \<Rightarrow> nat" where
  "data_len (Data sid d es) = length d"
| "data_len _ = 0"

interpretation credit_steps: conn_steps owes data_len "\<lambda>_. True"
proof
  show "owes (j + k) c c''" if "owes j c c'" "owes k c' c''" for j k c c' c'' using that by (rule owes_trans)
  show "owes k c c'" if "owes j c c'" "j \<le> k" for j k c c' using that by (rule owes_mono)
qed (auto simp: owes_data on_rst_stream_def internal_def intro: owes_same)

text \<open>The DATA bytes in the frames a chunk completes.\<close>

definition chunk_data :: "bytes \<Rightarrow> conn \<Rightarrow> nat" where
  "chunk_data chunk c =
     (case fd_push chunk (cn_frame_decoder c) of Ok (fs, d) \<Rightarrow> sum_list (map data_len fs) | _ \<Rightarrow> 0)"

lemma owes_read_chunk: "owes (chunk_data chunk c) c (snd (read_chunk W now chunk c))"
  by (rule credit_steps.R_read_chunk) (simp add: chunk_data_def list_all_iff)

subsection \<open>Calls and pumps\<close>

lemma odd_not_grant: "get_stream sid c \<noteq> None \<Longrightarrow> conn_inv c \<Longrightarrow> \<not> is_grant (WindowUpdate sid inc)"
proof
  assume "get_stream sid c \<noteq> None" "conn_inv c" and z: "is_grant (WindowUpdate sid inc)"
  then have "sid mod 2 = 1"
    using streams_inv_get(1) [of c sid] by (auto simp: conn_inv_def conn_core_def stream_ok_def)
  then have "odd sid" by (simp add: odd_iff_mod_2_eq_one)
  then have "odd (mask31 sid)" by (simp add: mask31_def even_and_iff)
  then show False using z by simp
qed

lemma owes_replenish: "conn_inv c \<Longrightarrow> owes n c (replenish_recv_window sid n c)"
proof -
  assume inv: "conn_inv c"
  have *: "owes n c (send_frame (WindowUpdate 0 (word_of_nat n)) c)" for c
    by (rule owes_mono [OF owes_grant]) (simp add: unat_of_nat)
  have "owes n c (send_frame (WindowUpdate 0 (word_of_nat n)) (send_frame (WindowUpdate sid inc) c))"
    if "get_stream sid c \<noteq> None" for inc
    using owes_trans [OF owes_send * ] odd_not_grant [OF that inv] by fastforce
  with * show ?thesis by (simp add: replenish_recv_window_def Let_def)
qed

lemma body_poll_debt:
  assumes "conn_inv c" and "body_poll t sid cell c = Ok (res, c')" and "live L c" and "cell \<in> L"
  shows "debt L c' \<le> debt L c"
proof -
  let ?r = "sc_recv (cn_cells c ! cell)"
  have cell: "cell < length (cn_cells c)" using assms(3,4) by (auto simp: live_def)
  then have "recv_inv ?r" by (rule conn_inv_cell [OF assms(1)])
  then obtain x n r' where r: "recv_poll t ?r = Ok (x, n, r')" "recv_inv r'" "rs_buffered ?r = n + rs_buffered r'"
    using recv_poll_inv by blast
  let ?c1 = "set_cell cell ((cn_cells c ! cell)\<lparr>sc_recv := r'\<rparr>) c"
  have c': "c' = replenish_recv_window sid n ?c1" using assms(2) r by (simp add: body_poll_def)
  have "conn_inv ?c1" using conn_inv_set_cell [OF assms(1)] r(2) cell by simp
  then have "owes n ?c1 c'" unfolding c' by (rule owes_replenish)
  moreover have "live L ?c1" using assms(3) by (simp add: live_def set_cell_def)
  ultimately have "debt L c' \<le> debt L ?c1 + n" by (simp add: owes_def)
  moreover have "debt L ?c1 + n = debt L c"
  proof -
    have fin: "finite L" using live_finite [OF assms(3)] .
    have "sum (buffered ?c1) (L - {cell}) = sum (buffered c) (L - {cell})"
      by (rule sum.cong) (auto simp: buffered_def set_cell_def)
    moreover have "buffered ?c1 cell + n = buffered c cell" using r(3) cell by (simp add: buffered_def set_cell_def)
    ultimately show ?thesis by (simp add: debt_def sum.remove [OF fin assms(4)])
  qed
  ultimately show ?thesis by simp
qed

lemma body_drop_debt:
  assumes "conn_inv c" and "live L c" and "cell \<notin> L" and "cell < length (cn_cells c)"
  shows "debt L (body_drop sid cell c) \<le> debt (insert cell L) c"
proof -
  have "owes (buffered c cell) c (body_drop sid cell c)"
    using owes_replenish [OF assms(1)] owes_trans [OF owes_replenish [OF assms(1)] owes_reset]
    by (auto simp: body_drop_def Let_def buffered_def intro: owes_mono [OF owes_reset])
  then have "debt L (body_drop sid cell c) \<le> debt L c + buffered c cell" using assms(2) by (simp add: owes_def)
  then show ?thesis using assms(3) live_finite [OF assms(2)] by (simp add: debt_def)
qed

lemma total_grant_headers: "total_grant (cn_outq (send_headers sid b es c)) = total_grant (cn_outq c)"
proof -
  have "total_grant (cn_outq (send_continuations sid b mx off c)) = total_grant (cn_outq c)" for sid b mx off c
  proof (induction sid b mx off c rule: send_continuations.induct)
    case (1 sid b mx off c)
    then show ?case by (simp add: send_continuations.simps [of sid b mx off c] Let_def)
  qed
  then show ?thesis by (simp add: send_headers_def Let_def)
qed

lemma owes_calls [simp]: "owes 0 c (snd (ping now c))" "owes 0 c (close c)"
proof -
  have "owes 0 c (send_frame (Ping False opaque) (c\<lparr>cn_ping_counter := n, cn_ping_results := rs, cn_pings := ps\<rparr>))"
    for opaque n rs ps
    by (rule owes_trans0 [OF owes_same owes_send]) simp_all
  then show "owes 0 c (snd (ping now c))" by (simp add: ping_def Let_def)
  show "owes 0 c (close c)" using owes_trans0 [OF owes_send owes_destroy(1)] by (simp add: close_def)
qed

lemma owes_pump: "pump_step t sid p c = (p', parked, c') \<Longrightarrow> owes 0 c c'"
proof (cases "(t, sid, p, c)" rule: pump_step.cases)
  case (2 t' sid' c1)
  have "owes 0 c (pump_finish sid c)"
    using owes_trans0 [OF owes_trans0 [OF owes_send owes_with_stream] owes_retire] by (simp add: pump_finish_def)
  moreover assume "pump_step t sid p c = (p', parked, c')"
  ultimately show ?thesis using 2 by auto
next
  case (4 t' sid' chunk offset chunks c1)
  have w: "owes 0 c (with_stream sid f (c\<lparr>cn_send_window := w\<rparr>))" if "lean f" for f w
    by (rule owes_trans0 [OF owes_same owes_with_stream [OF that]]) simp_all
  have "owes 0 c (park_pump t sid c)" using w by (simp add: park_pump_def Let_def)
  moreover have "owes 0 c (send_frame (Data sid d es) (with_stream sid (consume_stream n) (c\<lparr>cn_send_window := w\<rparr>)))" for d es n w
    by (rule owes_trans0 [OF w owes_send]) simp_all
  moreover assume "pump_step t sid p c = (p', parked, c')"
  ultimately show ?thesis using 4 by (auto simp: Let_def split: option.splits if_splits)
qed (auto split: if_splits)

lemma insert_stream_recv:
  "a < length (cn_cells c) \<Longrightarrow> sc_recv (cn_cells (insert_stream sid s c) ! a) = sc_recv (cn_cells c ! a)"
proof (cases "get_stream sid c")
  case (Some s')
  assume "a < length (cn_cells c)"
  then show ?thesis
    using Some by (cases "a = ss_cell s'")
      (simp_all add: insert_stream_def take_stream_def, simp_all add: set_cell_def drop_stream_def)
qed (simp add: insert_stream_def take_stream_def)

lemma owes_recv:
  assumes "length (cn_cells c) \<le> length (cn_cells c')" and "total_grant (cn_outq c') = total_grant (cn_outq c)"
    and "\<And>a. a < length (cn_cells c) \<Longrightarrow> sc_recv (cn_cells c' ! a) = sc_recv (cn_cells c ! a)"
  shows "owes 0 c c'"
proof -
  have "sum (buffered c') L = sum (buffered c) L" if "live L c" for L
    using that assms(3) by (intro sum.cong) (auto simp: live_def buffered_def)
  then show ?thesis using assms(1,2) by (simp add: owes_def debt_def)
qed

lemma request_debt:
  assumes "request up t init c = (out, c')"
  shows "owes 0 c c'" and "out = ReqOpened sid cell \<Longrightarrow> cell = length (cn_cells c) \<and> buffered c' cell = 0"
proof -
  let ?c0 = "\<lambda>n. c\<lparr>cn_next_stream_id := n, cn_cells := cn_cells c @ [cell_default]\<rparr>"
  have len: "length (cn_cells (insert_stream sid s (?c0 n))) = Suc (length (cn_cells c))" for sid s n
    by (simp add: insert_stream_def)
  have ins: "sc_recv (cn_cells (insert_stream sid s (?c0 n)) ! a) =
      (if a < length (cn_cells c) then sc_recv (cn_cells c ! a) else recv_default)" if "a \<le> length (cn_cells c)" for sid s n a
    using that by (simp add: insert_stream_recv nth_append cell_default_def)
  have "total_grant (cn_outq (insert_stream sid s (?c0 n))) = total_grant (cn_outq c)" for sid s n
    by (simp add: insert_stream_def)
  then have "owes 0 c c' \<and> (\<forall>sid cell. out = ReqOpened sid cell \<longrightarrow> cell = length (cn_cells c) \<and> buffered c' cell = 0)"
    if "open_request up init c = (out, c')"
    using that len ins
    by (auto simp: open_request_def Let_def total_grant_headers buffered_def recv_default_def intro!: owes_recv
        split: option.splits result.splits)
  moreover have "owes 0 c (c\<lparr>cn_slot_waiters := ws\<rparr>)" for ws by (rule owes_same) simp_all
  ultimately show "owes 0 c c'" "out = ReqOpened sid cell \<Longrightarrow> cell = length (cn_cells c) \<and> buffered c' cell = 0"
    using assms by (auto simp: request_def split: option.splits if_splits)
qed

subsection \<open>Runs\<close>

text \<open>The cells the application still holds: requests without a response yet and response bodies.\<close>

definition held :: "system \<Rightarrow> (u32 \<times> nat) list" where
  "held sy = sy_requests sy @ sy_bodies sy"

definition live_cells :: "system \<Rightarrow> nat set" where
  "live_cells sy = snd ` set (held sy)"

definition sys_debt :: "system \<Rightarrow> nat" where
  "sys_debt sy = total_grant (sy_written sy) + debt (live_cells sy) (sy_conn sy)"

definition event_data :: "event \<Rightarrow> system \<Rightarrow> nat" where
  "event_data ev sy = (case ev of EvRead now chunk \<Rightarrow> chunk_data chunk (sy_conn sy) | _ \<Rightarrow> 0)"

text \<open>A run of the driver together with the DATA bytes it received.\<close>

inductive credit_run :: "nat \<Rightarrow> (string \<Rightarrow> string) \<Rightarrow> connect_options \<Rightarrow> nat \<Rightarrow> system \<Rightarrow> bool"
  for W up options where
  credit_init: "credit_run W up options 0 (sys_init options)"
| credit_step: "credit_run W up options n sy \<Longrightarrow> sys_step W up ev sy = Ok sy' \<Longrightarrow>
    credit_run W up options (n + event_data ev sy) sy'"

definition credit_inv :: "system \<Rightarrow> bool" where
  "credit_inv sy \<longleftrightarrow> sys_inv sy \<and> distinct (map snd (held sy))"

lemma credit_inv_live: "credit_inv sy \<Longrightarrow> live (live_cells sy) (sy_conn sy)"
  by (auto simp: credit_inv_def sys_inv_def live_cells_def held_def live_def)

text \<open>A step that holds the same cells, or fewer, and owes at most \<open>k\<close>.\<close>

lemma sys_debt_conn:
  assumes "credit_inv sy" and "owes k (sy_conn sy) (sy_conn sy')" and "live_cells sy' \<subseteq> live_cells sy"
    and "sy_written sy' = sy_written sy"
  shows "sys_debt sy' \<le> sys_debt sy + k"
proof -
  note l = credit_inv_live [OF assms(1)]
  have "debt (live_cells sy') (sy_conn sy') \<le> debt (live_cells sy) (sy_conn sy')"
    using sum_mono2 [OF live_finite [OF l] assms(3), of "buffered (sy_conn sy')"] by (simp add: debt_def)
  also have "\<dots> \<le> debt (live_cells sy) (sy_conn sy) + k" using assms(2) l by (simp add: owes_def)
  finally show ?thesis using assms(4) by (simp add: sys_debt_def)
qed

lemma remove_nth_split:
  "i < length xs \<Longrightarrow> xs = take i xs @ xs ! i # drop (Suc i) xs \<and> remove_nth i xs = take i xs @ drop (Suc i) xs"
  by (simp add: remove_nth_def id_take_nth_drop [symmetric])

lemma set_remove_nth: "i < length xs \<Longrightarrow> set xs = insert (xs ! i) (set (remove_nth i xs))"
  using arg_cong [OF conjunct1 [OF remove_nth_split [of i xs]], of set] by (auto simp: remove_nth_def)

lemma distinct_remove_nth:
  "i < length xs \<Longrightarrow> distinct (map f xs) \<Longrightarrow> distinct (map f (remove_nth i xs)) \<and> f (xs ! i) \<notin> f ` set (remove_nth i xs)"
proof -
  assume "i < length xs" "distinct (map f xs)"
  then have "distinct (map f (take i xs @ xs ! i # drop (Suc i) xs))" and "remove_nth i xs = take i xs @ drop (Suc i) xs"
    using remove_nth_split [of i xs] by simp_all
  then show ?thesis by auto
qed

lemma held_head:
  assumes "distinct (map snd (rs @ bs))" and "i < length rs"
  shows "distinct (map snd (remove_nth i rs @ bs @ [rs ! i]))" "distinct (map snd (remove_nth i rs @ bs))"
    "snd ` set (remove_nth i rs @ bs @ [rs ! i]) = snd ` set (rs @ bs)"
    "snd ` set (remove_nth i rs @ bs) \<subseteq> snd ` set (rs @ bs)"
  using assms distinct_remove_nth [of i rs snd] set_remove_nth [of i rs] by auto

lemma credit_head:
  assumes "credit_inv sy" and "sys_step W up (EvHead i) sy = Ok sy'"
  shows "distinct (map snd (held sy')) \<and> live_cells sy' \<subseteq> live_cells sy \<and> sy_conn sy' = sy_conn sy \<and> sy_written sy' = sy_written sy"
proof (cases "i < length (sy_requests sy)")
  case True
  have "distinct (map snd (sy_requests sy @ sy_bodies sy))" using assms(1) by (simp add: credit_inv_def held_def)
  note h = held_head [OF this True]
  show ?thesis
  proof (cases "request_finish (snd (sy_requests sy ! i)) (sy_conn sy)")
    case (Ready r)
    let ?rs = "remove_nth i (sy_requests sy)"
    have "sy' = sy\<lparr>sy_requests := ?rs, sy_bodies := sy_bodies sy @ [sy_requests sy ! i]\<rparr> \<or> sy' = sy\<lparr>sy_requests := ?rs\<rparr>"
      using assms(2) True Ready by (cases r) simp_all
    then have "held sy' = ?rs @ sy_bodies sy @ [sy_requests sy ! i] \<or> held sy' = ?rs @ sy_bodies sy"
        and "sy_conn sy' = sy_conn sy \<and> sy_written sy' = sy_written sy"
      by (auto simp: held_def)
    then show ?thesis unfolding live_cells_def held_def [of sy] using h by (metis order_refl)
  qed (use assms True in \<open>auto simp: credit_inv_def\<close>)
qed (use assms in \<open>auto simp: credit_inv_def\<close>)

lemma credit_drop:
  assumes "credit_inv sy" and "i < length (sy_bodies sy)" and "sy_bodies sy ! i = (sid, cell)"
  shows "distinct (map snd (sy_requests sy @ remove_nth i (sy_bodies sy)))"
    and "live_cells sy = insert cell (snd ` set (sy_requests sy @ remove_nth i (sy_bodies sy)))"
    and "cell \<notin> snd ` set (sy_requests sy @ remove_nth i (sy_bodies sy))"
  using assms distinct_remove_nth [of i "sy_bodies sy" snd] set_remove_nth [of i "sy_bodies sy"]
  by (auto simp: credit_inv_def held_def live_cells_def)

lemma credit_request:
  assumes "credit_inv sy" and "sys_step W up (EvRequest t init) sy = Ok sy'"
  shows "distinct (map snd (held sy')) \<and> sys_debt sy' \<le> sys_debt sy"
proof -
  obtain out c where r: "request up t init (sy_conn sy) = (out, c)" by fastforce
  note d = request_debt [OF r]
  show ?thesis
  proof (cases "\<exists>sid cell. out = ReqOpened sid cell")
    case True
    then obtain sid cell where out: "out = ReqOpened sid cell" by blast
    have sy': "sy' = sy\<lparr>sy_conn := c, sy_requests := sy_requests sy @ [(sid, cell)]\<rparr>" using assms(2) r out by simp
    have new: "cell = length (cn_cells (sy_conn sy))" "buffered c cell = 0" using d(2) [OF out] by blast+
    have "cell \<notin> live_cells sy" using credit_inv_live [OF assms(1)] new(1) by (auto simp: live_def)
    moreover have "live_cells sy' = insert cell (live_cells sy)" by (auto simp: sy' live_cells_def held_def)
    ultimately have "sys_debt sy' = sys_debt (sy\<lparr>sy_conn := c\<rparr>) \<and> distinct (map snd (held sy'))"
      using assms(1) new(2) live_finite [OF credit_inv_live [OF assms(1)]]
      by (auto simp: sys_debt_def debt_def credit_inv_def held_def live_cells_def sy')
    then show ?thesis
      using sys_debt_conn [OF assms(1), of 0 "sy\<lparr>sy_conn := c\<rparr>"] d(1) by (simp add: live_cells_def held_def)
  next
    case False
    then have "sy' = sy\<lparr>sy_conn := c\<rparr>" using assms(2) r by (cases out) simp_all
    then show ?thesis
      using sys_debt_conn [OF assms(1), of 0 sy'] d(1) assms(1) by (simp add: live_cells_def held_def credit_inv_def)
  qed
qed

text \<open>Every event other than those above leaves the held cells alone.\<close>

fun keeps_held :: "event \<Rightarrow> bool" where
  "keeps_held (EvRequest t init) = False"
| "keeps_held (EvHead i) = False"
| "keeps_held (EvBodyDrop i) = False"
| "keeps_held ev = True"

lemma sys_step_held: "sys_step W up ev sy = Ok sy' \<Longrightarrow> keeps_held ev \<Longrightarrow> held sy' = held sy"
  by (cases ev) (auto simp: held_def split: if_splits prod.splits result.splits list.splits)

lemma credit_owes:
  assumes "credit_inv sy" and "sys_step W up ev sy = Ok sy'" and "owes k (sy_conn sy) (sy_conn sy')"
    and "keeps_held ev" and "sy_written sy' = sy_written sy"
  shows "sys_debt sy' \<le> sys_debt sy + k"
  using sys_debt_conn [OF assms(1,3)] sys_step_held [OF assms(2,4)] assms(5) by (simp add: live_cells_def)

lemma sys_debt_write_failed:
  assumes "credit_inv sy" and "sys_step W up EvWriteFailed sy = Ok sy'"
  shows "sys_debt sy' \<le> sys_debt sy"
proof -
  have "sys_debt (sy\<lparr>sy_conn := destroy e (sy_conn sy\<lparr>cn_outq := ms\<rparr>), sy_driving := False\<rparr>) \<le> sys_debt sy"
    if "cn_outq (sy_conn sy) = m # ms" for e m ms
  proof -
    have "owes 0 (sy_conn sy) (sy_conn sy\<lparr>cn_outq := ms\<rparr>)" by (rule owes_queue) (simp_all add: that)
    from sys_debt_conn [OF assms(1), of 0 "sy\<lparr>sy_conn := destroy e (sy_conn sy\<lparr>cn_outq := ms\<rparr>), sy_driving := False\<rparr>"]
      owes_trans0 [OF this owes_destroy(1)]
    show ?thesis by (simp add: live_cells_def held_def)
  qed
  then show ?thesis using assms(2) by (auto split: if_splits list.splits)
qed

lemma sys_debt_body_poll:
  assumes "credit_inv sy" and step: "sys_step W up (EvBodyPoll t i) sy = Ok sy'"
  shows "sys_debt sy' \<le> sys_debt sy"
proof (cases "i < length (sy_bodies sy)")
  case True
  obtain sid cell res c where b: "sy_bodies sy ! i = (sid, cell)"
      and p: "body_poll t sid cell (sy_conn sy) = Ok (res, c)" "sy' = sy\<lparr>sy_conn := c\<rparr>"
    using step True by (auto split: prod.splits result.splits)
  have "cell \<in> live_cells sy" using nth_mem [OF True] b by (force simp: live_cells_def held_def)
  then have "debt (live_cells sy) c \<le> debt (live_cells sy) (sy_conn sy)"
    using body_poll_debt [OF _ p(1) credit_inv_live [OF assms(1)]] assms(1) by (simp add: credit_inv_def sys_inv_def)
  then show ?thesis using p(2) by (simp add: sys_debt_def live_cells_def held_def)
qed (use step in simp)

lemma sys_debt_body_drop:
  assumes "credit_inv sy" and step: "sys_step W up (EvBodyDrop i) sy = Ok sy'"
  shows "distinct (map snd (held sy')) \<and> sys_debt sy' \<le> sys_debt sy"
proof (cases "i < length (sy_bodies sy)")
  case True
  obtain sid cell where b: "sy_bodies sy ! i = (sid, cell)" by fastforce
  note cd = credit_drop [OF assms(1) True b]
  have sy': "sy' = sy\<lparr>sy_conn := body_drop sid cell (sy_conn sy), sy_bodies := remove_nth i (sy_bodies sy)\<rparr>"
    using step True b by simp
  then have lc: "live_cells sy' = snd ` set (sy_requests sy @ remove_nth i (sy_bodies sy))"
    by (simp add: live_cells_def held_def)
  have "live (insert cell (live_cells sy')) (sy_conn sy)" using credit_inv_live [OF assms(1)] cd(2) lc by simp
  then have "debt (live_cells sy') (body_drop sid cell (sy_conn sy)) \<le> debt (live_cells sy) (sy_conn sy)"
    using body_drop_debt [of "sy_conn sy" "live_cells sy'" cell sid] cd(2,3) lc assms(1)
    by (simp add: live_def credit_inv_def sys_inv_def)
  moreover have "distinct (map snd (held sy'))" using cd(1) sy' by (simp add: held_def)
  ultimately show ?thesis by (simp add: sys_debt_def) (simp add: sy')
qed (use step assms(1) in \<open>simp add: credit_inv_def\<close>)

lemma sys_debt_keeps:
  assumes "credit_inv sy" and step: "sys_step W up ev sy = Ok sy'" and keeps: "keeps_held ev"
  shows "sys_debt sy' \<le> sys_debt sy + event_data ev sy"
proof -
  note ow = credit_owes [OF assms(1) step _ keeps]
  show ?thesis
  proof (cases ev)
    case (EvRead now chunk)
    obtain res c where "read_chunk W now chunk (sy_conn sy) = (res, c)" by fastforce
    moreover from this have "owes (chunk_data chunk (sy_conn sy)) (sy_conn sy) c" using owes_read_chunk by (metis snd_conv)
    ultimately show ?thesis
      using step EvRead ow [of "chunk_data chunk (sy_conn sy)"] by (cases res) (auto simp: event_data_def split: if_splits)
  next
    case EvWrite
    then show ?thesis
      using step by (auto simp: sys_debt_def debt_def live_cells_def held_def buffered_def split: if_splits list.splits)
  next
    case EvWriteFailed
    then show ?thesis using sys_debt_write_failed [OF assms(1)] step by (simp add: event_data_def)
  next
    case (EvPump t)
    then show ?thesis using step ow [of 0] owes_pump by (auto simp: event_data_def split: if_splits prod.splits)
  next
    case (EvBodyPoll t i)
    then show ?thesis using sys_debt_body_poll [OF assms(1)] step by (simp add: event_data_def)
  next
    case EvTasks
    then show ?thesis using step ow [of 0] by (auto simp: owes_same event_data_def split: if_splits)
  qed (use step keeps ow [of 0] in \<open>auto simp: event_data_def split: if_splits\<close>)
qed

lemma sys_debt_step:
  assumes "credit_inv sy" and step: "sys_step W up ev sy = Ok sy'"
  shows "distinct (map snd (held sy')) \<and> sys_debt sy' \<le> sys_debt sy + event_data ev sy"
proof (cases "keeps_held ev")
  case True
  have "distinct (map snd (held sy'))" using assms(1) sys_step_held [OF step True] by (simp add: credit_inv_def)
  with sys_debt_keeps [OF assms True] show ?thesis by simp
next
  case False
  then consider (req) t init where "ev = EvRequest t init" | (head) i where "ev = EvHead i" | (drop) i where "ev = EvBodyDrop i"
    by (cases ev) auto
  then show ?thesis
  proof cases
    case req
    then show ?thesis using credit_request [OF assms(1)] step by (simp add: event_data_def)
  next
    case head
    from credit_head [OF assms(1)] step this sys_debt_conn [OF assms(1), of 0 sy'] show ?thesis
      by (auto simp: event_data_def)
  next
    case drop
    then show ?thesis using sys_debt_body_drop [OF assms(1)] step by (simp add: event_data_def)
  qed
qed

lemma credit_run_inv: "credit_run W up options n sy \<Longrightarrow> credit_inv sy \<and> sys_debt sy \<le> sys_debt (sys_init options) + n"
proof (induction rule: credit_run.induct)
  case credit_init
  then show ?case by (simp add: credit_inv_def sys_init_inv) (simp add: held_def sys_init_def)
next
  case (credit_step n sy ev sy')
  then show ?case
    using sys_debt_step [of sy W up ev sy'] sys_step_inv [of sy W up ev] by (auto simp: credit_inv_def)
qed

subsection \<open>Main theorems\<close>

definition configured_window :: "connect_options \<Rightarrow> nat" where
  "configured_window options = unat (unwrap_or (co_connection_window_size options) 67108864)"

lemma connect_grant: "total_grant (cn_outq (connect options)) \<le> configured_window options - 65535"
proof -
  let ?w = "configured_window options"
  have pre: "grant_bytes CONNECTION_PREFACE = 0" by (simp add: grant_bytes_def CONNECTION_PREFACE_def as_bytes_def)
  have raw: "total_grant (cn_outq (write_raw CONNECTION_PREFACE c)) = total_grant (cn_outq c)" for c
    using pre by (simp add: write_raw_def)
  have inc: "unat (word_of_int (int ?w - 65535) :: u32) \<le> ?w - 65535" if "65535 < ?w"
  proof -
    have "int ?w - 65535 = int (?w - 65535)" using that by simp
    then have "unat (word_of_int (int ?w - 65535) :: u32) = unat (word_of_nat (?w - 65535) :: u32)"
      by (simp only: of_int_of_nat_eq)
    then show ?thesis by (simp add: unat_of_nat)
  qed
  have new: "total_grant (cn_outq (conn_new h m)) = 0" for h m by (simp add: conn_new_def)
  have "\<exists>c. connect options =
        (if 0 < int ?w - 65535 then send_frame (WindowUpdate 0 (word_of_int (int ?w - 65535))) c else c)
      \<and> total_grant (cn_outq c) = 0"
    unfolding connect_def Let_def configured_window_def SPEC_INITIAL_WINDOW_def
    by (intro exI conjI, rule refl) (simp add: raw new)
  then obtain c where c: "connect options =
        (if 0 < int ?w - 65535 then send_frame (WindowUpdate 0 (word_of_int (int ?w - 65535))) c else c)"
      "total_grant (cn_outq c) = 0" by blast
  show ?thesis
  proof (cases "65535 < ?w")
    case True
    show ?thesis using order_trans [OF total_grant_update [of _ c] add_left_mono [OF inc [OF True]]] True c by simp
  qed (use c in simp)
qed

text \<open>
  C13. Memory for response bodies is bounded.  In every state the driver can reach after
  receiving \<open>n\<close> bytes of DATA, the connection-level credit returned to the peer (in WINDOW\_UPDATE
  frames written or queued) and the bytes buffered for the application together are at most \<open>n\<close>
  plus the initial enlargement of the window; credit is never granted twice.  So as long as the peer
  keeps to the credit that was written to it, all buffers together hold no more than the configured
  connection window (at least the 65535 bytes every HTTP/2 connection starts with).
\<close>

theorem buffered_bytes_bounded:
  assumes "credit_run W up options n sy"
  shows "total_grant (sy_written sy) + total_grant (cn_outq (sy_conn sy)) + sum (buffered (sy_conn sy)) (live_cells sy)
      \<le> (configured_window options - 65535) + n
    \<and> (n \<le> 65535 + total_grant (sy_written sy) \<longrightarrow>
        sum (buffered (sy_conn sy)) (live_cells sy) \<le> max 65535 (configured_window options))"
proof -
  have "sys_debt (sys_init options) = total_grant (cn_outq (connect options))"
    by (simp add: sys_debt_def debt_def sys_init_def live_cells_def held_def)
  then have "sys_debt sy \<le> (configured_window options - 65535) + n"
    using credit_run_inv [OF assms] connect_grant [of options] by linarith
  then show ?thesis by (auto simp: sys_debt_def debt_def)
qed

theorem buffered_bytes_bounded_witness:
  "\<exists>sy. credit_run 64 (\<lambda>s. s) no_options 0 sy \<and> cn_closed (sy_conn sy)
     \<and> sum (buffered (sy_conn sy)) (live_cells sy) \<le> 67108864"
proof -
  let ?sy = "sys_init no_options"
  let ?sy' = "?sy\<lparr>sy_conn := close (sy_conn ?sy)\<rparr>"
  have "sys_step 64 (\<lambda>s. s) EvClose ?sy = Ok ?sy'" by simp
  from credit_run.credit_step [OF credit_run.credit_init this]
  have run: "credit_run 64 (\<lambda>s. s) no_options 0 ?sy'" by (simp add: event_data_def)
  have "cn_closed (close c)" for c by (simp add: close_def destroy_closed)
  then have closed: "cn_closed (sy_conn ?sy')" by simp
  have "configured_window no_options = 67108864" by (simp add: configured_window_def no_options_def unwrap_or_def)
  with buffered_bytes_bounded [OF run] have "sum (buffered (sy_conn ?sy')) (live_cells ?sy') \<le> 67108864" by simp
  with run closed show ?thesis by blast
qed

text \<open>
  Reading a body returns its credit.  When the application takes a chunk from the body of
  an open stream, two WINDOW\_UPDATE frames of exactly the chunk's length are queued, one for the
  stream and one for the connection, and the chunk leaves the buffer.
\<close>

theorem body_poll_returns_credit:
  assumes "conn_inv c" and "\<not> cn_closed c" and "get_stream sid c \<noteq> None" and "cell < length (cn_cells c)"
    and "rs_queue (sc_recv (cn_cells c ! cell)) = chunk # rest" and "chunk \<noteq> []"
  shows "\<exists>c'. body_poll t sid cell c = Ok (Ready (Some (Ok chunk)), c')
    \<and> cn_outq c' = cn_outq c @ map serialize_frame
        [WindowUpdate sid (word_of_nat (length chunk)), WindowUpdate 0 (word_of_nat (length chunk))]
    \<and> rs_queue (sc_recv (cn_cells c' ! cell)) = rest
    \<and> buffered c cell = length chunk + buffered c' cell"
proof -
  let ?r = "sc_recv (cn_cells c ! cell)"
  have "recv_inv ?r" by (rule conn_inv_cell [OF assms(1,4)])
  then have "length chunk \<le> rs_buffered ?r" using assms(5) by (simp add: recv_inv_def)
  moreover have "is_open c" using conn_inv_is_open [OF assms(1)] assms(2) by simp
  ultimately show ?thesis
    using assms(2-6)
    by (simp add: body_poll_def recv_poll_def replenish_recv_window_def Let_def send_frame_def write_raw_def is_open_def
        get_stream_def buffered_def set_cell_def)
qed

text \<open>A connection with one open stream that has received two bytes.\<close>

definition loaded_conn :: conn where
  "loaded_conn = on_data 1 [1, 2] False sample_conn"

lemma loaded_conn_eq:
  "loaded_conn = sample_conn\<lparr>cn_cells := [cell_default\<lparr>sc_recv := recv_default\<lparr>rs_queue := [[1, 2]], rs_buffered := 2\<rparr>\<rparr>]\<rparr>"
  by (simp add: loaded_conn_def on_data_def sample_conn_def get_stream_def with_stream_def receive_data_def take_waker_def
      cell_default_def recv_default_def Let_def sample_stream_def ss_new_def set_cell_def put_stream_def wake_def conn_new_def)

theorem body_poll_returns_credit_witness:
  "\<exists>c'. body_poll 0 1 0 loaded_conn = Ok (Ready (Some (Ok [1, 2])), c')
     \<and> cn_outq c' = map serialize_frame [WindowUpdate 1 2, WindowUpdate 0 2]"
proof -
  have inv: "conn_inv loaded_conn" unfolding loaded_conn_def by (rule on_data_inv [OF sample_conn_inv])
  have facts: "\<not> cn_closed loaded_conn" "get_stream 1 loaded_conn \<noteq> None" "0 < length (cn_cells loaded_conn)"
      "rs_queue (sc_recv (cn_cells loaded_conn ! 0)) = [1, 2] # []" "cn_outq loaded_conn = []"
    by (simp_all add: loaded_conn_eq sample_conn_def conn_new_def get_stream_def)
  from body_poll_returns_credit [OF inv facts(1-4), of 0] facts(5) show ?thesis by auto
qed

text \<open>
  Padding is never returned.  A DATA frame of six payload bytes, four of them padding, uses
  six bytes of the connection window at the peer; the client delivers its two data bytes, and once
  the application has read them the credit it returns is two.  The other four are lost to the
  connection for good.
\<close>

theorem padding_credit_lost:
  "\<exists>c1 c2. on_bytes 64 0 [0, 0, 6, 0, 8, 0, 0, 0, 1, 3, 1, 2, 0, 0, 0] sample_conn = (Ok (), c1)
     \<and> body_poll 0 1 0 c1 = Ok (Ready (Some (Ok [1, 2])), c2)
     \<and> sum (buffered c2) {0} = 0 \<and> total_grant (cn_outq c2) = 2"
proof -
  let ?bs = "[0, 0, 6, 0, 8, 0, 0, 0, 1, 3, 1, 2, 0, 0, 0] :: bytes"
  have "parse_frames 16384 ?bs = Ok ([Data 1 [1, 2] False], [])"
    by (simp add: parse_frames.simps be_length_def be_stream_id_def from_be24_def from_be32_def mask31_def
        parse_payload_def parse_data_def read_padded_def take_bytes_def reader_simps
        rmap_Some_def prepend_frame_def)
  then have "fd_push ?bs (cn_frame_decoder sample_conn) = Ok ([Data 1 [1, 2] False], cn_frame_decoder sample_conn)"
    by (simp add: fd_push_eq_spec push_spec_def sample_conn_def conn_new_def fd_new_def)
  then have "on_bytes 64 0 ?bs sample_conn = (Ok (), loaded_conn)"
    by (simp add: on_bytes_def dispatch_def loaded_conn_def) (simp add: sample_conn_def conn_new_def)
  then show ?thesis
    by (simp add: loaded_conn_eq body_poll_def recv_poll_def replenish_recv_window_def Let_def sample_conn_def conn_new_def
        get_stream_def set_cell_def send_frame_def write_raw_def buffered_def grant_bytes_update mask31_def)
qed

end
