(* ===== verification/Silence.thy ===== *)
theory Silence
  imports Credit
begin

text \<open>
  A closed connection is silent: whatever happens, nothing more is queued for the peer, and every
  call is answered with the error that closed the connection.
\<close>

definition silent :: "conn \<Rightarrow> conn \<Rightarrow> bool" where
  "silent c c' \<longleftrightarrow> (cn_closed c \<longrightarrow> cn_closed c' \<and> cn_outq c' = cn_outq c \<and> cn_close_error c' = cn_close_error c)"

lemma silent_refl [simp]: "silent c c"
  by (simp add: silent_def)

lemma silent_trans: "silent c c' \<Longrightarrow> silent c' c'' \<Longrightarrow> silent c c''"
  by (auto simp: silent_def)

lemma silentI:
  "cn_closed c' = cn_closed c \<Longrightarrow> cn_outq c' = cn_outq c \<Longrightarrow> cn_close_error c' = cn_close_error c \<Longrightarrow> silent c c'"
  by (simp add: silent_def)

lemma silent_sends: "only_sends c c' \<Longrightarrow> silent c c'"
  by (simp add: only_sends_def silent_def)

lemma silent_basic [simp]:
  "silent c (with_stream sid f c)" "silent c (take_stream sid f c)" "silent c (send_frame fr c)"
  "silent c (send_headers sid b es c)" "silent c (set_remote_closed sid c)" "silent c (retire_if_fully_closed sid c)"
  "silent c (destroy err c)" "silent c (fail_streams sids err c)" "silent c (wake_slot_waiters c)"
  by (simp_all add: silentI silent_sends) (simp add: silent_def destroy_def)

lemma silent_reset [simp]: "silent c (reset_stream sid code c)"
  unfolding reset_stream_def by (rule silent_trans [OF silent_trans [OF silent_basic(3,2)] silent_basic(9)])

lemma silent_replenish [simp]: "silent c (replenish_recv_window sid n c)"
  by (simp add: replenish_recv_window_def silent_def)

lemma silent_data [simp]: "silent c (on_data sid d es c)"
  by (simp add: silent_def on_data_def Let_def send_frame_def write_raw_def)

lemma silent_goaway [simp]: "silent c (on_goaway lsid rc c)"
  by (simp add: silent_def on_goaway_def Let_def destroy_def)

lemma silent_settings [simp]: "silent c (snd (apply_remote_settings s c))"
  by (auto simp: silent_def apply_remote_settings_def and_then_def apply_initial_window_def apply_max_frame_size_def
      apply_other_settings_def proto_err_def Let_def split: option.split prod.splits result.splits if_splits)

interpretation silent_steps: conn_steps "\<lambda>_. silent" "\<lambda>_. 0" "\<lambda>_. True"
  by unfold_locales (auto simp: on_rst_stream_def internal_def intro: silent_trans silentI)

lemma silent_calls [simp]:
  "silent c (snd (ping now c))" "silent c (close c)" "silent c (body_drop sid cell c)" "silent c (snd (request up t init c))"
proof -
  show "silent c (snd (ping now c))" "silent c (close c)" by (simp_all add: silent_def ping_def close_def)
  show "silent c (body_drop sid cell c)"
    using silent_trans [OF silent_replenish silent_reset] by (simp add: body_drop_def Let_def)
  show "silent c (snd (request up t init c))" by (simp add: silent_def request_def refuse_request_def)
qed

lemma silent_body_poll: "body_poll t sid cell c = Ok (res, c') \<Longrightarrow> silent c c'"
  using silent_replenish by (auto simp: body_poll_def silent_def replenish_recv_window_def)

lemma silent_pump: "pump_step t sid p c = (p', parked, c') \<Longrightarrow> conn_inv c \<Longrightarrow> silent c c'"
proof -
  assume p: "pump_step t sid p c = (p', parked, c')" and inv: "conn_inv c"
  have "c' = c" if "cn_closed c"
  proof -
    have "cn_streams c = []" using inv that by (simp add: conn_inv_def closed_ok_def)
    then have "get_stream sid c = None" by (simp add: get_stream_def)
    then show ?thesis
      using p by (cases "(t, sid, p, c)" rule: pump_step.cases) (auto simp: pump_finish_def split: if_splits)
  qed
  then show ?thesis by (auto simp: silent_def)
qed

text \<open>
  C14. A closed connection is silent.  From a reachable state with a closed connection every
  event leaves it closed with the same error and queues nothing: the outbound queue only drains, in
  order, and requests and pings are answered with the error of the teardown.
\<close>

theorem closed_connection_is_silent:
  assumes "reachable W up options evs sy" and "cn_closed (sy_conn sy)" and "sys_step W up ev sy = Ok sy'"
  shows "cn_closed (sy_conn sy') \<and> cn_close_error (sy_conn sy') = cn_close_error (sy_conn sy)
    \<and> (\<exists>ms. cn_outq (sy_conn sy) = ms @ cn_outq (sy_conn sy'))
    \<and> request up t init (sy_conn sy) = (ReqErr (closed_error (sy_conn sy)), sy_conn sy)
    \<and> ping now (sy_conn sy) = (Inl (closed_error (sy_conn sy)), sy_conn sy)"
proof -
  have inv: "conn_inv (sy_conn sy)" using reachable_inv [OF assms(1)] by (simp add: sys_inv_def)
  have st: "cn_closed (sy_conn sy') \<and> cn_close_error (sy_conn sy') = cn_close_error (sy_conn sy)
      \<and> (\<exists>ms. cn_outq (sy_conn sy) = ms @ cn_outq (sy_conn sy'))"
  proof (cases "silent (sy_conn sy) (sy_conn sy')")
    case True
    then show ?thesis using assms(2) by (auto simp: silent_def)
  next
    case False
    have "ev = EvWrite \<or> ev = EvWriteFailed"
    proof (cases ev)
      case (EvRead now chunk)
      have "silent (sy_conn sy) (snd (read_chunk W now chunk (sy_conn sy)))" by (rule silent_steps.R_read_chunk) (simp add: list_all_iff)
      then show ?thesis using False assms(3) EvRead by (auto split: if_splits prod.splits result.splits)
    next
      case (EvRequest t init)
      obtain out c' where r: "request up t init (sy_conn sy) = (out, c')" by fastforce
      then have "silent (sy_conn sy) c'" by (metis silent_calls(4) snd_conv)
      moreover have "sy_conn sy' = c'" using assms(3) EvRequest r by (cases out) auto
      ultimately show ?thesis using False by simp
    next
      case EvTasks
      then show ?thesis using False assms(3) by (auto simp: silentI split: if_splits)
    qed (use False assms(3) inv in \<open>auto split: if_splits prod.splits result.splits poll.splits
        dest: silent_pump silent_body_poll\<close>)
    then show ?thesis using assms(2,3) by (auto simp: destroy_def split: if_splits list.splits)
  qed
  moreover have "request up t init (sy_conn sy) = (ReqErr (closed_error (sy_conn sy)), sy_conn sy)"
    using assms(2) by (simp add: request_def refuse_request_def)
  moreover have "ping now (sy_conn sy) = (Inl (closed_error (sy_conn sy)), sy_conn sy)"
    using assms(2) by (simp add: ping_def)
  ultimately show ?thesis by blast
qed

theorem closed_connection_is_silent_witness:
  "\<exists>sy sy'. sys_step 64 (\<lambda>s. s) EvClose (sys_init no_options) = Ok sy \<and> sys_step 64 (\<lambda>s. s) EvEof sy = Ok sy'
     \<and> (\<exists>ms. cn_outq (sy_conn sy) = ms @ cn_outq (sy_conn sy'))"
proof -
  let ?sy = "(sys_init no_options)\<lparr>sy_conn := close (sy_conn (sys_init no_options))\<rparr>"
  have step: "sys_step 64 (\<lambda>s. s) EvClose (sys_init no_options) = Ok ?sy" by simp
  have run: "reachable 64 (\<lambda>s. s) no_options ([] @ [EvClose]) ?sy" by (rule reachable.reach_step [OF reachable.reach_init step])
  have "cn_closed (close c)" for c by (simp add: close_def destroy_closed)
  then have closed: "cn_closed (sy_conn ?sy)" by simp
  obtain sy' where s': "sys_step 64 (\<lambda>s. s) EvEof ?sy = Ok sy'" using sys_step_inv [OF reachable_inv [OF run]] by blast
  from closed_connection_is_silent [OF run closed s'] step s' show ?thesis by blast
qed

end
