(* ===== verification/Reading.thy ===== *)
theory Reading
  imports Silence
begin

text \<open>
  The read loop of \<open>connect\<close> over a whole transport stream.  No frame handler looks at the frame
  decoder, so the connection depends on the frames only and not on how the transport cut their
  bytes: the loop refines the dispatching of the frames.
\<close>

fun read_loop :: "nat \<Rightarrow> time \<Rightarrow> bytes list \<Rightarrow> conn \<Rightarrow> bool h2result \<times> conn" where
  "read_loop W now [] c = (Ok True, c)"
| "read_loop W now (chunk # chunks) c =
     (case read_chunk W now chunk c of
        (Ok True, c) \<Rightarrow> read_loop W now chunks c
      | r \<Rightarrow> r)"

subsection \<open>Handlers do not depend on the frame decoder\<close>

definition set_fd :: "frame_decoder \<Rightarrow> conn \<Rightarrow> conn" where
  "set_fd d c = c\<lparr>cn_frame_decoder := d\<rparr>"

lemma set_fd_fields [simp]:
  "cn_out_tx (set_fd d c) = cn_out_tx c" "cn_outq (set_fd d c) = cn_outq c" "cn_task_q (set_fd d c) = cn_task_q c"
  "cn_decoder (set_fd d c) = cn_decoder c" "cn_frame_decoder (set_fd d c) = d" "cn_streams (set_fd d c) = cn_streams c"
  "cn_send_window (set_fd d c) = cn_send_window c" "cn_remote (set_fd d c) = cn_remote c"
  "cn_pending (set_fd d c) = cn_pending c" "cn_pings (set_fd d c) = cn_pings c" "cn_closed (set_fd d c) = cn_closed c"
  "cn_slot_waiters (set_fd d c) = cn_slot_waiters c" "cn_highest_promised (set_fd d c) = cn_highest_promised c"
  "cn_cells (set_fd d c) = cn_cells c" "cn_ping_results (set_fd d c) = cn_ping_results c"
  "cn_close_error (set_fd d c) = cn_close_error c" "cn_woken (set_fd d c) = cn_woken c"
  "get_stream sid (set_fd d c) = get_stream sid c"
  by (simp_all add: set_fd_def get_stream_def)

lemma set_fd_updates [simp]:
  "(set_fd d c)\<lparr>cn_out_tx := a\<rparr> = set_fd d (c\<lparr>cn_out_tx := a\<rparr>)"
  "(set_fd d c)\<lparr>cn_outq := q\<rparr> = set_fd d (c\<lparr>cn_outq := q\<rparr>)"
  "(set_fd d c)\<lparr>cn_decoder := ht\<rparr> = set_fd d (c\<lparr>cn_decoder := ht\<rparr>)"
  "(set_fd d c)\<lparr>cn_streams := ss\<rparr> = set_fd d (c\<lparr>cn_streams := ss\<rparr>)"
  "(set_fd d c)\<lparr>cn_send_window := w\<rparr> = set_fd d (c\<lparr>cn_send_window := w\<rparr>)"
  "(set_fd d c)\<lparr>cn_remote := r\<rparr> = set_fd d (c\<lparr>cn_remote := r\<rparr>)"
  "(set_fd d c)\<lparr>cn_pending := p\<rparr> = set_fd d (c\<lparr>cn_pending := p\<rparr>)"
  "(set_fd d c)\<lparr>cn_pings := ps\<rparr> = set_fd d (c\<lparr>cn_pings := ps\<rparr>)"
  "(set_fd d c)\<lparr>cn_closed := b\<rparr> = set_fd d (c\<lparr>cn_closed := b\<rparr>)"
  "(set_fd d c)\<lparr>cn_close_error := e\<rparr> = set_fd d (c\<lparr>cn_close_error := e\<rparr>)"
  "(set_fd d c)\<lparr>cn_goaway_received := b\<rparr> = set_fd d (c\<lparr>cn_goaway_received := b\<rparr>)"
  "(set_fd d c)\<lparr>cn_slot_waiters := ts\<rparr> = set_fd d (c\<lparr>cn_slot_waiters := ts\<rparr>)"
  "(set_fd d c)\<lparr>cn_highest_promised := hp\<rparr> = set_fd d (c\<lparr>cn_highest_promised := hp\<rparr>)"
  "(set_fd d c)\<lparr>cn_cells := cs\<rparr> = set_fd d (c\<lparr>cn_cells := cs\<rparr>)"
  "(set_fd d c)\<lparr>cn_ping_results := rs\<rparr> = set_fd d (c\<lparr>cn_ping_results := rs\<rparr>)"
  "(set_fd d c)\<lparr>cn_woken := ts\<rparr> = set_fd d (c\<lparr>cn_woken := ts\<rparr>)"
  by (simp_all add: set_fd_def)

lemma set_fd_set_fd [simp]: "set_fd d (set_fd d' c) = set_fd d c" "set_fd (cn_frame_decoder c) c = c"
  by (simp_all add: set_fd_def)

lemma set_fd_steps [simp]:
  "wake ts (set_fd d c) = set_fd d (wake ts c)" "set_cell a cl (set_fd d c) = set_fd d (set_cell a cl c)"
  "put_stream sid s (set_fd d c) = set_fd d (put_stream sid s c)"
  "delete_stream sid (set_fd d c) = set_fd d (delete_stream sid c)"
  "write_raw bs (set_fd d c) = set_fd d (write_raw bs c)"
  by (simp_all add: wake_def set_cell_def put_stream_def delete_stream_def write_raw_def)

lemma set_fd_streams [simp]:
  "with_stream sid f (set_fd d c) = set_fd d (with_stream sid f c)"
  "take_stream sid f (set_fd d c) = set_fd d (take_stream sid f c)"
  "send_frame g (set_fd d c) = set_fd d (send_frame g c)"
  "wake_slot_waiters (set_fd d c) = set_fd d (wake_slot_waiters c)"
  "adjust_streams n (set_fd d c) = set_fd d (adjust_streams n c)"
  "close_conn_window (set_fd d c) = set_fd d (close_conn_window c)"
  by (simp_all add: with_stream_def take_stream_def send_frame_def wake_slot_waiters_def adjust_streams_def
      close_conn_window_def split: option.split prod.split)

lemma set_fd_fail_streams [simp]: "fail_streams sids err (set_fd d c) = set_fd d (fail_streams sids err c)"
  by (induction sids arbitrary: c) simp_all

lemma set_fd_fail_pings [simp]: "fail_pings ws err (set_fd d c) = set_fd d (fail_pings ws err c)"
  by (induction ws arbitrary: c) simp_all

lemma set_fd_ends [simp]:
  "reset_stream sid code (set_fd d c) = set_fd d (reset_stream sid code c)"
  "retire_if_fully_closed sid (set_fd d c) = set_fd d (retire_if_fully_closed sid c)"
  "set_remote_closed sid (set_fd d c) = set_fd d (set_remote_closed sid c)"
  by (simp_all add: reset_stream_def retire_if_fully_closed_def set_remote_closed_def split: option.split)

lemma set_fd_destroy [simp]:
  "destroy err (set_fd d c) = set_fd d (destroy err c)"
  "connection_error err (set_fd d c) = set_fd d (connection_error err c)"
  by (simp_all add: destroy_def connection_error_def Let_def)

lemma set_fd_handlers [simp]:
  "deliver_headers pb hs (set_fd d c) = set_fd d (deliver_headers pb hs c)"
  "on_data sid data es (set_fd d c) = set_fd d (on_data sid data es c)"
  "on_rst_stream sid code (set_fd d c) = set_fd d (on_rst_stream sid code c)"
  "on_ping now ack opaque (set_fd d c) = set_fd d (on_ping now ack opaque c)"
  "on_goaway lsid code (set_fd d c) = set_fd d (on_goaway lsid code c)"
  "apply_other_settings s (set_fd d c) = set_fd d (apply_other_settings s c)"
  by (simp_all add: deliver_headers_def on_data_def on_rst_stream_def on_ping_def on_goaway_def
      apply_other_settings_def Let_def split: header_block_kind.split option.split)

text \<open>Fallible handlers: the result is the same and the state commutes.\<close>

definition lift_fd :: "frame_decoder \<Rightarrow> 'a \<times> conn \<Rightarrow> 'a \<times> conn" where
  "lift_fd d r = (fst r, set_fd d (snd r))"

lemma lift_fd_simps [simp]: "lift_fd d (r, c) = (r, set_fd d c)"
  "lift_fd d (if b then x else y) = (if b then lift_fd d x else lift_fd d y)"
  by (simp_all add: lift_fd_def)

lemma lift_fd_and_then [simp]:
  assumes "\<And>c. f (set_fd d c) = lift_fd d (f c)"
  shows "and_then (lift_fd d m) f = lift_fd d (and_then m f)"
  using assms by (auto simp: and_then_def lift_fd_def split: prod.split result.split)

lemma set_fd_settings [simp]: "apply_remote_settings s (set_fd d c) = lift_fd d (apply_remote_settings s c)"
proof -
  have iw: "apply_initial_window iwo (set_fd d c) = lift_fd d (apply_initial_window iwo c)" for iwo c
    by (simp add: apply_initial_window_def proto_err_def Let_def split: option.split)
  have mf: "apply_max_frame_size mfs (set_fd d c) = lift_fd d (apply_max_frame_size mfs c)" for mfs c
    by (simp add: apply_max_frame_size_def proto_err_def split: option.split)
  show ?thesis by (simp add: apply_remote_settings_def iw mf)
qed

lemma set_fd_complete [simp]: "complete_header_block W (set_fd d c) = lift_fd d (complete_header_block W c)"
  by (simp add: complete_header_block_def Let_def split: option.split prod.split result.split)

lemma set_fd_guard [simp]: "guard_then_complete W eh (set_fd d c) = lift_fd d (guard_then_complete W eh c)"
proof -
  have "guard_header_block_size (set_fd d c) = lift_fd d (guard_header_block_size c)" for c
    by (simp add: guard_header_block_size_def proto_err_def split: option.split)
  then show ?thesis by (simp add: guard_then_complete_def)
qed

lemma set_fd_handle [simp]: "handle_frame W now f (set_fd d c) = lift_fd d (handle_frame W now f c)"
  by (cases f) (simp_all add: on_headers_def on_continuation_def on_push_promise_def on_window_update_def
      proto_err_def Let_def split: option.split prod.split)

lemma set_fd_dispatch: "dispatch W now f (set_fd d c) = lift_fd d (dispatch W now f c)"
  by (simp add: dispatch_def proto_err_def)

lemma set_fd_dispatch_all: "dispatch_all W now fs (set_fd d c) = lift_fd d (dispatch_all W now fs c)"
proof (induction fs arbitrary: c)
  case (Cons f fs)
  obtain r c1 where "dispatch W now f c = (r, c1)" by fastforce
  with Cons.IH show ?case by (cases r) (simp_all add: set_fd_dispatch)
qed simp

subsection \<open>The loop refines the dispatching of frames\<close>

lemma dispatch_all_closed: "cn_closed c \<Longrightarrow> cn_closed (snd (dispatch_all W now fs c))"
  using silent_steps.R_dispatch_all [of fs c W now] by (simp add: silent_def list_all_iff)

lemma dispatch_all_Cons_open:
  assumes "dispatch_all W now (f # fs) c = (Ok (), c')" "\<not> cn_closed c'"
  obtains c1 where "dispatch W now f c = (Ok (), c1)" "dispatch_all W now fs c1 = (Ok (), c')"
  using assms destroy_closed by (auto simp: connection_error_def split: prod.splits result.splits)

lemma dispatch_all_append_open:
  assumes "dispatch_all W now (fs @ gs) c = (Ok (), c')" "\<not> cn_closed c'"
  obtains c1 where "dispatch_all W now fs c = (Ok (), c1)" "dispatch_all W now gs c1 = (Ok (), c')"
  using assms
proof (induction fs arbitrary: c thesis)
  case (Cons f fs)
  from Cons.prems(2,3) obtain c1 where c1: "dispatch W now f c = (Ok (), c1)" "dispatch_all W now (fs @ gs) c1 = (Ok (), c')"
    unfolding append_Cons by (rule dispatch_all_Cons_open)
  show ?case
  proof (rule Cons.IH [OF _ c1(2) Cons.prems(3)])
    fix c2 assume "dispatch_all W now fs c1 = (Ok (), c2)" "dispatch_all W now gs c2 = (Ok (), c')"
    then show thesis using Cons.prems(1) [of c2] c1(1) by simp
  qed
qed simp

lemma on_bytes_open:
  assumes "fd_push chunk (cn_frame_decoder c) = Ok (fs, d)" "dispatch_all W now fs c = (Ok (), c')"
  shows "on_bytes W now chunk c = (Ok (), set_fd d c')"
  using assms set_fd_dispatch_all [of W now fs d c] by (simp add: on_bytes_def) (simp add: set_fd_def)

lemma read_chunk_open:
  assumes "decoder_inv (cn_frame_decoder c)" "fd_push chunk (cn_frame_decoder c) = Ok (fs, d)"
    "dispatch_all W now fs c = (Ok (), c')" "\<not> cn_closed c'"
  shows "read_chunk W now chunk c = (Ok True, set_fd d c')"
proof (cases "chunk = []")
  case True
  then have "fs = []" "d = cn_frame_decoder c" using fd.push_Nil [OF assms(1)] assms(2) by auto
  then show ?thesis using assms(3,4) True by (simp add: read_chunk_def)
qed (use on_bytes_open [OF assms(2,3)] assms(4) in \<open>simp add: read_chunk_def\<close>)

lemma read_loop_frames:
  assumes "decoder_inv (cn_frame_decoder c)" "feed_all fd_push chunks (cn_frame_decoder c) = Ok (fs, d)"
    "dispatch_all W now fs c = (Ok (), c')" "\<not> cn_closed c'"
  shows "read_loop W now chunks c = (Ok True, set_fd d c')"
  using assms
proof (induction chunks arbitrary: c c' fs)
  case (Cons chunk chunks)
  obtain xs d1 ys where x: "fd_push chunk (cn_frame_decoder c) = Ok (xs, d1)"
      and y: "feed_all fd_push chunks d1 = Ok (ys, d)" and fs: "fs = xs @ ys"
    using Cons.prems(2) by (auto simp: rbind_Ok_iff)
  obtain c1 where c1: "dispatch_all W now xs c = (Ok (), c1)" "dispatch_all W now ys c1 = (Ok (), c')"
    using Cons.prems(3,4) unfolding fs by (rule dispatch_all_append_open)
  have "\<not> cn_closed c1" using dispatch_all_closed [of c1 W now ys] c1(2) Cons.prems(4) by auto
  then have "read_chunk W now chunk c = (Ok True, set_fd d1 c1)"
    by (rule read_chunk_open [OF Cons.prems(1) x c1(1)])
  moreover have "read_loop W now chunks (set_fd d1 c1) = (Ok True, set_fd d (set_fd d1 c'))"
    by (rule Cons.IH [of _ ys "set_fd d1 c'"]) (use Cons.prems(1,4) fd.push_inv [OF _ x] y c1(2) in \<open>simp_all add: set_fd_dispatch_all\<close>)
  ultimately show ?case by simp
qed auto

text \<open>
  C28. The read loop refines frame dispatch.  If the bytes of a transport stream parse to frames whose
  dispatch leaves the connection open, then reading them in any chunks gives exactly that
  connection, with the frame decoder holding the unparsed rest: where the transport cuts its
  messages is invisible to the protocol.
\<close>

theorem read_loop_refines_dispatch:
  assumes "conn_inv c" and "fd_push (concat chunks) (cn_frame_decoder c) = Ok (fs, d)"
    and "dispatch_all W now fs c = (Ok (), c')" and "\<not> cn_closed c'"
  shows "read_loop W now chunks c = (Ok True, c'\<lparr>cn_frame_decoder := d\<rparr>)"
proof -
  have inv: "decoder_inv (cn_frame_decoder c)" using assms(1) by (simp add: conn_inv_def conn_core_def)
  have "feed_all fd_push chunks (cn_frame_decoder c) = Ok (fs, d)" using fd.feed_all_concat [OF inv] assms(2) by simp
  from read_loop_frames [OF inv this assms(3,4)] show ?thesis by (simp add: set_fd_def)
qed

theorem read_loop_refines_dispatch_witness:
  "\<exists>c'. read_loop 64 0 [take 5 (serialize_frame (Ping False [1, 2, 3, 4, 5, 6, 7, 8])),
        drop 5 (serialize_frame (Ping False [1, 2, 3, 4, 5, 6, 7, 8]))] (conn_new 4096 16384) = (Ok True, c')
     \<and> cn_outq c' = [serialize_frame (Ping True [1, 2, 3, 4, 5, 6, 7, 8])]"
proof -
  let ?p = "Ping False [1, 2, 3, 4, 5, 6, 7, 8]" and ?c = "conn_new 4096 16384"
  let ?chunks = "[take 5 (serialize_frame ?p), drop 5 (serialize_frame ?p)]"
  have "\<forall>f \<in> set [?p]. wf_frame 16384 f" by (simp add: wf_frame_def payload_length_def)
  from feed_serialized [OF this, of ?chunks] have feed: "feed_all fd_push ?chunks (fd_new 16384) = Ok ([?p], fd_new 16384)"
    by (simp del: feed_all.simps)
  have fd: "cn_frame_decoder ?c = fd_new 16384" "decoder_inv (fd_new 16384)"
    using conn_new_inv [of 4096 16384] by (simp_all add: conn_new_def conn_inv_def conn_core_def)
  have push: "fd_push (concat ?chunks) (cn_frame_decoder ?c) = Ok ([?p], fd_new 16384)"
    using fd.feed_all_concat [OF fd(2), of ?chunks] feed fd(1) by (simp del: feed_all.simps)
  have d: "dispatch_all 64 0 [?p] ?c = (Ok (), send_frame (Ping True [1, 2, 3, 4, 5, 6, 7, 8]) ?c)"
    by (simp add: dispatch_def on_ping_def) (simp add: conn_new_def)
  have "\<not> cn_closed (send_frame (Ping True [1, 2, 3, 4, 5, 6, 7, 8]) ?c)"
      "cn_outq (send_frame (Ping True [1, 2, 3, 4, 5, 6, 7, 8]) ?c) = [serialize_frame (Ping True [1, 2, 3, 4, 5, 6, 7, 8])]"
    by (simp_all add: send_frame_def write_raw_def conn_new_def)
  with read_loop_refines_dispatch [OF conn_new_inv push d] show ?thesis by (simp del: read_loop.simps)
qed

end
