(* ===== verification/Response.thy ===== *)
theory Response
  imports Silence
begin

text \<open>
  The value a request resolves to, in \<open>h2ts-client/src/connection.rs\<close>: \<open>Response\<close> with its
  accessors, \<open>bytes\<close> and \<open>text\<close>, the split into body and trailers, and the conversions that
  build a \<open>RequestBody\<close>.  A \<open>Response\<close> refers to the cell it shares with its stream by
  address, the body also to the stream by its number.
\<close>

subsection \<open>Request bodies\<close>

definition body_from_vec :: "bytes \<Rightarrow> request_body" where
  "body_from_vec v = BytesBody v"

definition body_from_string :: "string \<Rightarrow> request_body" where
  "body_from_string v = BytesBody (as_bytes v)"

definition body_stream :: "bytes list \<Rightarrow> request_body" where
  "body_stream chunks = StreamBody chunks"

subsection \<open>Responses\<close>

type_synonym response_body = "u32 \<times> nat"

record response =
  rp_status :: nat
  rp_headers :: "string \<rightharpoonup> string"
  rp_raw_headers :: "header list"
  rp_body :: response_body
  rp_trailers :: nat

text \<open>The end of \<open>request\<close>: \<open>match head_rx.await\<close>.\<close>

definition request_response :: "u32 \<Rightarrow> nat \<Rightarrow> conn \<Rightarrow> response h2result poll" where
  "request_response sid cell c =
     (case request_finish cell c of
        Pending \<Rightarrow> Pending
      | Ready (Ok h) \<Rightarrow> Ready (Ok \<lparr>rp_status = rh_status h, rp_headers = rh_headers h, rp_raw_headers = rh_raw h,
                                 rp_body = (sid, cell), rp_trailers = cell\<rparr>)
      | Ready (Err e) \<Rightarrow> Ready (Err e)
      | Ready Panic \<Rightarrow> Ready Panic)"

definition into_body :: "response \<Rightarrow> response_body" where
  "into_body r = rp_body r"

definition trailers :: "response \<Rightarrow> conn \<Rightarrow> (string \<rightharpoonup> string) option" where
  "trailers r c = response_trailers (rp_trailers r) c"

definition into_parts :: "response \<Rightarrow> response_body \<times> nat" where
  "into_parts r = (rp_body r, rp_trailers r)"

definition trailers_get :: "nat \<Rightarrow> conn \<Rightarrow> (string \<rightharpoonup> string) option" where
  "trailers_get a c = response_trailers a c"

text \<open>
  The loop of \<open>bytes\<close>, run until it returns or suspends; a suspended loop keeps what it has
  collected and is run again with it when its task is woken.  The address of a cell is always
  valid in the source; the guard makes the function total.
\<close>

datatype bytes_turn = BytesDone "bytes h2result" | BytesParked bytes

function bytes_loop :: "task \<Rightarrow> u32 \<Rightarrow> nat \<Rightarrow> bytes \<Rightarrow> conn \<Rightarrow> bytes_turn \<times> conn" where
  "bytes_loop t sid cell out c =
     (if cell < length (cn_cells c) then
        (case body_poll t sid cell c of
           Ok (Ready (Some (Ok chunk)), c') \<Rightarrow> bytes_loop t sid cell (out @ chunk) c'
         | Ok (Ready (Some (Err e)), c') \<Rightarrow> (BytesDone (Err e), c')
         | Ok (Ready None, c') \<Rightarrow> (BytesDone (Ok out), c')
         | Ok (Pending, c') \<Rightarrow> (BytesParked out, c')
         | _ \<Rightarrow> (BytesDone Panic, c))
      else (BytesDone Panic, c))"
  by pat_completeness auto

lemma body_poll_chunk:
  assumes "body_poll t sid cell c = Ok (Ready (Some (Ok chunk)), c')"
  shows "rs_queue (sc_recv (cn_cells c ! cell)) = chunk # tl (rs_queue (sc_recv (cn_cells c ! cell)))
    \<and> cn_cells c' = (cn_cells c)[cell := (cn_cells c ! cell)\<lparr>sc_recv := (sc_recv (cn_cells c ! cell))
         \<lparr>rs_queue := tl (rs_queue (sc_recv (cn_cells c ! cell))),
          rs_buffered := rs_buffered (sc_recv (cn_cells c ! cell)) - length chunk\<rparr>\<rparr>]"
  using assms by (auto simp: body_poll_def recv_poll_def set_cell_def split: list.splits option.splits if_splits)

termination bytes_loop
proof (relation "measure (\<lambda>(t, sid, cell, out, c). length (rs_queue (sc_recv (cn_cells c ! cell))))", goal_cases)
  case (2 t sid cell out c y x1 x2 x3 chunk)
  from 2 show ?case
    using body_poll_chunk [of t sid cell c]
    by (cases "rs_queue (sc_recv (cn_cells c ! cell))") (auto simp: )
qed simp

declare bytes_loop.simps [simp del]

definition response_bytes :: "task \<Rightarrow> response \<Rightarrow> conn \<Rightarrow> bytes_turn \<times> conn" where
  "response_bytes t r c = bytes_loop t (fst (rp_body r)) (snd (rp_body r)) [] c"

text \<open>\<open>text\<close> awaits \<open>bytes\<close> and decodes the result of its last turn.\<close>

fun response_text :: "bytes_turn \<Rightarrow> string h2result poll" where
  "response_text (BytesDone (Ok b)) = Ready (Ok (decode_utf8 b))"
| "response_text (BytesDone (Err e)) = Ready (Err e)"
| "response_text (BytesDone Panic) = Ready Panic"
| "response_text (BytesParked b) = Pending"

subsection \<open>What the loop returns\<close>

definition chunk_credit_frames :: "bool \<Rightarrow> u32 \<Rightarrow> bytes \<Rightarrow> frame list" where
  "chunk_credit_frames known sid chunk =
     (if known then [WindowUpdate sid (word_of_nat (length chunk))] else [])
     @ [WindowUpdate 0 (word_of_nat (length chunk))]"

definition credit_frames :: "bool \<Rightarrow> u32 \<Rightarrow> bytes list \<Rightarrow> frame list" where
  "credit_frames known sid chunks = concat (map (chunk_credit_frames known sid) chunks)"

lemma credit_frames_simps [simp]:
  "credit_frames known sid [] = []"
  "credit_frames known sid (chunk # chunks) = chunk_credit_frames known sid chunk @ credit_frames known sid chunks"
  by (simp_all add: credit_frames_def)

lemma replenish_frames:
  assumes "is_open c" "chunk \<noteq> []"
  shows "cn_outq (replenish_recv_window sid (length chunk) c)
    = cn_outq c @ map serialize_frame (chunk_credit_frames (get_stream sid c \<noteq> None) sid chunk)"
  using assms by (simp add: replenish_recv_window_def chunk_credit_frames_def Let_def is_open_def send_frame_def write_raw_def)

text \<open>What a poll finds in a buffer with no chunk left.\<close>

fun end_turn :: "bytes \<Rightarrow> recv_state \<Rightarrow> bytes_turn" where
  "end_turn out r =
     (case rs_error r of
        Some e \<Rightarrow> BytesDone (Err e)
      | None \<Rightarrow> if rs_ended r then BytesDone (Ok out) else BytesParked out)"

declare end_turn.simps [simp del]

lemma bytes_loop_chunks:
  assumes "conn_inv c" "cell < length (cn_cells c)"
  shows "\<exists>c'. bytes_loop t sid cell out c
      = (end_turn (out @ concat (rs_queue (sc_recv (cn_cells c ! cell)))) (sc_recv (cn_cells c ! cell)), c')
    \<and> conn_inv c' \<and> cn_closed c' = cn_closed c
    \<and> rs_queue (sc_recv (cn_cells c' ! cell)) = [] \<and> rs_error (sc_recv (cn_cells c' ! cell)) = None
    \<and> (\<not> cn_closed c \<longrightarrow> cn_outq c' = cn_outq c
        @ map serialize_frame (credit_frames (get_stream sid c \<noteq> None) sid (rs_queue (sc_recv (cn_cells c ! cell)))))"
  using assms
proof (induction "rs_queue (sc_recv (cn_cells c ! cell))" arbitrary: c out)
  case Nil
  obtain res c' where p: "body_poll t sid cell c = Ok (res, c')" "conn_inv c'" "length (cn_cells c') = length (cn_cells c)"
    using body_poll_inv [OF Nil(2,3)] by blast
  then show ?case
    using Nil by (auto simp: bytes_loop.simps [of t sid cell out c] end_turn.simps body_poll_def recv_poll_def set_cell_def
        replenish_recv_window_def split: option.splits if_splits)
next
  case (Cons chunk chunks)
  let ?r = "sc_recv (cn_cells c ! cell)"
  let ?c = "set_cell cell ((cn_cells c ! cell)\<lparr>sc_recv := ?r\<lparr>rs_queue := chunks, rs_buffered := rs_buffered ?r - length chunk\<rparr>\<rparr>) c"
  let ?c1 = "replenish_recv_window sid (length chunk) ?c"
  note q = Cons(2) [symmetric]
  have r: "length chunk \<le> rs_buffered ?r" "chunk \<noteq> []"
    using conn_inv_cell [OF Cons(3,4)] q by (auto simp: recv_inv_def)
  then have p: "body_poll t sid cell c = Ok (Ready (Some (Ok chunk)), ?c1)"
    using q by (simp add: body_poll_def recv_poll_def)
  then have i: "conn_inv ?c1" using body_poll_inv [OF Cons(3,4), of t sid] by auto
  have cells: "cn_cells ?c1 = cn_cells ?c" and l: "cell < length (cn_cells ?c1)" using Cons(4) by (simp_all add: set_cell_def)
  have r1: "rs_queue (sc_recv (cn_cells ?c1 ! cell)) = chunks" "end_turn b (sc_recv (cn_cells ?c1 ! cell)) = end_turn b ?r" for b
    using Cons(4) by (simp_all add: cells set_cell_def end_turn.simps)
  have g: "get_stream sid ?c1 = get_stream sid c" by (simp add: get_stream_def set_cell_def)
  have o: "cn_outq ?c1 = cn_outq c @ map serialize_frame (chunk_credit_frames (get_stream sid c \<noteq> None) sid chunk)"
    if "\<not> cn_closed c"
    using replenish_frames [of ?c chunk sid] conn_inv_is_open [OF Cons(3)] that r(2)
    by (simp add: is_open_def get_stream_def set_cell_def)
  have "bytes_loop t sid cell out c = bytes_loop t sid cell (out @ chunk) ?c1"
    using p Cons(4) by (simp add: bytes_loop.simps [of t sid cell out c])
  moreover have "cn_closed ?c1 = cn_closed c" by simp
  moreover note Cons(1) [OF r1(1) [symmetric] i l, of "out @ chunk", unfolded r1 g]
  ultimately show ?case using q o by auto
qed

text \<open>
  The turns of one call of \<open>bytes\<close>: each finds the connection as everything else that happened
  since the last one has left it.
\<close>

fun bytes_turns :: "task \<Rightarrow> u32 \<Rightarrow> nat \<Rightarrow> conn list \<Rightarrow> bytes \<Rightarrow> bytes_turn" where
  "bytes_turns t sid cell [] out = BytesParked out"
| "bytes_turns t sid cell (c # cs) out =
     (case fst (bytes_loop t sid cell out c) of
        BytesParked out' \<Rightarrow> bytes_turns t sid cell cs out'
      | r \<Rightarrow> r)"

definition recv_of :: "nat \<Rightarrow> conn \<Rightarrow> recv_state" where
  "recv_of cell c = sc_recv (cn_cells c ! cell)"

lemma bytes_turns_result:
  "list_all (\<lambda>c. conn_inv c \<and> cell < length (cn_cells c)) cs \<Longrightarrow>
   bytes_turns t sid cell cs out = BytesDone r \<Longrightarrow>
   \<exists>n < length cs. list_all (\<lambda>c. rs_error (recv_of cell c) = None \<and> \<not> rs_ended (recv_of cell c)) (take n cs)
     \<and> (case rs_error (recv_of cell (cs ! n)) of
          Some e \<Rightarrow> r = Err e
        | None \<Rightarrow> rs_ended (recv_of cell (cs ! n))
            \<and> r = Ok (out @ concat (map (\<lambda>c. concat (rs_queue (recv_of cell c))) (take (Suc n) cs))))"
proof (induction cs arbitrary: out)
  case (Cons c cs)
  let ?r = "recv_of cell c"
  have turn: "fst (bytes_loop t sid cell out c) = end_turn (out @ concat (rs_queue ?r)) ?r"
    using bytes_loop_chunks [of c cell t sid out] Cons.prems(1) by (auto simp: recv_of_def)
  show ?case
  proof (cases "rs_error ?r = None \<and> \<not> rs_ended ?r")
    case True
    then have "bytes_turns t sid cell cs (out @ concat (rs_queue ?r)) = BytesDone r"
      using Cons.prems(2) turn by (simp add: end_turn.simps)
    from Cons.IH [OF _ this] obtain n where n: "n < length cs"
        "list_all (\<lambda>c. rs_error (recv_of cell c) = None \<and> \<not> rs_ended (recv_of cell c)) (take n cs)"
        "case rs_error (recv_of cell (cs ! n)) of Some e \<Rightarrow> r = Err e | None \<Rightarrow> rs_ended (recv_of cell (cs ! n))
            \<and> r = Ok ((out @ concat (rs_queue ?r)) @ concat (map (\<lambda>c. concat (rs_queue (recv_of cell c))) (take (Suc n) cs)))"
      using Cons.prems(1) by auto
    then show ?thesis using True by (intro exI [of _ "Suc n"]) (auto split: option.splits)
  next
    case False
    then show ?thesis using Cons.prems(2) turn by (intro exI [of _ 0]) (auto simp: end_turn.simps split: option.splits if_splits)
  qed
qed simp

text \<open>
  C27. A body read with \<open>bytes\<close> is never truncated.  Whatever happens to the connection between the
  turns of the loop, a call that returns does so at the first turn that finds the stream ended or
  failed: with the error, if the stream failed, and otherwise with every chunk that was buffered at
  any turn, in order.
\<close>

theorem response_bytes_never_truncated:
  assumes "list_all (\<lambda>c. conn_inv c \<and> cell < length (cn_cells c)) cs"
    and "bytes_turns t sid cell cs [] = BytesDone r"
  shows "\<exists>n < length cs. list_all (\<lambda>c. rs_error (recv_of cell c) = None \<and> \<not> rs_ended (recv_of cell c)) (take n cs)
     \<and> (case rs_error (recv_of cell (cs ! n)) of
          Some e \<Rightarrow> r = Err e
        | None \<Rightarrow> rs_ended (recv_of cell (cs ! n))
            \<and> r = Ok (concat (map (\<lambda>c. concat (rs_queue (recv_of cell c))) (take (Suc n) cs))))"
  using bytes_turns_result [OF assms] by (simp only: append_Nil)

text \<open>A connection whose stream has received two bytes and then its end.\<close>

definition ended_conn :: conn where
  "ended_conn = set_cell 0 (cell_default\<lparr>sc_recv := recv_default\<lparr>rs_queue := [[3]], rs_buffered := 1, rs_ended := True\<rparr>\<rparr>) sample_conn"

lemma ended_conn_inv [simp]: "conn_inv ended_conn"
  unfolding ended_conn_def by (rule conn_inv_set_cell) (simp_all add: recv_inv_def)

theorem response_bytes_never_truncated_witness:
  "bytes_turns 0 1 0 [loaded_conn, ended_conn] [] = BytesDone (Ok [1, 2, 3])
     \<and> (\<exists>n < 2. rs_ended (recv_of 0 ([loaded_conn, ended_conn] ! n)))"
proof -
  have loaded: "conn_inv loaded_conn" unfolding loaded_conn_def by (rule on_data_inv [OF sample_conn_inv])
  have recv: "recv_of 0 loaded_conn = recv_default\<lparr>rs_queue := [[1, 2]], rs_buffered := 2\<rparr>"
      "recv_of 0 ended_conn = recv_default\<lparr>rs_queue := [[3]], rs_buffered := 1, rs_ended := True\<rparr>"
    by (simp_all add: recv_of_def loaded_conn_eq ended_conn_def set_cell_def sample_conn_def cell_default_def)
  have "length (cn_cells loaded_conn) = 1" "length (cn_cells ended_conn) = 1"
    by (simp_all add: loaded_conn_eq ended_conn_def set_cell_def sample_conn_def)
  then have all: "list_all (\<lambda>c. conn_inv c \<and> 0 < length (cn_cells c)) [loaded_conn, ended_conn]"
    using loaded by auto
  obtain c1 c2 where "bytes_loop 0 1 0 [] loaded_conn = (BytesParked [1, 2], c1)"
      "bytes_loop 0 1 0 [1, 2] ended_conn = (BytesDone (Ok [1, 2, 3]), c2)"
    using bytes_loop_chunks [of loaded_conn 0 0 1 "[]"] bytes_loop_chunks [of ended_conn 0 0 1 "[1, 2]"] all
    by (auto simp: recv [unfolded recv_of_def] end_turn.simps recv_default_def)
  then have run: "bytes_turns 0 1 0 [loaded_conn, ended_conn] [] = BytesDone (Ok [1, 2, 3])" by simp
  from response_bytes_never_truncated [OF all run] have "\<exists>n < 2. rs_ended (recv_of 0 ([loaded_conn, ended_conn] ! n))"
    unfolding length_Cons list.size(3) numeral_2_eq_2 by (auto simp del: take_Suc_Cons split: option.splits)
  with run show ?thesis by blast
qed

end
