(* ===== verification/Upload.thy ===== *)
theory Upload
  imports Silence
begin

text \<open>
  One poll of \<open>pump_body\<close> of \<open>h2ts-client/src/connection.rs\<close>: the driver runs the pump until it
  finishes or parks.  The loop of \<open>pump_chunk\<close> retries when a grant is not positive, so that it
  returns at all is a theorem: on every connection that keeps its invariant each retry makes
  progress.
\<close>

partial_function (option) pump_poll :: "task \<Rightarrow> u32 \<Rightarrow> pump \<Rightarrow> conn \<Rightarrow> (pump \<times> conn) option" where
  "pump_poll t sid p c =
     (if p = PumpDone then Some (p, c)
      else case pump_step t sid p c of (p', parked, c') \<Rightarrow>
        if parked then Some (p', c') else pump_poll t sid p' c')"

lemma pump_poll_done [simp]: "pump_poll t sid PumpDone c = Some (PumpDone, c)"
  by (simp add: pump_poll.simps)

lemma pump_poll_parked:
  "p \<noteq> PumpDone \<Longrightarrow> pump_step t sid p c = (p', True, c') \<Longrightarrow> pump_poll t sid p c = Some (p', c')"
  by (simp add: pump_poll.simps [of t sid p c])

lemma pump_poll_step:
  "p \<noteq> PumpDone \<Longrightarrow> pump_step t sid p c = (p', False, c') \<Longrightarrow> pump_poll t sid p c = pump_poll t sid p' c'"
  by (simp add: pump_poll.simps [of t sid p c])

subsection \<open>The variant\<close>

fun chunks_work :: "bytes list \<Rightarrow> nat" where
  "chunks_work [] = 1"
| "chunks_work (chunk # chunks) = length chunk + 2 + chunks_work chunks"

fun pump_work :: "pump \<Rightarrow> nat" where
  "pump_work (PumpNext chunks) = chunks_work chunks"
| "pump_work (PumpChunk chunk offset chunks) = (length chunk - offset) + 1 + chunks_work chunks"
| "pump_work PumpDone = 0"

lemma chunks_work_pos [simp]: "0 < chunks_work chunks"
  by (cases chunks) simp_all

lemma pump_grant_pos:
  assumes "conn_inv c" "\<not> cn_closed c" "offset < length chunk" "sw_is_ready (cn_send_window c)"
    "sw_is_ready (ss_send_window s)" "\<not> sw_closed (ss_send_window s)"
  shows "0 < pump_grant chunk offset s c"
proof -
  have "\<not> sw_closed (cn_send_window c)" using assms(1,2) by (simp add: conn_inv_def closed_ok_def)
  moreover have "0 < rm_max_frame_size (cn_remote c)" using conn_inv_remote_ok [OF assms(1)] by (simp add: remote_ok_def)
  ultimately show ?thesis using assms(3-6) by (simp add: pump_grant_def sw_is_ready_def)
qed

lemma pump_step_work:
  assumes "conn_inv c" "p \<noteq> PumpDone" "pump_step t sid p c = (p', False, c')"
  shows "pump_work p' < pump_work p"
  using assms(2,3)
proof (cases "(t, sid, p, c)" rule: pump_step.cases)
  case (4 t' sid' chunk offset chunks c1)
  show ?thesis
  proof (cases "get_stream sid c")
    case (Some s)
    let ?g = "pump_grant chunk offset s c"
    have "?g \<le> int (length chunk - offset)" by (simp add: pump_grant_def)
    then show ?thesis
      using assms(3) 4 Some pump_grant_pos [OF assms(1), of offset chunk s]
      by (auto simp: Let_def split: if_splits)
  qed (use assms 4 in \<open>auto split: if_splits\<close>)
qed (auto split: if_splits)

text \<open>A parked pump has a window to wait for and has left its task with it.\<close>

definition pump_waits :: "task \<Rightarrow> u32 \<Rightarrow> pump \<Rightarrow> conn \<Rightarrow> bool" where
  "pump_waits t sid p c \<longleftrightarrow> \<not> cn_closed c \<and> (\<exists>chunk offset chunks s. p = PumpChunk chunk offset chunks \<and> offset < length chunk
     \<and> get_stream sid c = Some s
     \<and> (\<not> sw_is_ready (cn_send_window c) \<or> \<not> sw_is_ready (ss_send_window s))
     \<and> (\<not> sw_is_ready (cn_send_window c) \<longrightarrow> t \<in> set (sw_wakers (cn_send_window c)))
     \<and> (\<not> sw_is_ready (ss_send_window s) \<longrightarrow> t \<in> set (sw_wakers (ss_send_window s))))"

lemma park_pump_waits:
  assumes "get_stream sid c = Some s" "\<not> cn_closed c" "offset < length chunk"
    "\<not> (sw_is_ready (cn_send_window c) \<and> sw_is_ready (ss_send_window s))"
  shows "pump_waits t sid (PumpChunk chunk offset chunks) (park_pump t sid c)"
proof -
  let ?w = "if \<not> sw_is_ready (ss_send_window s) then s\<lparr>ss_send_window := sw_register_waker t (ss_send_window s)\<rparr> else s"
  have "get_stream sid (park_pump t sid c) = Some ?w"
    unfolding park_pump_def Let_def by (rule get_with_stream) (use assms(1) in \<open>auto simp: get_stream_def\<close>)
  moreover have "cn_send_window (park_pump t sid c) = (if \<not> sw_is_ready (cn_send_window c)
      then sw_register_waker t (cn_send_window c) else cn_send_window c)" "cn_closed (park_pump t sid c) = cn_closed c"
    by (simp_all add: park_pump_def Let_def)
  moreover have "sw_is_ready (sw_register_waker t w) = sw_is_ready w" "t \<in> set (sw_wakers (sw_register_waker t w))" for w
    by (simp_all add: sw_is_ready_def sw_register_waker_def)
  ultimately show ?thesis using assms(2-4) by (auto simp: pump_waits_def)
qed

lemma pump_step_waits:
  assumes "p \<noteq> PumpDone" "pump_step t sid p c = (p', True, c')"
  shows "pump_waits t sid p' c'"
  using assms
proof (cases "(t, sid, p, c)" rule: pump_step.cases)
  case (4 t' sid' chunk offset chunks c1)
  then show ?thesis using assms park_pump_waits by (auto simp: Let_def split: if_splits option.splits)
qed (auto split: if_splits)

text \<open>
  C25. A poll of an upload always returns.  On a connection that keeps its invariant the pump never
  spins: every retry of its loop sends something or moves on, so the poll ends, with the upload
  finished or given up, or parked on a window that is not ready and that will wake it.
\<close>

theorem pump_poll_returns:
  assumes "conn_inv c"
  shows "\<exists>p' c'. pump_poll t sid p c = Some (p', c') \<and> conn_inv c' \<and> (p' = PumpDone \<or> pump_waits t sid p' c')"
  using assms
proof (induction "pump_work p" arbitrary: p c rule: less_induct)
  case less
  obtain p1 parked c1 where s: "pump_step t sid p c = (p1, parked, c1)" by (metis prod_cases3)
  have inv: "conn_inv c1" using pump_step_inv [OF less.prems s] by simp
  show ?case
  proof (cases "p = PumpDone")
    case False
    show ?thesis
    proof (cases parked)
      case True
      then show ?thesis using pump_poll_parked [OF False] pump_step_waits [OF False] s inv by auto
    next
      case no: False
      then show ?thesis
        using less.hyps [OF pump_step_work [OF less.prems False] inv] pump_poll_step [OF False] s by simp
    qed
  qed (use less.prems in simp)
qed

theorem pump_poll_returns_witness:
  "\<exists>p' c'. pump_poll 0 1 (PumpNext [[1, 2, 3]]) sample_conn = Some (p', c') \<and> (p' = PumpDone \<or> pump_waits 0 1 p' c')"
  using pump_poll_returns [OF sample_conn_inv, of 0 1 "PumpNext [[1, 2, 3]]"] by blast

subsection \<open>Uploads with enough window\<close>

definition data_frames :: "u32 \<Rightarrow> bytes list \<Rightarrow> frame list" where
  "data_frames sid ds = map (\<lambda>d. Data sid d False) ds"

text \<open>The pump of stream \<open>sid\<close> may send everything it has without waiting.\<close>

definition may_send_all :: "u32 \<Rightarrow> pump \<Rightarrow> conn \<Rightarrow> bool" where
  "may_send_all sid p c \<longleftrightarrow> \<not> cn_closed c \<and> (\<exists>s. get_stream sid c = Some s \<and> \<not> sw_closed (ss_send_window s)
     \<and> int (length (pump_rest p)) \<le> sw_available (cn_send_window c) \<and> int (length (pump_rest p)) \<le> sw_available (ss_send_window s))"

lemma pump_step_chunk:
  assumes "conn_inv c" "may_send_all sid (PumpChunk chunk offset chunks) c" "offset < length chunk"
  obtains n c' where "pump_step t sid (PumpChunk chunk offset chunks) c = (PumpChunk chunk (offset + n) chunks, False, c')"
    "0 < n" "offset + n \<le> length chunk" "n \<le> rm_max_frame_size (cn_remote c)" "cn_remote c' = cn_remote c"
    "cn_outq c' = cn_outq c @ [serialize_frame (Data sid (take n (drop offset chunk)) False)]"
    "may_send_all sid (PumpChunk chunk (offset + n) chunks) c'"
proof -
  obtain s where s: "\<not> cn_closed c" "get_stream sid c = Some s" "\<not> sw_closed (ss_send_window s)"
      and w: "int (length (drop offset chunk @ concat chunks)) \<le> sw_available (cn_send_window c)"
        "int (length (drop offset chunk @ concat chunks)) \<le> sw_available (ss_send_window s)"
    using assms(2) by (auto simp: may_send_all_def)
  let ?g = "pump_grant chunk offset s c"
  have ready: "sw_is_ready (cn_send_window c)" "sw_is_ready (ss_send_window s)"
    using w assms(3) by (simp_all add: sw_is_ready_def)
  have g: "0 < ?g" by (rule pump_grant_pos [OF assms(1) s(1) assms(3) ready s(3)])
  have le: "?g \<le> int (length chunk - offset)" "?g \<le> int (rm_max_frame_size (cn_remote c))" by (simp_all add: pump_grant_def)
  let ?n = "nat ?g"
  have slice: "range_slice chunk offset (offset + ?n) = take ?n (drop offset chunk)" by (simp add: range_slice_def)
  have opn: "is_open c" using conn_inv_is_open [OF assms(1)] s(1) by simp
  note sent = pump_sent_effect [OF opn s(2), of "take ?n (drop offset chunk)" ?g]
  show thesis
  proof (rule that)
    show "pump_step t sid (PumpChunk chunk offset chunks) c
        = (PumpChunk chunk (offset + ?n) chunks, False, pump_sent sid (take ?n (drop offset chunk)) ?g c)"
      using s ready g assms(3) by (simp add: Let_def pump_sent_def slice)
    show "may_send_all sid (PumpChunk chunk (offset + ?n) chunks) (pump_sent sid (take ?n (drop offset chunk)) ?g c)"
      using s w g le sent by (auto simp: may_send_all_def)
  qed (use g le assms(3) sent in auto)
qed

lemma pump_poll_sends:
  assumes "conn_inv c" "may_send_all sid p c" "p \<noteq> PumpDone"
  shows "\<exists>c' ds. pump_poll t sid p c = Some (PumpDone, pump_finish sid c') \<and> conn_inv c' \<and> \<not> cn_closed c' \<and> get_stream sid c' \<noteq> None
    \<and> cn_outq c' = cn_outq c @ map serialize_frame (data_frames sid ds) \<and> concat ds = pump_rest p
    \<and> list_all (\<lambda>d. d \<noteq> [] \<and> length d \<le> rm_max_frame_size (cn_remote c)) ds"
  using assms
proof (induction "pump_work p" arbitrary: p c rule: less_induct)
  case less
  have skip: ?case if "pump_step t sid p c = (p', False, c)" "pump_rest p' = pump_rest p" "p' \<noteq> PumpDone" for p'
  proof -
    have "may_send_all sid p' c" using less.prems(2) that(2) by (simp add: may_send_all_def)
    from less.hyps [OF pump_step_work [OF less.prems(1,3) that(1)] less.prems(1) this that(3)] show ?thesis
      using pump_poll_step [OF less.prems(3) that(1)] that(2) by simp
  qed
  consider "p = PumpNext []" | chunk chunks where "p = PumpNext (chunk # chunks)"
    | chunk offset chunks where "p = PumpChunk chunk offset chunks"
    using less.prems(3) by (metis list.exhaust pump.exhaust)
  then show ?case
  proof cases
    case 1
    then have "pump_poll t sid p c = Some (PumpDone, pump_finish sid c)" using pump_poll_step [of p t sid c PumpDone] by simp
    then show ?thesis
      using less.prems(1,2) 1 by (intro exI [of _ c] exI [of _ "[]"]) (auto simp: may_send_all_def data_frames_def)
  next
    case 2
    then show ?thesis by (intro skip [of "if chunk = [] then PumpNext chunks else PumpChunk chunk 0 chunks"]) simp_all
  next
    case 3
    show ?thesis
    proof (cases "offset < length chunk")
      case True
      obtain n c1 where s: "pump_step t sid p c = (PumpChunk chunk (offset + n) chunks, False, c1)"
          and n: "0 < n" "offset + n \<le> length chunk" "n \<le> rm_max_frame_size (cn_remote c)" and r: "cn_remote c1 = cn_remote c"
          and o: "cn_outq c1 = cn_outq c @ [serialize_frame (Data sid (take n (drop offset chunk)) False)]"
          and m: "may_send_all sid (PumpChunk chunk (offset + n) chunks) c1"
        using pump_step_chunk [OF less.prems(1) _ True, of sid chunks t] less.prems(2) unfolding 3 by blast
      have "conn_inv c1" using pump_step_inv [OF less.prems(1) s] by simp
      from less.hyps [OF pump_step_work [OF less.prems(1,3) s] this m] obtain c2 ds where
        c2: "pump_poll t sid (PumpChunk chunk (offset + n) chunks) c1 = Some (PumpDone, pump_finish sid c2)" "conn_inv c2"
          "\<not> cn_closed c2" "get_stream sid c2 \<noteq> None" "cn_outq c2 = cn_outq c1 @ map serialize_frame (data_frames sid ds)"
          "concat ds = drop (offset + n) chunk @ concat chunks" "list_all (\<lambda>d. d \<noteq> [] \<and> length d \<le> rm_max_frame_size (cn_remote c)) ds"
        unfolding r by auto
      have "take n (drop offset chunk) @ drop (offset + n) chunk = drop offset chunk"
        by (metis add.commute append_take_drop_id drop_drop)
      then have "concat (take n (drop offset chunk) # ds) = pump_rest p" using c2(6) by (simp add: 3)
      moreover have "take n (drop offset chunk) \<noteq> []" using n(1,2) by simp
      ultimately show ?thesis
        using c2 o n pump_poll_step [OF less.prems(3) s]
        by (intro exI [of _ c2] exI [of _ "take n (drop offset chunk) # ds"]) (simp add: data_frames_def)
    next
      case False
      then show ?thesis by (intro skip [of "PumpNext chunks"]) (simp_all add: 3)
    qed
  qed
qed

text \<open>
  C26. An upload with enough window completes at once.  When the connection window and the stream window
  cover what a body still has to send, one poll of its pump sends all of it, in order, in
  non-empty DATA frames of at most the peer's maximum frame size, and half-closes the stream.
\<close>

theorem pump_poll_completes_upload:
  assumes "conn_inv c" and "may_send_all sid (pump_start body) c" and "\<not> body_is_empty body"
  shows "\<exists>c' ds. pump_poll t sid (pump_start body) c = Some (PumpDone, c')
    \<and> cn_outq c' = cn_outq c @ map serialize_frame (data_frames sid ds @ [Data sid [] True])
    \<and> concat ds = (case body of EmptyBody \<Rightarrow> [] | BytesBody b \<Rightarrow> b | StreamBody chunks \<Rightarrow> concat chunks)
    \<and> list_all (\<lambda>d. d \<noteq> [] \<and> length d \<le> rm_max_frame_size (cn_remote c)) ds"
proof -
  have "pump_start body \<noteq> PumpDone" using assms(3) by (cases body) simp_all
  from pump_poll_sends [OF assms(1,2) this, of t] obtain c1 ds where
    c1: "pump_poll t sid (pump_start body) c = Some (PumpDone, pump_finish sid c1)" "conn_inv c1" "\<not> cn_closed c1"
      "get_stream sid c1 \<noteq> None" "cn_outq c1 = cn_outq c @ map serialize_frame (data_frames sid ds)"
      "concat ds = pump_rest (pump_start body)" "list_all (\<lambda>d. d \<noteq> [] \<and> length d \<le> rm_max_frame_size (cn_remote c)) ds"
    by blast
  have "is_open c1" using conn_inv_is_open [OF c1(2)] c1(3) by simp
  then have "cn_outq (pump_finish sid c1) = cn_outq c1 @ [serialize_frame (Data sid [] True)]"
    using c1(4) by (simp add: pump_finish_def send_frame_def write_raw_def is_open_def)
  moreover have "pump_rest (pump_start body)
      = (case body of EmptyBody \<Rightarrow> [] | BytesBody b \<Rightarrow> b | StreamBody chunks \<Rightarrow> concat chunks)"
    by (cases body) simp_all
  ultimately show ?thesis using c1(1,5,6,7) by (intro exI [of _ "pump_finish sid c1"] exI [of _ ds]) simp
qed

theorem pump_poll_completes_upload_witness:
  "\<exists>c' ds. pump_poll 0 1 (pump_start (BytesBody [1, 2, 3])) sample_conn = Some (PumpDone, c') \<and> concat ds = [1, 2, 3]
     \<and> cn_outq c' = map serialize_frame (data_frames 1 ds @ [Data 1 [] True])"
proof -
  have "may_send_all 1 (pump_start (BytesBody [1, 2, 3])) sample_conn" "cn_outq sample_conn = []"
    by (simp_all add: may_send_all_def sample_conn_def conn_new_def get_stream_def sample_stream_def ss_new_def SPEC_INITIAL_WINDOW_def)
  with pump_poll_completes_upload [OF sample_conn_inv, of 1 "BytesBody [1, 2, 3]" 0] show ?thesis by fastforce
qed

end
