(* ===== verification/Exchange.thy ===== *)
theory Exchange
  imports Reading Response Upload
begin

text \<open>
  A whole exchange, composed from the encoder, the frame codec, the connection and the response:
  the bytes a request queues are read back by a peer as the headers of the request, and the bytes
  of a response, cut by the transport as it likes, reach the caller as head, body and trailers.
\<close>

subsection \<open>Header blocks in flight\<close>

definition deliver_response :: "u32 \<Rightarrow> header list \<Rightarrow> bool \<Rightarrow> conn \<Rightarrow> conn" where
  "deliver_response sid hs es c =
     deliver_headers \<lparr>pb_stream_id = sid, pb_kind = ResponseBlock, pb_end_stream = es,
        pb_promised_stream_id = None, pb_fragments = [], pb_size = 0\<rparr> hs c"

lemma deliver_headers_response:
  "pb_kind pb = ResponseBlock \<Longrightarrow> pb_stream_id pb = sid \<Longrightarrow> pb_end_stream pb = es \<Longrightarrow>
   deliver_headers pb hs c = deliver_response sid hs es c"
  by (simp add: deliver_response_def deliver_headers_def Let_def)

lemma complete_response_block:
  assumes "cn_pending c = Some pb" "pb_kind pb = ResponseBlock" "pb_stream_id pb = sid" "pb_end_stream pb = es"
    "hpack_decode W (concat (pb_fragments pb)) (cn_decoder c) = (Ok hs, d)"
  shows "complete_header_block W c = (Ok (), deliver_response sid hs es (c\<lparr>cn_pending := None, cn_decoder := d\<rparr>))"
proof -
  have "(if length (pb_fragments pb) = 1 then pb_fragments pb ! 0 else concat (pb_fragments pb)) = concat (pb_fragments pb)"
    by (cases "pb_fragments pb") auto
  then show ?thesis
    using assms deliver_headers_response [OF assms(2-4)] by (simp add: complete_header_block_def)
qed

lemma dispatch_continuations:
  assumes "0 < mx" "rest \<noteq> []" "cn_pending c = Some pb" "pb_kind pb = ResponseBlock" "pb_stream_id pb = sid"
    "pb_end_stream pb = es" "block_sized pb" "concat (pb_fragments pb) @ rest = block"
    "length block \<le> MAX_HEADER_BLOCK_SIZE" "hpack_decode W block (cn_decoder c) = (Ok hs, d)"
  shows "dispatch_all W now (continuation_frames sid rest mx) c
    = (Ok (), deliver_response sid hs es (c\<lparr>cn_pending := None, cn_decoder := d\<rparr>))"
  using assms(2-10)
proof (induction "length rest" arbitrary: rest c pb rule: less_induct)
  case less
  let ?frag = "take mx rest"
  let ?pb = "pb\<lparr>pb_size := pb_size pb + length ?frag, pb_fragments := pb_fragments pb @ [?frag]\<rparr>"
  let ?c = "c\<lparr>cn_pending := Some ?pb\<rparr>"
  have frames: "continuation_frames sid rest mx =
      Continuation sid ?frag (length rest \<le> mx) # continuation_frames sid (drop mx rest) mx"
    using assms(1) less.prems(1) by (simp add: continuation_frames.simps [of sid rest])
  have sized: "block_sized ?pb" using less.prems(6) by (simp add: block_sized_def)
  have "length (concat (pb_fragments pb)) + length ?frag \<le> MAX_HEADER_BLOCK_SIZE"
    using less.prems(7,8) by auto
  then have size: "pb_size pb + length ?frag \<le> MAX_HEADER_BLOCK_SIZE"
    using less.prems(6) by (simp add: block_sized_def length_concat)
  have d: "dispatch W now (Continuation sid ?frag e) c = (if e then complete_header_block W ?c else (Ok (), ?c))" for e
    using less.prems(2,4) size
    by (simp add: dispatch_def on_continuation_def guard_then_complete_def guard_header_block_size_def and_then_def)
  show ?case
  proof (cases "length rest \<le> mx")
    case True
    then have "complete_header_block W ?c = (Ok (), deliver_response sid hs es (?c\<lparr>cn_pending := None, cn_decoder := d\<rparr>))"
      by (intro complete_response_block [where pb = ?pb]) (use True less.prems in auto)
    then show ?thesis using frames True d by (simp add: continuation_frames.simps)
  next
    case False
    have "dispatch_all W now (continuation_frames sid (drop mx rest) mx) ?c
        = (Ok (), deliver_response sid hs es (?c\<lparr>cn_pending := None, cn_decoder := d\<rparr>))"
      by (rule less.hyps [of "drop mx rest" ?c ?pb]) (use False assms(1) less.prems sized in auto)
    then show ?thesis using frames False d by simp
  qed
qed

lemma dispatch_header_frames:
  assumes "0 < mx" "cn_pending c = None" "length block \<le> MAX_HEADER_BLOCK_SIZE"
    "hpack_decode W block (cn_decoder c) = (Ok hs, d)"
  shows "dispatch_all W now (header_frames sid block es mx) c = (Ok (), deliver_response sid hs es (c\<lparr>cn_decoder := d\<rparr>))"
proof -
  define pb where "pb frag = \<lparr>pb_stream_id = sid, pb_kind = ResponseBlock, pb_end_stream = es,
      pb_promised_stream_id = None, pb_fragments = [frag], pb_size = length frag\<rparr>" for frag
  have pb [simp]: "pb_stream_id (pb f) = sid" "pb_kind (pb f) = ResponseBlock" "pb_end_stream (pb f) = es"
      "pb_fragments (pb f) = [f]" "pb_size (pb f) = length f" "block_sized (pb f)" for f
    by (simp_all add: pb_def block_sized_def)
  let ?c = "\<lambda>frag. c\<lparr>cn_pending := Some (pb frag)\<rparr>"
  have d: "dispatch W now (Headers sid frag es eh None) c = (if eh then complete_header_block W (?c frag) else (Ok (), ?c frag))"
    if "length frag \<le> MAX_HEADER_BLOCK_SIZE" for frag eh
    using that assms(2)
    by (simp add: dispatch_def on_headers_def guard_then_complete_def guard_header_block_size_def and_then_def flip: pb_def)
  have clear: "c\<lparr>cn_pending := None, cn_decoder := d\<rparr> = c\<lparr>cn_decoder := d\<rparr>"
    using assms(2) by (cases c) simp
  show ?thesis
  proof (cases "length block \<le> mx")
    case True
    have "complete_header_block W (?c block) = (Ok (), deliver_response sid hs es ((?c block)\<lparr>cn_pending := None, cn_decoder := d\<rparr>))"
      by (rule complete_response_block) (use assms(4) in auto)
    then show ?thesis using True d [of block True] assms(3) by (simp add: header_frames_def clear)
  next
    case False
    have "dispatch_all W now (continuation_frames sid (drop mx block) mx) (?c (take mx block))
        = (Ok (), deliver_response sid hs es ((?c (take mx block))\<lparr>cn_pending := None, cn_decoder := d\<rparr>))"
      by (rule dispatch_continuations [where block = block, OF assms(1)]) (use False assms(3,4) in auto)
    then show ?thesis using False d [of "take mx block" False] assms(3) by (simp add: header_frames_def clear)
  qed
qed

subsection \<open>What a stream and its cell become\<close>

text \<open>The stream \<open>sid\<close> is in state \<open>s\<close> and its cell holds \<open>cl\<close>.\<close>

definition stream_at :: "u32 \<Rightarrow> nat \<Rightarrow> stream_state \<Rightarrow> stream_cell \<Rightarrow> conn \<Rightarrow> bool" where
  "stream_at sid cell s cl c \<longleftrightarrow> get_stream sid c = Some s \<and> ss_cell s = cell \<and> cell < length (cn_cells c)
     \<and> cn_cells c ! cell = cl"

lemma stream_at_with_stream:
  assumes "stream_at sid cell s cl c" "f s cl = (s', cl', ts)" "ss_cell s' = cell"
  shows "stream_at sid cell s' cl' (with_stream sid f c)"
proof -
  have "get_stream sid (with_stream sid f c) = Some s'"
    using assms by (intro get_with_stream) (auto simp: stream_at_def)
  moreover have "cn_cells (with_stream sid f c) = (cn_cells c)[cell := cl']"
    using assms by (auto simp: stream_at_def with_stream_def set_cell_def)
  ultimately show ?thesis using assms by (simp add: stream_at_def)
qed

lemma stream_at_decoder [simp]: "stream_at sid cell s cl (c\<lparr>cn_decoder := d\<rparr>) = stream_at sid cell s cl c"
  by (simp add: stream_at_def get_stream_def)

lemma stream_at_fd [simp]: "stream_at sid cell s cl (set_fd d c) = stream_at sid cell s cl c"
  by (simp add: stream_at_def)

text \<open>Ending the stream from the peer's side keeps the cell of a stream whose head was sent.\<close>

lemma remote_end_cell:
  assumes "stream_at sid cell s cl c" "\<not> ss_head_tx s"
  shows "cn_cells (retire_if_fully_closed sid (set_remote_closed sid c)) ! cell = cl"
proof -
  let ?s = "s\<lparr>ss_remote_closed := True\<rparr>"
  let ?c = "set_remote_closed sid c"
  have at: "stream_at sid cell ?s cl ?c"
    unfolding set_remote_closed_def by (rule stream_at_with_stream [OF assms(1)]) (use assms in \<open>auto simp: stream_at_def\<close>)
  then show ?thesis
    using assms(2) by (auto simp: stream_at_def retire_if_fully_closed_def take_stream_def drop_stream_def set_cell_def
        wake_slot_waiters_def)
qed

lemma dispatch_data: "cn_pending c = None \<Longrightarrow> dispatch W now (Data sid d es) c = (Ok (), on_data sid d es c)"
  by (simp add: dispatch_def)

lemma receive_data_stream: "receive_data d es s cl = (s, fst (snd (receive_data d es s cl)), snd (snd (receive_data d es s cl)))"
  by (simp add: receive_data_def Let_def split: prod.split)

lemma stream_at_receive_data:
  assumes "stream_at sid cell s cl c"
  shows "stream_at sid cell s (fst (snd (receive_data d es s cl))) (with_stream sid (receive_data d es) c)"
  by (rule stream_at_with_stream [where f = "receive_data d es", OF assms receive_data_stream])
    (use assms in \<open>simp add: stream_at_def\<close>)

lemma on_data_stream:
  assumes "stream_at sid cell s cl c"
  shows "stream_at sid cell s (fst (snd (receive_data d False s cl))) (on_data sid d False c)"
  using stream_at_receive_data [OF assms, of d False] assms by (auto simp: on_data_def stream_at_def)

lemma on_data_end:
  assumes "stream_at sid cell s cl c" "\<not> ss_head_tx s"
  shows "cn_cells (on_data sid d True c) ! cell = fst (snd (receive_data d True s cl))"
  using remote_end_cell [OF stream_at_receive_data [OF assms(1)] assms(2), of d True] assms(1)
  by (auto simp: on_data_def stream_at_def)

fun receive_chunks :: "bytes list \<Rightarrow> stream_state \<Rightarrow> stream_cell \<Rightarrow> stream_cell" where
  "receive_chunks [] s cl = cl"
| "receive_chunks (d # ds) s cl = receive_chunks ds s (fst (snd (receive_data d False s cl)))"

lemma receive_all_chunks: "receive_all ds s cl = fst (snd (receive_data [] True s (receive_chunks ds s cl)))"
  by (induction ds arbitrary: cl) simp_all

lemma on_data_pending [simp]: "cn_pending (on_data sid d es c) = cn_pending c"
  by (simp add: on_data_def Let_def)

lemma on_data_closed [simp]: "cn_closed (on_data sid d es c) = cn_closed c" "cn_decoder (on_data sid d es c) = cn_decoder c"
  by (simp_all add: on_data_def Let_def)

lemma on_data_outq: "get_stream sid c \<noteq> None \<Longrightarrow> cn_outq (on_data sid d es c) = cn_outq c"
  by (auto simp: on_data_def Let_def)

lemma dispatch_data_frames:
  "stream_at sid cell s cl c \<Longrightarrow> cn_pending c = None \<Longrightarrow>
   \<exists>c'. dispatch_all W now (data_frames sid ds) c = (Ok (), c') \<and> stream_at sid cell s (receive_chunks ds s cl) c'
     \<and> cn_pending c' = None \<and> cn_closed c' = cn_closed c \<and> cn_decoder c' = cn_decoder c \<and> cn_outq c' = cn_outq c"
proof (induction ds arbitrary: c cl)
  case (Cons d ds)
  have "cn_outq (on_data sid d False c) = cn_outq c" using Cons.prems(1) by (simp add: stream_at_def on_data_outq)
  with Cons.IH [OF on_data_stream [OF Cons.prems(1), of d]] Cons.prems(2) show ?case
    by (simp add: data_frames_def dispatch_data)
qed (simp add: data_frames_def)

lemma dispatch_all_append:
  "dispatch_all W now fs c = (Ok (), c') \<Longrightarrow> \<not> cn_closed c' \<Longrightarrow>
   dispatch_all W now (fs @ gs) c = dispatch_all W now gs c'"
proof (induction fs arbitrary: c)
  case (Cons f fs)
  obtain c1 where "dispatch W now f c = (Ok (), c1)" "dispatch_all W now fs c1 = (Ok (), c')"
    using Cons.prems by (rule dispatch_all_Cons_open)
  with Cons.IH Cons.prems(2) show ?case by simp
qed simp

lemma receive_head:
  assumes "ss_head_tx s" "\<not> ss_got_head s" "\<not> (100 \<le> rh_status (collect_headers hs) \<and> rh_status (collect_headers hs) < 200)"
  shows "receive_headers hs False s cl
    = (s\<lparr>ss_got_head := True, ss_head_tx := False\<rparr>, cl\<lparr>sc_head := Sent (Ok (collect_headers hs))\<rparr>, [])"
  using assms by (auto simp: receive_headers_def Let_def send_head_def)

lemma deliver_head:
  assumes "stream_at sid cell s cl c" "ss_head_tx s" "\<not> ss_got_head s"
    "\<not> (100 \<le> rh_status (collect_headers hs) \<and> rh_status (collect_headers hs) < 200)"
  shows "stream_at sid cell (s\<lparr>ss_got_head := True, ss_head_tx := False\<rparr>) (cl\<lparr>sc_head := Sent (Ok (collect_headers hs))\<rparr>)
    (deliver_response sid hs False c)"
  using stream_at_with_stream [where f = "receive_headers hs False", OF assms(1) receive_head [OF assms(2-4)]] assms(1)
  by (simp add: deliver_response_def deliver_headers_def stream_at_def)

lemma deliver_response_fields [simp]:
  "cn_pending (deliver_response sid hs es c) = cn_pending c" "cn_closed (deliver_response sid hs es c) = cn_closed c"
  "cn_decoder (deliver_response sid hs es c) = cn_decoder c" "cn_outq (deliver_response sid hs es c) = cn_outq c"
  by (simp_all add: deliver_response_def deliver_headers_def Let_def)

text \<open>The cell of a stream after a response head and the chunks of its body.\<close>

definition body_cell :: "header list \<Rightarrow> bytes list \<Rightarrow> stream_state \<Rightarrow> stream_cell \<Rightarrow> stream_cell" where
  "body_cell hs ds s cl = receive_chunks ds s (cl\<lparr>sc_head := Sent (Ok (collect_headers hs))\<rparr>)"

lemma dispatch_head_and_body:
  assumes "stream_at sid cell s cl c" "ss_head_tx s" "\<not> ss_got_head s" "cn_pending c = None" "\<not> cn_closed c"
    "0 < mx" "length block \<le> MAX_HEADER_BLOCK_SIZE" "hpack_decode W block (cn_decoder c) = (Ok hs, d)"
    "\<not> (100 \<le> rh_status (collect_headers hs) \<and> rh_status (collect_headers hs) < 200)"
  shows "\<exists>c' s'. dispatch_all W now (header_frames sid block False mx @ data_frames sid ds) c = (Ok (), c')
    \<and> stream_at sid cell s' (body_cell hs ds s' cl) c' \<and> \<not> ss_head_tx s' \<and> ss_got_head s'
    \<and> ss_local_closed s' = ss_local_closed s
    \<and> cn_pending c' = None \<and> \<not> cn_closed c' \<and> cn_decoder c' = d \<and> cn_outq c' = cn_outq c"
proof -
  let ?s = "s\<lparr>ss_got_head := True, ss_head_tx := False\<rparr>"
  let ?c = "deliver_response sid hs False (c\<lparr>cn_decoder := d\<rparr>)"
  have "stream_at sid cell ?s (cl\<lparr>sc_head := Sent (Ok (collect_headers hs))\<rparr>) ?c"
    using assms by (intro deliver_head) simp_all
  from dispatch_data_frames [OF this, of W now ds] assms(4,5)
  have "\<exists>c'. dispatch_all W now (data_frames sid ds) ?c = (Ok (), c') \<and> stream_at sid cell ?s (body_cell hs ds ?s cl) c'
      \<and> cn_pending c' = None \<and> \<not> cn_closed c' \<and> cn_decoder c' = d \<and> cn_outq c' = cn_outq c"
    by (simp add: body_cell_def)
  then show ?thesis
    using dispatch_all_append [OF dispatch_header_frames [OF assms(6,4,7,8), of now sid False]] assms(5) by fastforce
qed

lemma receive_chunks_cell:
  "\<not> rs_ended (sc_recv cl) \<Longrightarrow> rs_error (sc_recv cl) = None \<Longrightarrow>
   rs_queue (sc_recv (receive_chunks ds s cl)) = rs_queue (sc_recv cl) @ filter (\<lambda>d. d \<noteq> []) ds
   \<and> \<not> rs_ended (sc_recv (receive_chunks ds s cl)) \<and> rs_error (sc_recv (receive_chunks ds s cl)) = None
   \<and> sc_head (receive_chunks ds s cl) = sc_head cl \<and> sc_trailers (receive_chunks ds s cl) = sc_trailers cl"
proof (induction ds arbitrary: cl)
  case (Cons d ds)
  let ?cl = "fst (snd (receive_data d False s cl))"
  have "\<not> rs_ended (sc_recv ?cl)" "rs_error (sc_recv ?cl) = None" "sc_head ?cl = sc_head cl" "sc_trailers ?cl = sc_trailers cl"
      "rs_queue (sc_recv ?cl) = rs_queue (sc_recv cl) @ (if d = [] then [] else [d])"
    using Cons.prems by (auto simp: receive_data_def Let_def take_waker_def)
  then show ?case using Cons.IH [of ?cl] by simp
qed simp

lemma concat_filter_nonempty: "concat (filter (\<lambda>d. d \<noteq> []) ds) = concat ds"
  by (induction ds) auto

subsection \<open>Responses reach the caller\<close>

text \<open>A request was sent on stream \<open>sid\<close> and nothing of its response has arrived.\<close>

definition awaits_response :: "u32 \<Rightarrow> nat \<Rightarrow> conn \<Rightarrow> bool" where
  "awaits_response sid cell c \<longleftrightarrow> conn_inv c \<and> \<not> cn_closed c \<and> cn_pending c = None
     \<and> (\<exists>s cl. stream_at sid cell s cl c \<and> ss_head_tx s \<and> \<not> ss_got_head s
          \<and> rs_queue (sc_recv cl) = [] \<and> \<not> rs_ended (sc_recv cl) \<and> rs_error (sc_recv cl) = None \<and> sc_trailers cl = None)"

definition final_head :: "header list \<Rightarrow> bool" where
  "final_head hs \<longleftrightarrow> \<not> (100 \<le> rh_status (collect_headers hs) \<and> rh_status (collect_headers hs) < 200)"

text \<open>What a caller that reads the whole response gets, once its stream has ended in connection \<open>c\<close>.\<close>

definition caller_gets :: "task \<Rightarrow> u32 \<Rightarrow> nat \<Rightarrow> header list \<Rightarrow> bytes \<Rightarrow> (string \<rightharpoonup> string) option \<Rightarrow> conn \<Rightarrow> bool" where
  "caller_gets t sid cell hs body trls c \<longleftrightarrow> (\<exists>r c'. request_response sid cell c = Ready (Ok r)
     \<and> rp_status r = rh_status (collect_headers hs) \<and> rp_headers r = rh_headers (collect_headers hs) \<and> rp_raw_headers r = hs
     \<and> response_bytes t r c = (BytesDone (Ok body), c') \<and> trailers r c = trls)"

lemma caller_getsI:
  assumes "conn_inv c" "cell < length (cn_cells c)" "sc_head (cn_cells c ! cell) = Sent (Ok (collect_headers hs))"
    "rs_ended (sc_recv (cn_cells c ! cell))" "rs_error (sc_recv (cn_cells c ! cell)) = None"
    "concat (rs_queue (sc_recv (cn_cells c ! cell))) = body" "sc_trailers (cn_cells c ! cell) = trls"
  shows "caller_gets t sid cell hs body trls c"
proof -
  obtain c' where "bytes_loop t sid cell [] c = (BytesDone (Ok body), c')"
    using bytes_loop_chunks [OF assms(1,2), of t sid "[]"] assms(4-6) by (auto simp: end_turn.simps)
  moreover have "rh_raw (collect_headers hs) = hs" by (simp add: collect_headers_def split: prod.split)
  ultimately show ?thesis
    using assms(3,7) by (simp add: caller_gets_def request_response_def request_finish_def response_bytes_def trailers_def
        response_trailers_def)
qed

lemma read_response:
  assumes "awaits_response sid cell c" "cn_frame_decoder c = fd_new m"
    "\<forall>f \<in> set fs. wf_frame m f" "concat chunks = concat (map serialize_frame fs)"
    "dispatch_all W now fs c = (Ok (), c')" "\<not> cn_closed c'"
  shows "read_loop W now chunks c = (Ok True, c')"
proof -
  have inv: "conn_inv c" using assms(1) by (simp add: awaits_response_def)
  then have "decoder_inv (cn_frame_decoder c)" by (simp add: conn_inv_def conn_core_def)
  moreover have "cn_frame_decoder c' = fd_new m"
    using assms(2,5) set_fd_dispatch_all [of W now fs "fd_new m" c] set_fd_set_fd(2) [of c]
    by (metis lift_fd_simps(1) prod.inject set_fd_fields(5))
  ultimately show ?thesis
    using read_loop_frames [of c chunks fs "fd_new m" W now c'] feed_serialized [OF assms(3,4)] assms(2,5,6) set_fd_set_fd(2) [of c']
    by simp
qed

lemma response_head_and_body:
  assumes "awaits_response sid cell c" "0 < mx" "length block \<le> MAX_HEADER_BLOCK_SIZE"
    "hpack_decode W block (cn_decoder c) = (Ok hs, d)" "final_head hs"
  obtains c' s cl where "dispatch_all W now (header_frames sid block False mx @ data_frames sid ds) c = (Ok (), c')"
    "stream_at sid cell s cl c'" "\<not> ss_head_tx s" "ss_got_head s" "cn_pending c' = None" "\<not> cn_closed c'" "cn_decoder c' = d"
    "rs_queue (sc_recv cl) = filter (\<lambda>d. d \<noteq> []) ds" "\<not> rs_ended (sc_recv cl)" "rs_error (sc_recv cl) = None"
    "sc_head cl = Sent (Ok (collect_headers hs))" "sc_trailers cl = None"
proof -
  obtain s cl where s: "stream_at sid cell s cl c" "ss_head_tx s" "\<not> ss_got_head s" "cn_pending c = None" "\<not> cn_closed c"
      and cl: "rs_queue (sc_recv cl) = []" "\<not> rs_ended (sc_recv cl)" "rs_error (sc_recv cl) = None" "sc_trailers cl = None"
    using assms(1) by (auto simp: awaits_response_def)
  obtain c' s' where "dispatch_all W now (header_frames sid block False mx @ data_frames sid ds) c = (Ok (), c')"
      "stream_at sid cell s' (body_cell hs ds s' cl) c'" "\<not> ss_head_tx s'" "ss_got_head s'" "cn_pending c' = None"
      "\<not> cn_closed c'" "cn_decoder c' = d"
    using dispatch_head_and_body [OF s assms(2-4), of now ds] assms(5) by (auto simp: final_head_def)
  then show thesis
    using that receive_chunks_cell [of "cl\<lparr>sc_head := Sent (Ok (collect_headers hs))\<rparr>" ds s'] cl
    by (simp add: body_cell_def)
qed

lemma response_delivered:
  assumes "awaits_response sid cell c" and "cn_frame_decoder c = fd_new m"
    and "hpack_decode W block (cn_decoder c) = (Ok hs, d)" and "final_head hs"
    and "0 < mx" and "length block \<le> MAX_HEADER_BLOCK_SIZE"
    and "fs = header_frames sid block False mx @ data_frames sid ds @ [Data sid dl True]"
    and "\<forall>f \<in> set fs. wf_frame m f" and "concat chunks = concat (map serialize_frame fs)"
  shows "\<exists>c'. read_loop W now chunks c = (Ok True, c') \<and> caller_gets t sid cell hs (concat ds @ dl) None c'"
proof -
  obtain c1 s cl where c1: "dispatch_all W now (header_frames sid block False mx @ data_frames sid ds) c = (Ok (), c1)"
      and s: "stream_at sid cell s cl c1" "\<not> ss_head_tx s" and p: "cn_pending c1 = None" "\<not> cn_closed c1"
      and cl: "rs_queue (sc_recv cl) = filter (\<lambda>d. d \<noteq> []) ds" "\<not> rs_ended (sc_recv cl)" "rs_error (sc_recv cl) = None"
        "sc_head cl = Sent (Ok (collect_headers hs))" "sc_trailers cl = None"
    by (rule response_head_and_body [OF assms(1,5,6,3,4)])
  let ?c = "on_data sid dl True c1"
  have all: "dispatch_all W now fs c = (Ok (), ?c)"
    using dispatch_all_append [OF c1 p(2), of "[Data sid dl True]"] dispatch_data [OF p(1)] by (simp add: assms(7))
  then have inv: "conn_inv ?c" using dispatch_all_inv [of c W now fs] assms(1) by (simp add: awaits_response_def)
  have cell: "cn_cells ?c ! cell = fst (snd (receive_data dl True s cl))" by (rule on_data_end [OF s])
  have "cell < length (cn_cells ?c)" using s(1) by (simp add: stream_at_def)
  moreover have "concat (filter (\<lambda>d. d \<noteq> []) ds @ (if dl = [] then [] else [dl])) = concat ds @ dl"
    by (simp add: concat_filter_nonempty)
  ultimately have "caller_gets t sid cell hs (concat ds @ dl) None ?c"
    using cl by (intro caller_getsI [OF inv]) (auto simp: cell receive_data_def Let_def take_waker_def)
  then show ?thesis using read_response [OF assms(1,2,8,9) all] p(2) by simp
qed

text \<open>
  C5. A response reaches its caller.  On a connection that waits for the response of a request, the
  bytes of a response (a header block cut into frames of any size, DATA frames, END\_STREAM on the
  last), cut by the transport in any way, make the request resolve with exactly the status and
  headers of the block, and reading the body returns exactly the payload of the DATA frames.
\<close>

theorem response_reaches_caller:
  assumes "awaits_response sid cell c" and "cn_frame_decoder c = fd_new m"
    and "hpack_decode W block (cn_decoder c) = (Ok hs, d)" and "final_head hs"
    and "0 < mx" and "length block \<le> MAX_HEADER_BLOCK_SIZE"
    and "fs = header_frames sid block False mx @ data_frames sid ds @ [Data sid dl True]"
    and "\<forall>f \<in> set fs. wf_frame m f" and "concat chunks = concat (map serialize_frame fs)"
  shows "\<exists>c'. read_loop W now chunks c = (Ok True, c') \<and> caller_gets t sid cell hs (concat ds @ dl) None c'"
  by (rule response_delivered [OF assms])

text \<open>The block of one indexed field of the static table.\<close>

lemma decode_indexed:
  assumes "1 \<le> i" "i \<le> 61"
  shows "hpack_decode 64 [0x80 OR word_of_nat i] d
    = (Ok [header_new (fst (STATIC_TABLE ! (i - 1))) (snd (STATIC_TABLE ! (i - 1)))], d)"
proof -
  let ?r = "br_new [0x80 OR word_of_nat i :: u8]"
  have int: "int_bytes i 7 0x80 = [0x80 OR word_of_nat i]" using assms by (simp add: int_bytes_def)
  have field: "decode_field 64 d ?r
      = Ok ([header_new (fst (STATIC_TABLE ! (i - 1))) (snd (STATIC_TABLE ! (i - 1)))], d, br_advance 1 ?r)"
    using decode_field_indexed [where i = i and tl' = "[]" and W = 64 and r = ?r and d = d] assms int by simp
  have "decode_loop 64 d (br_advance 1 ?r) hs = (Ok hs, d)" for hs
    by (subst decode_loop.simps) simp
  then show ?thesis using field by (simp add: hpack_decode_def decode_loop.simps [of 64 d ?r])
qed

lemma decode_status_200: "hpack_decode 64 [0x88] d = (Ok [header_new '':status'' ''200''], d)"
  using decode_indexed [of 8 d] by (simp add: STATIC_TABLE_def)

lemma decode_accept_encoding: "hpack_decode 64 [0x90] d = (Ok [header_new ''accept-encoding'' ''gzip, deflate''], d)"
  using decode_indexed [of 16 d] by (simp add: STATIC_TABLE_def)

lemma status_200: "final_head [header_new '':status'' ''200'']" "rh_status (collect_headers [header_new '':status'' ''200'']) = 200"
  by (simp_all add: final_head_def collect_headers_def header_new_def parse_u16_def parse_unsigned_def digit_value_def)

lemma sample_awaits: "awaits_response 1 0 sample_conn" "cn_frame_decoder sample_conn = fd_new 16384"
proof -
  have "stream_at 1 0 sample_stream cell_default sample_conn"
    by (simp add: stream_at_def sample_conn_def get_stream_def sample_stream_def ss_new_def)
  moreover have "ss_head_tx sample_stream \<and> \<not> ss_got_head sample_stream" by (simp add: sample_stream_def ss_new_def)
  moreover have "rs_queue (sc_recv cell_default) = [] \<and> \<not> rs_ended (sc_recv cell_default)
      \<and> rs_error (sc_recv cell_default) = None \<and> sc_trailers cell_default = None"
    by (simp add: cell_default_def recv_default_def)
  moreover have "cn_pending sample_conn = None" "\<not> cn_closed sample_conn" by (simp_all add: sample_conn_def conn_new_def)
  ultimately show "awaits_response 1 0 sample_conn" unfolding awaits_response_def using sample_conn_inv by blast
  show "cn_frame_decoder sample_conn = fd_new 16384" by (simp add: sample_conn_def conn_new_def)
qed

theorem response_reaches_caller_witness:
  "\<exists>c'. read_loop 64 0 [concat (map serialize_frame [Headers 1 [0x88] False True None, Data 1 [1, 2] False, Data 1 [3] True])]
       sample_conn = (Ok True, c')
     \<and> caller_gets 0 1 0 [header_new '':status'' ''200''] [1, 2, 3] None c'"
proof -
  have frames: "[Headers 1 [0x88] False True None, Data 1 [1, 2] False, Data 1 [3] True]
      = header_frames 1 [0x88] False 16384 @ data_frames 1 [[1, 2]] @ [Data 1 [3] True]"
    by (simp add: header_frames_def data_frames_def)
  have wf: "\<forall>f \<in> set [Headers 1 [0x88] False True None, Data 1 [1, 2] False, Data 1 [3] True]. wf_frame 16384 f"
    by (simp add: wf_frame_def payload_length_def)
  show ?thesis
    using response_reaches_caller [where now = 0 and t = 0, OF sample_awaits decode_status_200 status_200(1) _ _ frames wf]
    by (simp add: MAX_HEADER_BLOCK_SIZE_def del: read_loop.simps)
qed

lemma deliver_trailers:
  assumes "stream_at sid cell s cl c" "\<not> ss_head_tx s" "ss_got_head s" "\<not> rs_ended (sc_recv cl)"
  shows "cn_cells (deliver_response sid hs True c) ! cell
    = cl\<lparr>sc_trailers := Some (rh_headers (collect_headers hs)),
         sc_recv := (sc_recv cl)\<lparr>rs_ended := True, rs_waker := None\<rparr>\<rparr>"
proof -
  let ?cl = "cl\<lparr>sc_trailers := Some (rh_headers (collect_headers hs)),
      sc_recv := (sc_recv cl)\<lparr>rs_ended := True, rs_waker := None\<rparr>\<rparr>"
  have r: "receive_headers hs True s cl = (s, ?cl, case rs_waker (sc_recv cl) of Some t \<Rightarrow> [t] | None \<Rightarrow> [])"
    using assms by (simp add: receive_headers_def end_body_def take_waker_def Let_def)
  have "stream_at sid cell s ?cl (with_stream sid (receive_headers hs True) c)"
    by (rule stream_at_with_stream [where f = "receive_headers hs True", OF assms(1) r]) (use assms(1) in \<open>simp add: stream_at_def\<close>)
  from remote_end_cell [OF this assms(2)] show ?thesis by (simp add: deliver_response_def deliver_headers_def Let_def)
qed

text \<open>
  C24. Trailers reach the caller.  A response whose body is followed by a second header block with
  END\_STREAM, as every gRPC response is, resolves with the head, the whole body and exactly the
  trailers of that block; the decoder carries its dynamic table from the first block to the second.
\<close>

theorem trailers_reach_caller:
  assumes "awaits_response sid cell c" and "cn_frame_decoder c = fd_new m"
    and "hpack_decode W block (cn_decoder c) = (Ok hs, d)" and "final_head hs"
    and "hpack_decode W tblock d = (Ok ths, d')"
    and "0 < mx" and "length block \<le> MAX_HEADER_BLOCK_SIZE" and "length tblock \<le> MAX_HEADER_BLOCK_SIZE"
    and "fs = header_frames sid block False mx @ data_frames sid ds @ header_frames sid tblock True mx"
    and "\<forall>f \<in> set fs. wf_frame m f" and "concat chunks = concat (map serialize_frame fs)"
  shows "\<exists>c'. read_loop W now chunks c = (Ok True, c')
    \<and> caller_gets t sid cell hs (concat ds) (Some (rh_headers (collect_headers ths))) c'"
proof -
  obtain c1 s cl where c1: "dispatch_all W now (header_frames sid block False mx @ data_frames sid ds) c = (Ok (), c1)"
      and s: "stream_at sid cell s cl c1" "\<not> ss_head_tx s" "ss_got_head s" and p: "cn_pending c1 = None" "\<not> cn_closed c1"
      and d: "cn_decoder c1 = d"
      and cl: "rs_queue (sc_recv cl) = filter (\<lambda>d. d \<noteq> []) ds" "\<not> rs_ended (sc_recv cl)" "rs_error (sc_recv cl) = None"
        "sc_head cl = Sent (Ok (collect_headers hs))"
    by (rule response_head_and_body [OF assms(1,6,7,3,4)])
  let ?c = "deliver_response sid ths True (c1\<lparr>cn_decoder := d'\<rparr>)"
  have "dispatch_all W now (header_frames sid tblock True mx) c1 = (Ok (), ?c)"
    by (rule dispatch_header_frames [OF assms(6) p(1) assms(8)]) (simp add: d assms(5))
  then have all: "dispatch_all W now fs c = (Ok (), ?c)"
    using dispatch_all_append [OF c1 p(2)] by (simp add: assms(9))
  then have inv: "conn_inv ?c" using dispatch_all_inv [of c W now fs] assms(1) by (simp add: awaits_response_def)
  have "stream_at sid cell s cl (c1\<lparr>cn_decoder := d'\<rparr>)" using s(1) by simp
  from deliver_trailers [OF this s(2,3) cl(2), of ths] have cell: "cn_cells ?c ! cell
      = cl\<lparr>sc_trailers := Some (rh_headers (collect_headers ths)), sc_recv := (sc_recv cl)\<lparr>rs_ended := True, rs_waker := None\<rparr>\<rparr>" .
  have "cell < length (cn_cells ?c)" using s(1) by (simp add: stream_at_def deliver_response_def)
  then have "caller_gets t sid cell hs (concat ds) (Some (rh_headers (collect_headers ths))) ?c"
    using cl by (intro caller_getsI [OF inv]) (simp_all add: cell concat_filter_nonempty)
  then show ?thesis using read_response [OF assms(1,2,10,11) all] p(2) by simp
qed

theorem trailers_reach_caller_witness:
  "\<exists>c'. read_loop 64 0 [concat (map serialize_frame
         [Headers 1 [0x88] False True None, Data 1 [1, 2] False, Headers 1 [0x90] True True None])] sample_conn = (Ok True, c')
     \<and> caller_gets 0 1 0 [header_new '':status'' ''200''] [1, 2]
         (Some [''accept-encoding'' \<mapsto> ''gzip, deflate'']) c'"
proof -
  have frames: "[Headers 1 [0x88] False True None, Data 1 [1, 2] False, Headers 1 [0x90] True True None]
      = header_frames 1 [0x88] False 16384 @ data_frames 1 [[1, 2]] @ header_frames 1 [0x90] True 16384"
    by (simp add: header_frames_def data_frames_def)
  have wf: "\<forall>f \<in> set [Headers 1 [0x88] False True None, Data 1 [1, 2] False, Headers 1 [0x90] True True None]. wf_frame 16384 f"
    by (simp add: wf_frame_def payload_length_def)
  show ?thesis
    using trailers_reach_caller [where now = 0 and t = 0,
        OF sample_awaits decode_status_200 status_200(1) decode_accept_encoding _ _ _ frames wf]
    by (simp add: MAX_HEADER_BLOCK_SIZE_def collect_headers_def header_new_def add_header_def del: read_loop.simps)
qed

subsection \<open>Requests reach the peer\<close>

lemma insert_stream_at:
  assumes "conn_inv c" "ss_cell s = length (cn_cells c)"
  shows "stream_at sid (length (cn_cells c)) s cell_default
    (insert_stream sid s (c\<lparr>cn_next_stream_id := n, cn_cells := cn_cells c @ [cell_default]\<rparr>))"
proof -
  let ?c = "c\<lparr>cn_next_stream_id := n, cn_cells := cn_cells c @ [cell_default]\<rparr>"
  have "cn_cells (take_stream sid (\<lambda>s cl. (s, cl, [])) ?c) ! length (cn_cells c) = cell_default"
  proof (cases "get_stream sid c")
    case (Some s')
    then have "ss_cell s' < length (cn_cells c)"
      using streams_inv_get(1) assms(1) by (fastforce simp: conn_inv_def conn_core_def stream_ok_def)
    then show ?thesis using Some by (simp add: take_stream_def get_stream_def set_cell_def nth_append)
  qed (simp add: take_stream_def get_stream_def)
  then show ?thesis
    using assms(2) by (simp add: stream_at_def insert_stream_def) (simp add: get_stream_def put_stream_def AList.update_conv')
qed

lemma stream_at_sends: "only_sends c c' \<Longrightarrow> stream_at sid cell s cl c' = stream_at sid cell s cl c"
  by (auto simp: only_sends_def stream_at_def get_stream_def)

lemma stream_at_task [simp]: "stream_at sid cell s cl (c\<lparr>cn_task_q := q\<rparr>) = stream_at sid cell s cl c"
  by (simp add: stream_at_def get_stream_def)

lemma insert_stream_fields [simp]:
  "cn_closed (insert_stream sid s c) = cn_closed c" "cn_out_tx (insert_stream sid s c) = cn_out_tx c"
  "cn_outq (insert_stream sid s c) = cn_outq c" "cn_pending (insert_stream sid s c) = cn_pending c"
  "cn_remote (insert_stream sid s c) = cn_remote c" "cn_decoder (insert_stream sid s c) = cn_decoder c"
  "cn_frame_decoder (insert_stream sid s c) = cn_frame_decoder c"
  by (simp_all add: insert_stream_def)

lemma request_sends:
  assumes "conn_inv c" "refuse_request c = None" "can_open_stream c" "cn_pending c = None"
    "hpack_encode (build_request_headers up init) = Ok block"
  obtains c' where "request up t init c = (ReqOpened (cn_next_stream_id c) (length (cn_cells c)), c')"
    "cn_outq c' = cn_outq c @ map serialize_frame
       (header_frames (cn_next_stream_id c) block (body_is_empty (ri_body init)) (rm_max_frame_size (cn_remote c)))"
    "awaits_response (cn_next_stream_id c) (length (cn_cells c)) c'"
    "cn_decoder c' = cn_decoder c" "cn_frame_decoder c' = cn_frame_decoder c"
proof -
  let ?sid = "cn_next_stream_id c" and ?cell = "length (cn_cells c)" and ?es = "body_is_empty (ri_body init)"
  let ?s = "(ss_new ?sid (rm_initial_window_size (cn_remote c)) ?cell)\<lparr>ss_head_tx := True, ss_local_closed := ?es\<rparr>"
  let ?c0 = "insert_stream ?sid ?s (c\<lparr>cn_next_stream_id := ?sid + 2, cn_cells := cn_cells c @ [cell_default]\<rparr>)"
  let ?c1 = "send_headers ?sid block ?es ?c0"
  define c' where "c' = (if ?es then ?c1 else ?c1\<lparr>cn_task_q := cn_task_q ?c1 @ [(?sid, ri_body init)]\<rparr>)"
  have opn: "\<not> cn_closed c" using assms(2) by (auto simp: refuse_request_def split: if_splits)
  have req: "request up t init c = (ReqOpened ?sid ?cell, c')"
    using assms(2,3,5) by (simp add: request_def open_request_def Let_def c'_def)
  have "is_open ?c0" using conn_inv_is_open [OF assms(1)] opn by (simp add: is_open_def)
  then have "cn_outq ?c1 = cn_outq c @ map serialize_frame (header_frames ?sid block ?es (rm_max_frame_size (cn_remote c)))"
    by (simp add: send_headers_frames)
  moreover have "cn_outq c' = cn_outq ?c1" by (simp add: c'_def)
  ultimately have out: "cn_outq c' = cn_outq c @ map serialize_frame (header_frames ?sid block ?es (rm_max_frame_size (cn_remote c)))"
    by simp
  have "stream_at ?sid ?cell ?s cell_default ?c0" by (rule insert_stream_at [OF assms(1)]) (simp add: ss_new_def)
  then have "stream_at ?sid ?cell ?s cell_default c'"
    by (cases ?es) (simp_all add: c'_def stream_at_sends [OF only_sends_headers])
  moreover have "conn_inv c'" using request_inv [OF assms(1) req] by simp
  moreover have "cn_pending c' = None" "\<not> cn_closed c'" using assms(4) opn by (simp_all add: c'_def)
  moreover have "ss_head_tx ?s \<and> \<not> ss_got_head ?s" by (simp add: ss_new_def)
  moreover have "rs_queue (sc_recv cell_default) = [] \<and> \<not> rs_ended (sc_recv cell_default)
      \<and> rs_error (sc_recv cell_default) = None \<and> sc_trailers cell_default = None"
    by (simp add: cell_default_def recv_default_def)
  ultimately have "awaits_response ?sid ?cell c'" unfolding awaits_response_def by blast
  with req out show thesis by (rule that) (simp_all add: c'_def)
qed

lemma hpack_decode_encoded:
  assumes "list_all (sendable W) hs" "6 \<le> W"
  shows "hpack_decode W (concat (map header_bytes hs)) d = (Ok (map wire_header hs), d)"
  using decode_loop_headers [OF _ assms, of "br_new (concat (map header_bytes hs))" d "[]"]
  by (simp add: hpack_decode_def)

lemma header_frames_wf:
  assumes "0 < mx" "mx < 2 ^ 24" "mx \<le> m" "unat sid < 2 ^ 31"
  shows "\<forall>f \<in> set (header_frames sid block es mx). wf_frame m f"
    and "concat (map fragment (header_frames sid block es mx)) = block"
    and "\<exists>frag eh rest. header_frames sid block es mx = Headers sid frag es eh None # rest \<and> list_all is_continuation rest"
proof -
  note p = continuation_frames_props [OF assms(1), of sid "drop mx block"]
  have wf: "wf_frame m (Headers sid frag es eh None)" "wf_frame m (Continuation sid frag eh)" if "length frag \<le> mx" for frag eh
    using that assms by (simp_all add: wf_frame_def payload_length_def)
  have cs: "\<exists>frag eh. g = Continuation sid frag eh \<and> length frag \<le> mx" if "g \<in> set (continuation_frames sid (drop mx block) mx)" for g
    using p that by (metis fragment.simps(2))
  then have "wf_frame m g" if "g \<in> set (continuation_frames sid (drop mx block) mx)" for g using that wf(2) by blast
  then show "\<forall>f \<in> set (header_frames sid block es mx). wf_frame m f" using wf(1) by (auto simp: header_frames_def)
  show "concat (map fragment (header_frames sid block es mx)) = block"
    using p by (simp add: header_frames_def)
  show "\<exists>frag eh rest. header_frames sid block es mx = Headers sid frag es eh None # rest \<and> list_all is_continuation rest"
    using cs by (fastforce simp: header_frames_def list_all_iff)
qed

text \<open>
  C6. A request reaches the peer.  A request that may open a stream queues bytes that a peer's decoder,
  however the transport cuts them, reads as one HEADERS frame on the new stream, with END\_STREAM
  exactly if there is no body, and CONTINUATION frames; their fragments decompress, in any state of
  the peer's table, to the request's pseudo-headers and headers in order.  The stream then waits
  for its response.
\<close>

theorem request_reaches_peer:
  assumes "conn_inv c" and "refuse_request c = None" and "can_open_stream c" and "cn_pending c = None"
    and "unat (cn_next_stream_id c) < 2 ^ 31" and "rm_max_frame_size (cn_remote c) \<le> m"
    and "list_all (sendable W) (build_request_headers up init)" and "6 \<le> W"
  shows "\<exists>sid cell c' sent. request up t init c = (ReqOpened sid cell, c') \<and> cn_outq c' = cn_outq c @ sent
    \<and> awaits_response sid cell c'
    \<and> (\<forall>chunks. concat chunks = concat sent \<longrightarrow>
        (\<exists>frag eh rest. feed_all fd_push chunks (fd_new m)
             = Ok (Headers sid frag (body_is_empty (ri_body init)) eh None # rest, fd_new m)
           \<and> list_all is_continuation rest
           \<and> hpack_decode W (frag @ concat (map fragment rest)) d = (Ok (map wire_header (build_request_headers up init)), d)))"
proof -
  let ?hs = "build_request_headers up init" and ?sid = "cn_next_stream_id c" and ?mx = "rm_max_frame_size (cn_remote c)"
  let ?block = "concat (map header_bytes ?hs)"
  let ?fs = "header_frames ?sid ?block (body_is_empty (ri_body init)) ?mx"
  have mx: "0 < ?mx" "?mx < 2 ^ 24" using conn_inv_remote_ok [OF assms(1)] by (auto simp: remote_ok_def)
  note fs = header_frames_wf [OF mx assms(6,5), of ?block "body_is_empty (ri_body init)"]
  obtain c' where c': "request up t init c = (ReqOpened ?sid (length (cn_cells c)), c')"
      "cn_outq c' = cn_outq c @ map serialize_frame ?fs" "awaits_response ?sid (length (cn_cells c)) c'"
    by (rule request_sends [OF assms(1-4) hpack_encode_bytes])
  obtain frag eh rest where h: "?fs = Headers ?sid frag (body_is_empty (ri_body init)) eh None # rest"
      "list_all is_continuation rest"
    using fs(3) by blast
  have "frag @ concat (map fragment rest) = ?block" using fs(2) by (simp add: h)
  then have "hpack_decode W (frag @ concat (map fragment rest)) d = (Ok (map wire_header ?hs), d)"
    using hpack_decode_encoded [OF assms(7,8)] by simp
  moreover have "feed_all fd_push chunks (fd_new m) = Ok (?fs, fd_new m)" if "concat chunks = concat (map serialize_frame ?fs)" for chunks
    by (rule feed_serialized [OF fs(1) that])
  ultimately show ?thesis using c' h by metis
qed

theorem request_reaches_peer_witness:
  "\<exists>sid cell c' sent. request (\<lambda>s. s) 0 sample_request sample_conn = (ReqOpened sid cell, c') \<and> cn_outq c' = sent
     \<and> awaits_response sid cell c'
     \<and> (\<exists>fs. feed_all fd_push [concat sent] (fd_new 16384) = Ok (fs, fd_new 16384))"
proof -
  have c: "refuse_request sample_conn = None" "can_open_stream sample_conn" "cn_pending sample_conn = None"
      "unat (cn_next_stream_id sample_conn) < 2 ^ 31" "rm_max_frame_size (cn_remote sample_conn) \<le> 16384" "cn_outq sample_conn = []"
    by (simp_all add: sample_conn_def conn_new_def refuse_request_def can_open_stream_def active_streams_def
        remote_settings_default_def DEFAULT_MAX_FRAME_SIZE_def)
  have "list_all (sendable 64) (build_request_headers (\<lambda>s. s) sample_request)"
    by (simp add: build_request_headers_def sample_request_def unwrap_or_def sendable_def header_new_def as_bytes_def
        valid_utf8.simps utf8_next_def utf8_chunk_def byte_or_zero_def)
  from request_reaches_peer [OF sample_conn_inv c(1-5) this, of 0 hpack_decoder_default] obtain sid cell c' sent where
    r: "request (\<lambda>s. s) 0 sample_request sample_conn = (ReqOpened sid cell, c')" "cn_outq c' = cn_outq sample_conn @ sent"
      "awaits_response sid cell c'" "\<forall>chunks. concat chunks = concat sent \<longrightarrow>
        (\<exists>fs. feed_all fd_push chunks (fd_new 16384) = Ok (fs, fd_new 16384))"
    by auto blast
  then have "\<exists>fs. feed_all fd_push [concat sent] (fd_new 16384) = Ok (fs, fd_new 16384)"
    by (elim allE [of _ "[concat sent]"]) (simp del: feed_all.simps)
  with r(1-3) c(6) show ?thesis by (simp del: feed_all.simps)
qed

subsection \<open>Exhausted stream numbers\<close>

lemma mask31_idem: "mask31 (mask31 v) = mask31 v"
  by (simp add: mask31_def)

lemma serialize_masked:
  "serialize_frame (Headers (mask31 sid) frag es eh p) = serialize_frame (Headers sid frag es eh p)"
  "serialize_frame (Continuation (mask31 sid) frag eh) = serialize_frame (Continuation sid frag eh)"
  by (simp_all add: serialize_frame_bytes Let_def mask31_idem split: option.split)

lemma serialize_header_frames_masked:
  "map serialize_frame (header_frames (mask31 sid) block es mx) = map serialize_frame (header_frames sid block es mx)"
proof -
  have "map serialize_frame (continuation_frames (mask31 sid) rest mx) = map serialize_frame (continuation_frames sid rest mx)" for rest
  proof (induction sid rest mx rule: continuation_frames.induct)
    case (1 sid rest mx)
    then show ?case by (simp add: continuation_frames.simps [of "mask31 sid" rest] continuation_frames.simps [of sid rest] serialize_masked)
  qed
  then show ?thesis by (simp add: header_frames_def serialize_masked)
qed

text \<open>
  Stream numbers run out silently.  The counter of a connection goes on past the 31 bits of a stream
  identifier, and the top bit is dropped only on the wire: the request after number \<open>2 ^ 31 - 1\<close> is sent,
  byte for byte, as a new request on stream 1, which the first request used, while the connection waits for
  its response on a number no frame can carry.
\<close>

theorem exhausted_ids_reuse_stream:
  assumes "conn_inv c" and "refuse_request c = None" and "can_open_stream c" and "cn_pending c = None"
    and "cn_next_stream_id c = 0x80000001"
  shows "\<exists>cell c' block. request up t init c = (ReqOpened 0x80000001 cell, c') \<and> awaits_response 0x80000001 cell c'
    \<and> hpack_encode (build_request_headers up init) = Ok block
    \<and> cn_outq c' = cn_outq c
         @ map serialize_frame (header_frames 1 block (body_is_empty (ri_body init)) (rm_max_frame_size (cn_remote c)))"
proof -
  have one: "mask31 0x80000001 = 1" by (simp add: mask31_def)
  obtain c' where c': "request up t init c = (ReqOpened (cn_next_stream_id c) (length (cn_cells c)), c')"
      "cn_outq c' = cn_outq c @ map serialize_frame (header_frames (cn_next_stream_id c)
         (concat (map header_bytes (build_request_headers up init))) (body_is_empty (ri_body init)) (rm_max_frame_size (cn_remote c)))"
      "awaits_response (cn_next_stream_id c) (length (cn_cells c)) c'"
    by (rule request_sends [OF assms(1-4) hpack_encode_bytes])
  have "map serialize_frame (header_frames 0x80000001 block es mx) = map serialize_frame (header_frames 1 block es mx)" for block es mx
    by (rule serialize_header_frames_masked [of "0x80000001", unfolded one, symmetric])
  then show ?thesis using c' hpack_encode_bytes by (auto simp: assms(5))
qed

theorem exhausted_ids_reuse_stream_witness:
  "\<exists>cell c' block. request (\<lambda>s. s) 0 sample_request (sample_conn\<lparr>cn_next_stream_id := 0x80000001\<rparr>)
       = (ReqOpened 0x80000001 cell, c')
     \<and> cn_outq c' = map serialize_frame (header_frames 1 block (body_is_empty (ri_body sample_request)) 16384)"
proof -
  let ?c = "sample_conn\<lparr>cn_next_stream_id := 0x80000001\<rparr>"
  have "conn_inv ?c"
    using sample_conn_inv by (simp add: conn_inv_def conn_core_def closed_ok_def pending_ok_def)
  moreover have "refuse_request ?c = None" "can_open_stream ?c" "cn_pending ?c = None" "cn_outq ?c = []"
      "rm_max_frame_size (cn_remote ?c) = 16384"
    by (simp_all add: sample_conn_def conn_new_def refuse_request_def can_open_stream_def active_streams_def
        remote_settings_default_def DEFAULT_MAX_FRAME_SIZE_def)
  ultimately show ?thesis
    using exhausted_ids_reuse_stream [of ?c "\<lambda>s. s" 0 sample_request] by simp blast
qed

subsection \<open>Abandoned requests\<close>

text \<open>
  Dropping the future of \<open>request\<close> while it waits at \<open>head_rx.await\<close> drops the receiver of the
  head and the handles of the body and the trailers; no destructor runs on the connection, because
  the \<open>ResponseBody\<close> that cancels a stream is built only after the head has arrived.
\<close>

definition drop_request :: "nat \<Rightarrow> system \<Rightarrow> system" where
  "drop_request i sy = sy\<lparr>sy_requests := remove_nth i (sy_requests sy)\<rparr>"

lemma remote_end_retires:
  assumes "stream_at sid cell s cl c" "ss_local_closed s"
  shows "get_stream sid (retire_if_fully_closed sid (set_remote_closed sid c)) = None"
proof -
  have at: "stream_at sid cell (s\<lparr>ss_remote_closed := True\<rparr>) cl (set_remote_closed sid c)"
    unfolding set_remote_closed_def by (rule stream_at_with_stream [OF assms(1)]) (use assms in \<open>auto simp: stream_at_def\<close>)
  have "get_stream sid (take_stream sid f c) = None" for f c
    by (auto simp: get_stream_def take_stream_streams map_of_eq_None_iff)
  with at assms(2) show ?thesis
    by (auto simp: stream_at_def retire_if_fully_closed_def) (simp add: get_stream_def)
qed

lemma complete_response_retires:
  assumes "awaits_response sid cell c" "get_stream sid c = Some s" "ss_local_closed s"
    "hpack_decode W block (cn_decoder c) = (Ok hs, d)" "final_head hs" "0 < mx" "length block \<le> MAX_HEADER_BLOCK_SIZE"
  obtains c' where "dispatch_all W now (header_frames sid block False mx @ data_frames sid ds @ [Data sid dl True]) c = (Ok (), c')"
    "\<not> cn_closed c'" "get_stream sid c' = None" "cn_outq c' = cn_outq c" "buffered c' cell = length (concat ds @ dl)"
proof -
  obtain s1 cl where s1: "stream_at sid cell s1 cl c" "ss_head_tx s1" "\<not> ss_got_head s1" "cn_pending c = None" "\<not> cn_closed c"
      and cl: "rs_queue (sc_recv cl) = []" "\<not> rs_ended (sc_recv cl)" "rs_error (sc_recv cl) = None" and inv: "conn_inv c"
    using assms(1) by (auto simp: awaits_response_def)
  obtain c1 s' where c1: "dispatch_all W now (header_frames sid block False mx @ data_frames sid ds) c = (Ok (), c1)"
      and s': "stream_at sid cell s' (body_cell hs ds s' cl) c1" "\<not> ss_head_tx s'" "ss_local_closed s' = ss_local_closed s1"
      and p: "cn_pending c1 = None" "\<not> cn_closed c1" and o: "cn_outq c1 = cn_outq c"
    using dispatch_head_and_body [OF s1 assms(6,7,4), of now ds] assms(5) by (auto simp: final_head_def)
  let ?c = "on_data sid dl True c1"
  let ?cl = "body_cell hs ds s' cl"
  have all: "dispatch_all W now (header_frames sid block False mx @ data_frames sid ds @ [Data sid dl True]) c = (Ok (), ?c)"
    using dispatch_all_append [OF c1 p(2), of "[Data sid dl True]"] dispatch_data [OF p(1)] by simp
  have queue: "rs_queue (sc_recv ?cl) = filter (\<lambda>d. d \<noteq> []) ds" "\<not> rs_ended (sc_recv ?cl)" "rs_error (sc_recv ?cl) = None"
    using receive_chunks_cell [of "cl\<lparr>sc_head := Sent (Ok (collect_headers hs))\<rparr>" ds s'] cl by (simp_all add: body_cell_def)
  have cell: "cn_cells ?c ! cell = fst (snd (receive_data dl True s' ?cl))" by (rule on_data_end [OF s'(1,2)])
  have len: "cell < length (cn_cells ?c)" using s'(1) by (simp add: stream_at_def)
  have "conn_inv ?c" using dispatch_all_inv [OF inv, of W now "header_frames sid block False mx @ data_frames sid ds @ [Data sid dl True]"] all
    by simp
  from conn_inv_cell [OF this len] have "buffered ?c cell = length (concat (rs_queue (sc_recv (cn_cells ?c ! cell))))"
    by (simp add: buffered_def recv_inv_def length_concat)
  also have "concat (rs_queue (sc_recv (cn_cells ?c ! cell))) = concat ds @ dl"
    using queue by (simp add: cell receive_data_def Let_def take_waker_def concat_filter_nonempty)
  finally have buf: "buffered ?c cell = length (concat ds @ dl)" .
  have "get_stream sid ?c = None"
    using remote_end_retires [OF stream_at_receive_data [OF s'(1)]] s'(1,3) s1(1) assms(2,3)
    by (auto simp: on_data_def stream_at_def)
  moreover have "cn_outq ?c = cn_outq c" using s'(1) o by (simp add: stream_at_def on_data_outq)
  ultimately show thesis using that all p(2) buf by simp
qed


text \<open>A connection on which a request without a body waits for its response.\<close>

definition waiting_conn :: conn where
  "waiting_conn = with_stream 1 (\<lambda>s cl. (s\<lparr>ss_local_closed := True\<rparr>, cl, [])) sample_conn"

definition waiting_system :: system where
  "waiting_system = \<lparr>sy_conn = waiting_conn, sy_pumps = [], sy_written = [], sy_reading = True, sy_driving = True,
     sy_requests = [(1, 0)], sy_bodies = []\<rparr>"

lemma waiting_conn_facts:
  "awaits_response 1 0 waiting_conn" "get_stream 1 waiting_conn = Some (sample_stream\<lparr>ss_local_closed := True\<rparr>)"
  "cn_frame_decoder waiting_conn = fd_new 16384"
proof -
  have "stream_at 1 0 sample_stream cell_default sample_conn"
    by (simp add: stream_at_def sample_conn_def get_stream_def sample_stream_def ss_new_def)
  then have at: "stream_at 1 0 (sample_stream\<lparr>ss_local_closed := True\<rparr>) cell_default waiting_conn"
    unfolding waiting_conn_def by (rule stream_at_with_stream) (simp_all add: sample_stream_def ss_new_def)
  then show "get_stream 1 waiting_conn = Some (sample_stream\<lparr>ss_local_closed := True\<rparr>)" by (simp add: stream_at_def)
  moreover have "conn_inv waiting_conn" unfolding waiting_conn_def by simp
  moreover have "cn_pending waiting_conn = None" "\<not> cn_closed waiting_conn"
    by (simp_all add: waiting_conn_def) (simp_all add: sample_conn_def conn_new_def)
  moreover have "rs_queue (sc_recv cell_default) = [] \<and> \<not> rs_ended (sc_recv cell_default)
      \<and> rs_error (sc_recv cell_default) = None \<and> sc_trailers cell_default = None"
    by (simp add: cell_default_def recv_default_def)
  moreover have "ss_head_tx (sample_stream\<lparr>ss_local_closed := True\<rparr>) \<and> \<not> ss_got_head (sample_stream\<lparr>ss_local_closed := True\<rparr>)"
    by (simp add: sample_stream_def ss_new_def)
  ultimately show "awaits_response 1 0 waiting_conn" using at unfolding awaits_response_def by blast
  show "cn_frame_decoder waiting_conn = fd_new 16384" by (simp add: waiting_conn_def) (simp add: sample_conn_def conn_new_def)
qed


end
