(* ===== verification/Wire.thy ===== *)
theory Wire
  imports Silence "HOL-Library.Sublist"
begin

text \<open>
  What the client writes to its transport: the connection preface, then frames, and only frames
  that a client may send.  The relation \<open>emits\<close> goes through every handler and every call of the
  application.
\<close>

text \<open>
  A frame of a client: streams are opened and fed on odd numbers only, and no payload is larger than
  the 24 bits of its length field; a client promises no streams, and this one sends no PRIORITY.
\<close>

fun client_frame :: "frame \<Rightarrow> bool" where
  "client_frame (Data sid d es) \<longleftrightarrow> sid mod 2 = 1 \<and> length d < 2 ^ 24"
| "client_frame (Headers sid frag es eh p) \<longleftrightarrow> sid mod 2 = 1 \<and> length frag < 2 ^ 24 \<and> p = None"
| "client_frame (Continuation sid frag eh) \<longleftrightarrow> sid mod 2 = 1 \<and> length frag < 2 ^ 24"
| "client_frame (PushPromise sid pid frag eh) \<longleftrightarrow> False"
| "client_frame (PriorityF sid p) \<longleftrightarrow> False"
| "client_frame _ \<longleftrightarrow> True"

definition emits :: "conn \<Rightarrow> conn \<Rightarrow> bool" where
  "emits c c' \<longleftrightarrow> (\<exists>fs. cn_outq c' = cn_outq c @ map serialize_frame fs \<and> list_all client_frame fs)"

lemma control_client [simp]: "is_control f \<Longrightarrow> client_frame f"
  by (cases f) simp_all

lemma emits_same: "cn_outq c' = cn_outq c \<Longrightarrow> emits c c'"
  by (simp add: emits_def)

lemma emits_refl [simp]: "emits c c"
  by (simp add: emits_same)

lemma emits_trans: "emits c c' \<Longrightarrow> emits c' c'' \<Longrightarrow> emits c c''"
proof -
  assume "emits c c'" "emits c' c''"
  then obtain fs gs where "cn_outq c' = cn_outq c @ map serialize_frame fs" "list_all client_frame fs"
      "cn_outq c'' = cn_outq c' @ map serialize_frame gs" "list_all client_frame gs"
    by (auto simp: emits_def)
  then show "emits c c''" unfolding emits_def by (intro exI [of _ "fs @ gs"]) simp
qed

lemma emits_send [intro]: "client_frame f \<Longrightarrow> emits c (send_frame f c)"
  unfolding emits_def by (auto simp: send_frame_def write_raw_def intro!: exI [of _ "[f]"])

lemma emits_fields [simp]:
  "emits c (with_stream sid f c)" "emits c (take_stream sid f c)" "emits c (set_remote_closed sid c)"
  "emits c (retire_if_fully_closed sid c)" "emits c (fail_streams sids err c)" "emits c (wake_slot_waiters c)"
  "emits c (wake ts c)" "emits c (set_cell a cl c)" "emits c (adjust_streams n c)"
  by (simp_all add: emits_same)

lemma emits_destroy [simp]: "emits c (destroy err c)"
  by (rule emits_same) (simp add: destroy_def Let_def)

lemma emits_reset [simp]: "emits c (reset_stream sid code c)"
  unfolding reset_stream_def by (rule emits_trans [OF emits_trans [OF emits_send emits_fields(2)] emits_fields(6)]) simp

lemma emits_replenish [simp]: "emits c (replenish_recv_window sid n c)"
proof -
  have w: "emits c (send_frame (WindowUpdate sid inc) c)" for sid inc c by (rule emits_send) simp
  show ?thesis using emits_trans [OF w w] w by (simp add: replenish_recv_window_def Let_def)
qed

lemma emits_data [simp]: "emits c (on_data sid d es c)"
proof -
  have w: "emits c (send_frame (WindowUpdate 0 inc) c)" for inc by (rule emits_send) simp
  have s: "emits c (set_remote_closed sid (with_stream sid f c))" for f by (rule emits_trans [OF emits_fields(1,3)])
  show ?thesis
    using emits_trans [OF w emits_fields(4)] emits_trans [OF s emits_fields(4)] w by (simp add: on_data_def Let_def)
qed

lemma emits_goaway [simp]: "emits c (on_goaway lsid rc c)"
proof -
  have "emits c (wake_slot_waiters (fail_streams sids err (c\<lparr>cn_goaway_received := True\<rparr>)))" for sids err
    by (rule emits_same) simp
  with emits_trans [OF this emits_destroy] show ?thesis by (simp add: on_goaway_def Let_def)
qed

lemma emits_settings [simp]: "emits c (snd (apply_remote_settings s c))"
  by (rule emits_same) (auto simp: apply_remote_settings_def and_then_def apply_initial_window_def apply_max_frame_size_def
      apply_other_settings_def proto_err_def Let_def split: option.split prod.splits result.splits if_splits)

interpretation emit_steps: conn_steps "\<lambda>_. emits" "\<lambda>_. 0" "\<lambda>_. True"
  by unfold_locales (auto simp: on_rst_stream_def internal_def intro: emits_trans emits_same)

lemma emits_read_chunk: "emits c (snd (read_chunk W now chunk c))"
  by (rule emit_steps.R_read_chunk) (simp add: list_all_iff)

subsection \<open>Calls of the application and pumps\<close>

lemma emits_calls [simp]:
  "emits c (snd (ping now c))" "emits c (close c)" "emits c (body_drop sid cell c)"
proof -
  have "emits d (send_frame (Ping False opaque) d)" for opaque and d :: conn by (rule emits_send) simp
  then have "emits c (send_frame (Ping False opaque) d)" if "cn_outq d = cn_outq c" for opaque d
    using that emits_trans emits_same by blast
  then show "emits c (snd (ping now c))" by (simp add: ping_def Let_def)
  show "emits c (close c)"
    using emits_trans [OF emits_send emits_destroy] by (simp add: close_def)
  show "emits c (body_drop sid cell c)"
    using emits_trans [OF emits_replenish emits_reset] by (simp add: body_drop_def Let_def)
qed

lemma emits_body_poll: "body_poll t sid cell c = Ok (res, c') \<Longrightarrow> emits c c'"
  by (auto simp: body_poll_def intro: emits_trans [OF emits_fields(8) emits_replenish])

lemma header_frames_client:
  assumes "sid mod 2 = 1" "0 < mx" "mx < 2 ^ 24"
  shows "list_all client_frame (header_frames sid block es mx)"
proof -
  have "client_frame g" if "g \<in> set (continuation_frames sid (drop mx block) mx)" for g
    using continuation_frames_props [OF assms(2), of sid "drop mx block"] that assms(1,3)
    by (metis client_frame.simps(3) fragment.simps(2) le_less_trans)
  then show ?thesis using assms by (auto simp: header_frames_def list_all_iff)
qed

lemma emits_headers:
  assumes "sid mod 2 = 1" "remote_ok (cn_remote c)"
  shows "emits c (send_headers sid block es c)"
proof (cases "is_open c")
  case True
  have "0 < rm_max_frame_size (cn_remote c)" "rm_max_frame_size (cn_remote c) < 2 ^ 24"
    using assms(2) by (auto simp: remote_ok_def)
  from header_frames_client [OF assms(1) this] send_headers_frames [OF True] show ?thesis
    unfolding emits_def by fastforce
next
  case False
  then have "send_frame f c = c" for f by (simp add: send_frame_def write_raw_def is_open_def)
  moreover have "send_continuations sid block mx off c = c" for mx off
    using calculation by (induction sid block mx off c rule: send_continuations.induct)
      (simp add: send_continuations.simps)
  ultimately show ?thesis by (simp add: send_headers_def Let_def)
qed

lemma emits_request:
  assumes "conn_inv c" "request up t init c = (out, c')"
  shows "emits c c'"
proof -
  have odd: "cn_next_stream_id c mod 2 = 1" and rem: "remote_ok (cn_remote c)"
    using assms(1) by (simp_all add: conn_inv_def conn_core_def)
  have "emits c (send_headers (cn_next_stream_id c) block es (insert_stream sid s (c\<lparr>cn_next_stream_id := n, cn_cells := cs\<rparr>)))"
    for block es sid s n cs
    by (rule emits_trans [OF emits_same emits_headers [OF odd]]) (simp_all add: insert_stream_def rem)
  moreover have "emits c (d\<lparr>cn_task_q := q\<rparr>)" if "emits c d" for d q using that by (simp add: emits_def)
  ultimately have "emits c c'" if "open_request up init c = (out, c')"
    using that by (auto simp: open_request_def Let_def hpack_encode_bytes split: option.splits)
  then show ?thesis using assms(2) by (auto simp: request_def intro: emits_same split: option.splits if_splits)
qed

lemma stream_id_odd: "conn_inv c \<Longrightarrow> get_stream sid c = Some s \<Longrightarrow> sid mod 2 = 1"
  using streams_inv_get(1) [of c sid s] by (simp add: conn_inv_def conn_core_def stream_ok_def)

lemma emits_pump_finish: "conn_inv c \<Longrightarrow> emits c (pump_finish sid c)"
proof (cases "get_stream sid c")
  case (Some s)
  assume inv: "conn_inv c"
  then have "sid mod 2 = 1" using stream_id_odd Some by blast
  then have "emits c (send_frame (Data sid [] True) c)" by (intro emits_send) simp
  from emits_trans [OF emits_trans [OF this emits_fields(1)] emits_fields(4)] show ?thesis
    using Some by (simp add: pump_finish_def)
qed (simp add: pump_finish_def)

lemma emits_pump:
  assumes "conn_inv c" "pump_step t sid p c = (p', parked, c')"
  shows "emits c c'"
  using assms(2)
proof (cases "(t, sid, p, c)" rule: pump_step.cases)
  case (2 t' sid' c1)
  then show ?thesis using assms emits_pump_finish [OF assms(1), of sid] by auto
next
  case (4 t' sid' chunk offset chunks c1)
  show ?thesis
  proof (cases "get_stream sid c")
    case (Some s)
    let ?g = "pump_grant chunk offset s c"
    let ?part = "range_slice chunk offset (offset + nat ?g)"
    let ?d = "with_stream sid (consume_stream ?g) (c\<lparr>cn_send_window := sw_consume ?g (cn_send_window c)\<rparr>)"
    have "sid mod 2 = 1" by (rule stream_id_odd [OF assms(1) Some])
    moreover have "nat ?g \<le> rm_max_frame_size (cn_remote c)" by (simp add: pump_grant_def)
    moreover have "rm_max_frame_size (cn_remote c) < 2 ^ 24" using conn_inv_remote_ok [OF assms(1)] by (simp add: remote_ok_def)
    ultimately have "client_frame (Data sid ?part False)" by (simp add: range_slice_def)
    then have "emits c (send_frame (Data sid ?part False) ?d)"
      by (intro emits_trans [OF emits_same emits_send]) simp_all
    moreover have "emits c (park_pump t sid c)" by (rule emits_same) simp
    ultimately show ?thesis using assms(2) 4 Some by (auto simp: Let_def split: if_splits)
  qed (use assms 4 in \<open>auto split: if_splits\<close>)
qed (use assms(2) in \<open>auto split: if_splits\<close>)

subsection \<open>Runs\<close>

text \<open>
  Everything queued or written so far is the preface, a SETTINGS frame and client frames; once a write
  has failed, what was written is a part of it.
\<close>

definition wire_ok :: "bytes list \<Rightarrow> bool" where
  "wire_ok ms \<longleftrightarrow> (\<exists>s fs. ms = CONNECTION_PREFACE # map serialize_frame (SettingsF False s # fs) \<and> list_all client_frame fs)"

definition wire_inv :: "system \<Rightarrow> bool" where
  "wire_inv sy \<longleftrightarrow> (\<exists>ms. wire_ok ms \<and> prefix (sy_written sy) ms \<and> (sy_driving sy \<longrightarrow> ms = sy_written sy @ cn_outq (sy_conn sy)))"

lemma wire_ok_append: "wire_ok ms \<Longrightarrow> list_all client_frame gs \<Longrightarrow> wire_ok (ms @ map serialize_frame gs)"
proof -
  assume "wire_ok ms" "list_all client_frame gs"
  then obtain s fs where "ms = CONNECTION_PREFACE # map serialize_frame (SettingsF False s # fs)" "list_all client_frame (fs @ gs)"
    by (auto simp: wire_ok_def)
  then show ?thesis unfolding wire_ok_def by (intro exI [of _ s] exI [of _ "fs @ gs"]) simp
qed

lemma wire_inv_emits:
  assumes "wire_inv sy" "emits (sy_conn sy) (sy_conn sy')" "sy_written sy' = sy_written sy" "sy_driving sy' \<Longrightarrow> sy_driving sy"
  shows "wire_inv sy'"
proof (cases "sy_driving sy")
  case True
  obtain gs where gs: "cn_outq (sy_conn sy') = cn_outq (sy_conn sy) @ map serialize_frame gs" "list_all client_frame gs"
    using assms(2) by (auto simp: emits_def)
  have "wire_ok (sy_written sy @ cn_outq (sy_conn sy))" using assms(1) True by (auto simp: wire_inv_def)
  from wire_ok_append [OF this gs(2)] show ?thesis
    unfolding wire_inv_def using gs(1) assms(3) by (intro exI [of _ "sy_written sy' @ cn_outq (sy_conn sy')"]) simp
next
  case False
  then show ?thesis using assms(1,3,4) by (auto simp: wire_inv_def)
qed

lemma sys_step_emits:
  assumes "sys_inv sy" "sys_step W up ev sy = Ok sy'" "ev \<noteq> EvWrite" "ev \<noteq> EvWriteFailed"
  shows "emits (sy_conn sy) (sy_conn sy') \<and> sy_written sy' = sy_written sy \<and> sy_driving sy' = sy_driving sy"
proof -
  have inv: "conn_inv (sy_conn sy)" using assms(1) by (simp add: sys_inv_def)
  show ?thesis
  proof (cases ev)
    case (EvRead now chunk)
    then show ?thesis using assms(2) emits_read_chunk [of "sy_conn sy" W now chunk]
      by (auto split: if_splits prod.splits result.splits)
  next
    case EvTasks
    then show ?thesis using assms(2) by (auto intro: emits_same split: if_splits)
  next
    case (EvPump t)
    then show ?thesis using assms(2) emits_pump [OF inv] by (auto split: if_splits prod.splits)
  next
    case (EvRequest t init)
    then show ?thesis using assms(2) emits_request [OF inv] by (auto split: prod.splits request_outcome.splits)
  next
    case (EvBodyPoll t i)
    then show ?thesis using assms(2) emits_body_poll by (auto split: if_splits prod.splits result.splits)
  qed (use assms(2-4) in \<open>auto split: if_splits prod.splits poll.splits result.splits\<close>)
qed

lemma wire_inv_step:
  assumes "sys_inv sy" "wire_inv sy" "sys_step W up ev sy = Ok sy'"
  shows "wire_inv sy'"
proof -
  consider "ev = EvWrite" | "ev = EvWriteFailed" | "ev \<noteq> EvWrite" "ev \<noteq> EvWriteFailed" by blast
  then show ?thesis
  proof cases
    case 3
    then show ?thesis using wire_inv_emits [OF assms(2)] sys_step_emits [OF assms(1,3)] by blast
  next
    case 1
    then show ?thesis
      using assms(2,3) by (auto simp: wire_inv_def prefix_def split: if_splits list.splits)
  next
    case 2
    then show ?thesis
      using assms(2,3) by (auto simp: wire_inv_def prefix_def split: if_splits list.splits)
  qed
qed

lemma connect_wire_ok: "wire_ok (cn_outq (connect options))"
proof -
  obtain s gs where "cn_outq (connect options) = CONNECTION_PREFACE # map serialize_frame (SettingsF False s # gs)" "list_all client_frame gs"
    by (cases "0 < int (unat (unwrap_or (co_connection_window_size options) 67108864)) - SPEC_INITIAL_WINDOW")
      (auto simp: connect_def Let_def send_frame_def write_raw_def conn_new_def
        intro: that [of _ "[WindowUpdate 0 w]" for w] that [of _ "[]"])
  then show ?thesis unfolding wire_ok_def by blast
qed

lemma wire_inv_init: "wire_inv (sys_init options)"
  using connect_wire_ok by (auto simp: wire_inv_def sys_init_def)

lemma reachable_wire: "reachable W up options evs sy \<Longrightarrow> wire_inv sy"
proof (induction rule: reachable.induct)
  case (reach_step evs sy ev sy')
  then show ?case using wire_inv_step reachable_inv by blast
qed (rule wire_inv_init)

text \<open>The first write of every run is the preface.\<close>

lemma first_write: "\<exists>sy. reachable W up options [EvWrite] sy \<and> sy_written sy = [CONNECTION_PREFACE]"
proof -
  let ?sy = "sys_init options"
  obtain rest where q: "cn_outq (sy_conn ?sy) = CONNECTION_PREFACE # rest"
    using connect_wire_ok [of options] by (auto simp: sys_init_def wire_ok_def)
  let ?sy' = "?sy\<lparr>sy_conn := (sy_conn ?sy)\<lparr>cn_outq := rest\<rparr>, sy_written := [CONNECTION_PREFACE]\<rparr>"
  have step: "sys_step W up EvWrite ?sy = Ok ?sy'" using q by (simp add: sys_init_def)
  have "reachable W up options [EvWrite] ?sy'" using reach_step [OF reach_init step] by (simp only: append_Nil)
  moreover have "sy_written ?sy' = [CONNECTION_PREFACE]" by simp
  ultimately show ?thesis by blast
qed

text \<open>
  C23. The client speaks HTTP/2 from its first byte.  In every state that any run of the driver reaches,
  the messages the transport has accepted are the connection preface, then a SETTINGS frame, then
  frames that a client may send (DATA, HEADERS and CONTINUATION on odd streams with payloads that
  fit the length field, no PUSH\_PROMISE), or the beginning of such a sequence.
\<close>

theorem wire_is_client_frames:
  assumes "reachable W up options evs sy"
  shows "\<exists>s fs. prefix (sy_written sy) (CONNECTION_PREFACE # map serialize_frame (SettingsF False s # fs)) \<and> list_all client_frame fs"
  using reachable_wire [OF assms] by (auto simp: wire_inv_def wire_ok_def)

theorem wire_is_client_frames_witness:
  "\<exists>sy s fs. reachable 64 (\<lambda>s. s) no_options [EvWrite] sy \<and> sy_written sy = [CONNECTION_PREFACE]
     \<and> prefix (sy_written sy) (CONNECTION_PREFACE # map serialize_frame (SettingsF False s # fs)) \<and> list_all client_frame fs"
  using first_write [of 64 "\<lambda>s. s" no_options] wire_is_client_frames by blast

subsection \<open>The beginning of a stream of frames\<close>

lemma feed_prefix:
  assumes "\<forall>f \<in> set fs. wf_frame m f" "prefix (concat chunks) (concat (map serialize_frame fs))"
  shows "\<exists>gs d. feed_all fd_push chunks (fd_new m) = Ok (gs, d) \<and> prefix gs fs"
proof -
  obtain rest where rest: "concat (map serialize_frame fs) = concat chunks @ rest" using assms(2) by (auto simp: prefix_def)
  have inv: "decoder_inv (fd_new m)" by simp
  have "feed_all fd_push [concat chunks, rest] (fd_new m) = Ok (fs, fd_new m)"
    by (rule feed_serialized [OF assms(1)]) (simp add: rest)
  then obtain gs d where "fd_push (concat chunks) (fd_new m) = Ok (gs, d)" "prefix gs fs"
    by (cases "fd_push (concat chunks) (fd_new m)") (auto split: result.splits)
  then show ?thesis using fd.feed_all_concat [OF inv, of chunks] by auto
qed

end
