(* ===== verification/Pool.thy ===== *)
theory Pool
  imports Slots
begin

text \<open>
  \<open>h2ts-client/src/pool.rs\<close>: routing requests over several connections.

  The trait \<open>PoolConnection\<close> is a record of its methods, a trait object an address into a store of
  connections, since connections are shared between the pool and their drivers.  A call of
  \<open>H2Pool::request\<close> is a task that goes through the sections between its suspension points: a turn
  of the loop, the wait for the factory, the wait for another task's open, and the request on the
  chosen connection.  The factory is code outside the pool: the event that ends the wait brings its
  result, which may be any connection or error.
\<close>

subsection \<open>The trait and its implementation\<close>

record 'c pool_ops =
  pc_is_closed :: "'c \<Rightarrow> bool"
  pc_can_open_stream :: "'c \<Rightarrow> bool"
  pc_request :: "task \<Rightarrow> request_init \<Rightarrow> 'c \<Rightarrow> request_outcome \<times> 'c"
  pc_close :: "'c \<Rightarrow> 'c"

definition h2_pool_ops :: "(string \<Rightarrow> string) \<Rightarrow> conn pool_ops" where
  "h2_pool_ops up = \<lparr>pc_is_closed = cn_closed, pc_can_open_stream = can_open_stream, pc_request = request up, pc_close = close\<rparr>"

subsection \<open>The pool\<close>

record pool =
  pl_conns :: "nat list"
  pl_opening :: bool
  pl_open_waiters :: "task list"

definition pool_new :: pool where
  "pool_new = \<lparr>pl_conns = [], pl_opening = False, pl_open_waiters = []\<rparr>"

text \<open>The choice of a connection at the top of the loop.\<close>

definition pool_choose :: "'c pool_ops \<Rightarrow> nat \<Rightarrow> 'c list \<Rightarrow> pool \<Rightarrow> nat option \<times> pool" where
  "pool_choose ops max_connections store p =
     (let conns = filter (\<lambda>a. \<not> pc_is_closed ops (store ! a)) (pl_conns p) in
      (case find (\<lambda>a. pc_can_open_stream ops (store ! a)) conns of
         Some a \<Rightarrow> Some a
       | None \<Rightarrow> if conns \<noteq> [] \<and> max_connections \<le> length conns then Some (hd conns) else None,
       p\<lparr>pl_conns := conns\<rparr>))"

datatype pool_task =
    TaskOpening request_init
  | TaskWaiting request_init
  | TaskSignalled request_init
  | TaskIssued nat request_outcome
  | TaskFailed h2error
  | TaskAbandoned

record 'c pool_system =
  ps_pool :: pool
  ps_store :: "'c list"
  ps_tasks :: "pool_task list"

definition set_task :: "task \<Rightarrow> pool_task \<Rightarrow> 'c pool_system \<Rightarrow> 'c pool_system" where
  "set_task t pt sy = sy\<lparr>ps_tasks := (ps_tasks sy)[t := pt]\<rparr>"

text \<open>\<open>return conn.request(init).await\<close>: the request starts within the same section.\<close>

definition issue :: "'c pool_ops \<Rightarrow> task \<Rightarrow> request_init \<Rightarrow> nat \<Rightarrow> 'c pool_system \<Rightarrow> 'c pool_system" where
  "issue ops t init a sy =
     (case pc_request ops t init (ps_store sy ! a) of (out, c) \<Rightarrow>
        set_task t (TaskIssued a out) (sy\<lparr>ps_store := (ps_store sy)[a := c]\<rparr>))"

text \<open>The first section of \<open>open_one\<close>: wait for the open in flight or own a new one.\<close>

definition open_one :: "task \<Rightarrow> request_init \<Rightarrow> 'c pool_system \<Rightarrow> 'c pool_system" where
  "open_one t init sy =
     (let p = ps_pool sy in
      if pl_opening p
      then set_task t (TaskWaiting init) (sy\<lparr>ps_pool := p\<lparr>pl_open_waiters := pl_open_waiters p @ [t]\<rparr>\<rparr>)
      else set_task t (TaskOpening init) (sy\<lparr>ps_pool := p\<lparr>pl_opening := True\<rparr>\<rparr>))"

definition pool_turn :: "'c pool_ops \<Rightarrow> nat \<Rightarrow> task \<Rightarrow> request_init \<Rightarrow> 'c pool_system \<Rightarrow> 'c pool_system" where
  "pool_turn ops max_connections t init sy =
     (case pool_choose ops max_connections (ps_store sy) (ps_pool sy) of (chosen, p) \<Rightarrow>
      let sy = sy\<lparr>ps_pool := p\<rparr> in
      case chosen of Some a \<Rightarrow> issue ops t init a sy | None \<Rightarrow> open_one t init sy)"

text \<open>After \<open>open_one\<close>: a fresh connection that is full already takes the request all the same.\<close>

definition pool_fresh :: "'c pool_ops \<Rightarrow> nat \<Rightarrow> task \<Rightarrow> request_init \<Rightarrow> 'c pool_system \<Rightarrow> 'c pool_system" where
  "pool_fresh ops max_connections t init sy =
     (let conns = pl_conns (ps_pool sy) in
      if conns \<noteq> [] \<and> \<not> pc_is_closed ops (ps_store sy ! last conns) \<and> \<not> pc_can_open_stream ops (ps_store sy ! last conns)
      then issue ops t init (last conns) sy
      else pool_turn ops max_connections t init sy)"

definition signal :: "task list \<Rightarrow> pool_task list \<Rightarrow> pool_task list" where
  "signal ts tasks =
     map (\<lambda>(i, pt). case pt of TaskWaiting init \<Rightarrow> if i \<in> set ts then TaskSignalled init else pt | _ \<Rightarrow> pt)
       (enumerate 0 tasks)"

text \<open>The second section of \<open>open_one\<close>, when the factory is done.\<close>

definition open_done :: "'c pool_ops \<Rightarrow> nat \<Rightarrow> task \<Rightarrow> request_init \<Rightarrow> (h2error + 'c) \<Rightarrow> 'c pool_system \<Rightarrow> 'c pool_system" where
  "open_done ops max_connections t init result sy =
     (let p = ps_pool sy;
          sy = sy\<lparr>ps_pool := p\<lparr>pl_opening := False, pl_open_waiters := []\<rparr>, ps_tasks := signal (pl_open_waiters p) (ps_tasks sy)\<rparr>
      in case result of
           Inl e \<Rightarrow> set_task t (TaskFailed e) sy
         | Inr c \<Rightarrow>
             pool_fresh ops max_connections t init
               (sy\<lparr>ps_store := ps_store sy @ [c],
                  ps_pool := (ps_pool sy)\<lparr>pl_conns := pl_conns (ps_pool sy) @ [length (ps_store sy)]\<rparr>\<rparr>))"

definition pool_connections :: "'c pool_ops \<Rightarrow> 'c list \<Rightarrow> pool \<Rightarrow> nat" where
  "pool_connections ops store p = length (filter (\<lambda>a. \<not> pc_is_closed ops (store ! a)) (pl_conns p))"

fun close_all :: "'c pool_ops \<Rightarrow> nat list \<Rightarrow> 'c list \<Rightarrow> 'c list" where
  "close_all ops [] store = store"
| "close_all ops (a # as) store = close_all ops as (store[a := pc_close ops (store ! a)])"

definition pool_close :: "'c pool_ops \<Rightarrow> 'c pool_system \<Rightarrow> 'c pool_system" where
  "pool_close ops sy =
     sy\<lparr>ps_store := close_all ops (pl_conns (ps_pool sy)) (ps_store sy), ps_pool := (ps_pool sy)\<lparr>pl_conns := []\<rparr>\<rparr>"

subsection \<open>Steps\<close>

text \<open>
  \<open>PoolConn\<close> is any change of a connection that its driver, its peer or its users make;
  \<open>PoolAbandon\<close> drops the future of a call before it is done.
\<close>

datatype 'c pool_event =
    PoolRequest request_init
  | PoolOpened task "h2error + 'c"
  | PoolResume task
  | PoolConn nat 'c
  | PoolAbandon task
  | PoolClose

fun pool_step :: "'c pool_ops \<Rightarrow> nat \<Rightarrow> 'c pool_event \<Rightarrow> 'c pool_system \<Rightarrow> 'c pool_system" where
  "pool_step ops mx (PoolRequest init) sy =
     pool_turn ops mx (length (ps_tasks sy)) init (sy\<lparr>ps_tasks := ps_tasks sy @ [TaskAbandoned]\<rparr>)"
| "pool_step ops mx (PoolOpened t result) sy =
     (if t < length (ps_tasks sy) then
        (case ps_tasks sy ! t of TaskOpening init \<Rightarrow> open_done ops mx t init result sy | _ \<Rightarrow> sy)
      else sy)"
| "pool_step ops mx (PoolResume t) sy =
     (if t < length (ps_tasks sy) then
        (case ps_tasks sy ! t of TaskSignalled init \<Rightarrow> pool_fresh ops mx t init sy | _ \<Rightarrow> sy)
      else sy)"
| "pool_step ops mx (PoolConn a c) sy = sy\<lparr>ps_store := (ps_store sy)[a := c]\<rparr>"
| "pool_step ops mx (PoolAbandon t) sy =
     (if t < length (ps_tasks sy) then set_task t TaskAbandoned sy else sy)"
| "pool_step ops mx PoolClose sy = pool_close ops sy"

definition pool_init :: "'c pool_system" where
  "pool_init = \<lparr>ps_pool = pool_new, ps_store = [], ps_tasks = []\<rparr>"

inductive pool_run :: "'c pool_ops \<Rightarrow> nat \<Rightarrow> 'c pool_event list \<Rightarrow> 'c pool_system \<Rightarrow> bool" for ops mx where
  pool_run_init: "pool_run ops mx [] pool_init"
| pool_run_step: "pool_run ops mx evs sy \<Longrightarrow> pool_run ops mx (evs @ [ev]) (pool_step ops mx ev sy)"

subsection \<open>The invariant\<close>

definition openers :: "pool_task list \<Rightarrow> task set" where
  "openers ts = {t. t < length ts \<and> (\<exists>init. ts ! t = TaskOpening init)}"

definition waiting :: "pool_task list \<Rightarrow> task set" where
  "waiting ts = {t. t < length ts \<and> (\<exists>init. ts ! t = TaskWaiting init)}"

text \<open>
  The invariant while task \<open>t\<close>, if any, is running: the cap on connections, at most one task that
  opens, and every waiting task registered with an open in flight.
\<close>

definition pool_ok :: "nat \<Rightarrow> task set \<Rightarrow> 'c pool_system \<Rightarrow> bool" where
  "pool_ok mx T sy \<longleftrightarrow> (\<forall>a \<in> set (pl_conns (ps_pool sy)). a < length (ps_store sy))
     \<and> length (pl_conns (ps_pool sy)) \<le> max 1 mx
     \<and> (pl_opening (ps_pool sy) \<longrightarrow> length (pl_conns (ps_pool sy)) < max 1 mx)
     \<and> (\<forall>t \<in> openers (ps_tasks sy) - T. pl_opening (ps_pool sy))
     \<and> (\<forall>t \<in> openers (ps_tasks sy) - T. \<forall>u \<in> openers (ps_tasks sy) - T. t = u)
     \<and> (\<forall>t \<in> waiting (ps_tasks sy) - T. pl_opening (ps_pool sy) \<and> t \<in> set (pl_open_waiters (ps_pool sy)))"

abbreviation (input) pool_inv :: "nat \<Rightarrow> 'c pool_system \<Rightarrow> bool" where
  "pool_inv mx sy \<equiv> pool_ok mx {} sy"

lemma openers_update: "t < length ts \<Longrightarrow> openers (ts[t := pt]) = (if \<exists>init. pt = TaskOpening init then insert t (openers ts) else openers ts - {t})"
  by (auto simp: openers_def nth_list_update)

lemma waiting_update: "t < length ts \<Longrightarrow> waiting (ts[t := pt]) = (if \<exists>init. pt = TaskWaiting init then insert t (waiting ts) else waiting ts - {t})"
  by (auto simp: waiting_def nth_list_update)

lemma signal_sets:
  "openers (signal ws ts) = openers ts" "waiting (signal ws ts) = waiting ts - set ws" "length (signal ws ts) = length ts"
  by (auto simp: signal_def openers_def waiting_def nth_enumerate_eq split: pool_task.splits if_splits)

definition live_conns :: "'c pool_ops \<Rightarrow> 'c list \<Rightarrow> pool \<Rightarrow> nat list" where
  "live_conns ops store p = filter (\<lambda>a. \<not> pc_is_closed ops (store ! a)) (pl_conns p)"

lemma find_SomeD: "find P xs = Some x \<Longrightarrow> P x \<and> x \<in> set xs"
  by (induction xs) (auto split: if_splits)

lemma pool_choose_cases:
  assumes "pool_choose ops mx store p = (chosen, p')"
  shows "p' = p\<lparr>pl_conns := live_conns ops store p\<rparr>"
    and "chosen = Some a \<Longrightarrow> a \<in> set (live_conns ops store p) \<and> (pc_can_open_stream ops (store ! a)
      \<or> (\<forall>b \<in> set (live_conns ops store p). \<not> pc_can_open_stream ops (store ! b)) \<and> mx \<le> length (live_conns ops store p))"
    and "chosen = None \<Longrightarrow> (\<forall>b \<in> set (live_conns ops store p). \<not> pc_can_open_stream ops (store ! b))
      \<and> (live_conns ops store p = [] \<or> length (live_conns ops store p) < mx)"
proof -
  let ?l = "live_conns ops store p"
  have *: "p' = p\<lparr>pl_conns := ?l\<rparr> \<and> chosen = (case find (\<lambda>a. pc_can_open_stream ops (store ! a)) ?l of
         Some a \<Rightarrow> Some a | None \<Rightarrow> if ?l \<noteq> [] \<and> mx \<le> length ?l then Some (hd ?l) else None)"
    using assms unfolding pool_choose_def Let_def live_conns_def [symmetric] by auto
  then show "p' = p\<lparr>pl_conns := ?l\<rparr>" by simp
  show "chosen = Some a \<Longrightarrow> a \<in> set ?l \<and> (pc_can_open_stream ops (store ! a)
      \<or> (\<forall>b \<in> set ?l. \<not> pc_can_open_stream ops (store ! b)) \<and> mx \<le> length ?l)"
    using * by (auto dest: find_SomeD simp: find_None_iff split: option.splits if_splits)
  show "chosen = None \<Longrightarrow> (\<forall>b \<in> set ?l. \<not> pc_can_open_stream ops (store ! b)) \<and> (?l = [] \<or> length ?l < mx)"
    using * by (auto simp: find_None_iff split: option.splits if_splits)
qed

lemma pool_ok_choose:
  assumes "pool_ok mx T sy" and "pool_choose ops mx (ps_store sy) (ps_pool sy) = (chosen, p)"
  shows "pool_ok mx T (sy\<lparr>ps_pool := p\<rparr>)" and "chosen = None \<Longrightarrow> length (pl_conns p) < max 1 mx"
proof -
  let ?l = "live_conns ops (ps_store sy) (ps_pool sy)"
  have p: "p = (ps_pool sy)\<lparr>pl_conns := ?l\<rparr>" by (rule pool_choose_cases(1) [OF assms(2)])
  have "length ?l \<le> length (pl_conns (ps_pool sy))" unfolding live_conns_def by (rule length_filter_le)
  then have "length ?l \<le> max 1 mx" and "pl_opening (ps_pool sy) \<longrightarrow> length ?l < max 1 mx"
    using assms(1) unfolding pool_ok_def by linarith+
  moreover have "set ?l \<subseteq> set (pl_conns (ps_pool sy))" by (auto simp: live_conns_def)
  ultimately show "pool_ok mx T (sy\<lparr>ps_pool := p\<rparr>)" using assms(1) by (auto simp: p pool_ok_def)
  show "chosen = None \<Longrightarrow> length (pl_conns p) < max 1 mx" using pool_choose_cases(3) [OF assms(2)] by (auto simp: p)
qed

lemma pool_ok_issue:
  assumes "pool_ok mx {t} sy" and "t < length (ps_tasks sy)"
  shows "pool_inv mx (issue ops t init a sy)"
  using assms by (auto simp: issue_def set_task_def pool_ok_def openers_update waiting_update split: prod.split)

lemma pool_ok_open_one:
  assumes "pool_ok mx {t} sy" and "t < length (ps_tasks sy)" and "length (pl_conns (ps_pool sy)) < max 1 mx"
  shows "pool_inv mx (open_one t init sy)"
proof (cases "pl_opening (ps_pool sy)")
  case True
  then show ?thesis
    using assms by (auto simp: open_one_def Let_def set_task_def pool_ok_def openers_update waiting_update)
next
  case False
  have "openers (ps_tasks sy) \<subseteq> {t}" and "waiting (ps_tasks sy) \<subseteq> {t}" using assms(1) False by (auto simp: pool_ok_def)
  then show ?thesis
    using assms False
    by (auto simp: open_one_def Let_def set_task_def pool_ok_def openers_update waiting_update)
qed

lemma pool_ok_turn:
  assumes "pool_ok mx {t} sy" and "t < length (ps_tasks sy)"
  shows "pool_inv mx (pool_turn ops mx t init sy)"
proof -
  obtain chosen p where c: "pool_choose ops mx (ps_store sy) (ps_pool sy) = (chosen, p)" by fastforce
  note k = pool_ok_choose [OF assms(1) c]
  show ?thesis
    using k(1) k(2) assms(2) pool_ok_issue [OF k(1), of ops init] pool_ok_open_one [OF k(1)]
    by (simp add: pool_turn_def c Let_def split: option.split)
qed

lemma pool_ok_fresh:
  "pool_ok mx {t} sy \<Longrightarrow> t < length (ps_tasks sy) \<Longrightarrow> pool_inv mx (pool_fresh ops mx t init sy)"
  by (simp add: pool_fresh_def Let_def pool_ok_issue pool_ok_turn)

lemma pool_ok_open_done:
  assumes "pool_inv mx sy" and "t \<in> openers (ps_tasks sy)"
  shows "pool_inv mx (open_done ops mx t init result sy)"
proof -
  have t: "t < length (ps_tasks sy)" using assms(2) by (simp add: openers_def)
  have only: "openers (ps_tasks sy) - {t} = {}" using assms by (auto simp: pool_ok_def)
  have room: "length (pl_conns (ps_pool sy)) < max 1 mx" using assms by (auto simp: pool_ok_def)
  have none: "waiting (ps_tasks sy) - set (pl_open_waiters (ps_pool sy)) = {}" using assms(1) by (auto simp: pool_ok_def)
  show ?thesis
  proof (cases result)
    case (Inl e)
    then show ?thesis
      using assms(1) t only none
      by (auto simp: open_done_def Let_def set_task_def pool_ok_def openers_update waiting_update signal_sets)
  next
    case (Inr c)
    have "pool_ok mx {t} (sy\<lparr>ps_tasks := signal (pl_open_waiters (ps_pool sy)) (ps_tasks sy), ps_store := ps_store sy @ [c],
        ps_pool := (ps_pool sy)\<lparr>pl_opening := False, pl_open_waiters := [],
          pl_conns := pl_conns (ps_pool sy) @ [length (ps_store sy)]\<rparr>\<rparr>)"
      using assms(1) only none room by (auto simp: pool_ok_def signal_sets)
    from pool_ok_fresh [OF this, of ops init] show ?thesis using t Inr by (simp add: open_done_def Let_def signal_sets)
  qed
qed

lemma length_close_all [simp]: "length (close_all ops as store) = length store"
  by (induction ops as store rule: close_all.induct) simp_all

lemma pool_step_inv: "pool_inv mx sy \<Longrightarrow> pool_inv mx (pool_step ops mx ev sy)"
proof (cases ev)
  case (PoolRequest init)
  assume inv: "pool_inv mx sy"
  have "openers (ts @ [TaskAbandoned]) = openers ts" "waiting (ts @ [TaskAbandoned]) = waiting ts" for ts
    by (auto simp: openers_def waiting_def nth_append)
  then have "pool_ok mx {length (ps_tasks sy)} (sy\<lparr>ps_tasks := ps_tasks sy @ [TaskAbandoned]\<rparr>)"
    using inv by (auto simp: pool_ok_def)
  from pool_ok_turn [OF this] show ?thesis using PoolRequest by simp
next
  case (PoolOpened t result)
  assume inv: "pool_inv mx sy"
  have "t \<in> openers (ps_tasks sy)" if "t < length (ps_tasks sy)" "ps_tasks sy ! t = TaskOpening init" for init
    using that by (simp add: openers_def)
  then show ?thesis using PoolOpened inv pool_ok_open_done [OF inv] by (simp split: pool_task.split)
next
  case (PoolResume t)
  assume inv: "pool_inv mx sy"
  then have "pool_ok mx {t} sy" by (auto simp: pool_ok_def)
  then show ?thesis using PoolResume inv pool_ok_fresh [of mx t sy ops] by (simp split: pool_task.split)
next
  case (PoolAbandon t)
  assume "pool_inv mx sy"
  then show ?thesis using PoolAbandon by (auto simp: set_task_def pool_ok_def openers_update waiting_update)
next
  case PoolClose
  assume "pool_inv mx sy"
  then show ?thesis using PoolClose by (auto simp: pool_close_def pool_ok_def)
qed (simp add: pool_ok_def)

lemma pool_run_inv: "pool_run ops mx evs sy \<Longrightarrow> pool_inv mx sy"
proof (induction rule: pool_run.induct)
  case pool_run_init
  then show ?case by (simp add: pool_ok_def pool_init_def pool_new_def openers_def waiting_def)
next
  case (pool_run_step evs sy ev)
  then show ?case by (simp add: pool_step_inv)
qed

subsection \<open>The contract of a pooled connection\<close>

text \<open>
  What the pool relies on: a live connection with a free slot does not park a request, and
  closing closes.
\<close>

locale pool_connection =
  fixes ops :: "'c pool_ops"
  assumes not_parked: "\<not> pc_is_closed ops c \<Longrightarrow> pc_can_open_stream ops c \<Longrightarrow> fst (pc_request ops t init c) \<noteq> ReqParked"
    and closes: "pc_is_closed ops (pc_close ops c)"
begin

lemma turn_served:
  assumes "t < length (ps_tasks sy)" and "b \<in> set (live_conns ops (ps_store sy) (ps_pool sy))"
    and "pc_can_open_stream ops (ps_store sy ! b)"
  shows "\<exists>a out. ps_tasks (pool_turn ops mx t init sy) ! t = TaskIssued a out \<and> out \<noteq> ReqParked
    \<and> a \<in> set (pl_conns (ps_pool sy)) \<and> \<not> pc_is_closed ops (ps_store sy ! a) \<and> pc_can_open_stream ops (ps_store sy ! a)"
proof -
  obtain chosen p where c: "pool_choose ops mx (ps_store sy) (ps_pool sy) = (chosen, p)" by fastforce
  note k = pool_choose_cases [OF c]
  obtain a where a: "chosen = Some a" using k(3) assms(2,3) by (cases chosen) auto
  then have l: "a \<in> set (live_conns ops (ps_store sy) (ps_pool sy))" "pc_can_open_stream ops (ps_store sy ! a)"
    using k(2) assms(2,3) by auto
  then have "a \<in> set (pl_conns (ps_pool sy))" "\<not> pc_is_closed ops (ps_store sy ! a)" by (simp_all add: live_conns_def)
  then show ?thesis
    using a l not_parked [of "ps_store sy ! a" t init] assms(1)
    by (auto simp: pool_turn_def c issue_def set_task_def split: prod.split)
qed

lemma close_all_closed:
  "a \<in> set as \<or> pc_is_closed ops (store ! a) \<Longrightarrow> a < length store \<Longrightarrow> pc_is_closed ops (close_all ops as store ! a)"
proof (induction as arbitrary: store)
  case (Cons b as)
  have "a \<in> set as \<or> pc_is_closed ops (store[b := pc_close ops (store ! b)] ! a)"
    using Cons.prems closes by (cases "a = b") auto
  then show ?case using Cons.IH [of "store[b := pc_close ops (store ! b)]"] Cons.prems(2) by simp
qed simp

end

interpretation h2_pool: pool_connection "h2_pool_ops up" for up
proof
  show "fst (pc_request (h2_pool_ops up) t init c) \<noteq> ReqParked"
    if "\<not> pc_is_closed (h2_pool_ops up) c" "pc_can_open_stream (h2_pool_ops up) c" for c t init
    using that by (auto simp: h2_pool_ops_def request_def open_request_def Let_def split: option.split result.split)
  show "pc_is_closed (h2_pool_ops up) (pc_close (h2_pool_ops up) c)" for c
    by (simp add: h2_pool_ops_def close_def destroy_closed)
qed

subsection \<open>Main theorems\<close>

text \<open>
  C34. The cap on connections and the single open.  In every reachable state of a pool, over
  any kind of connection and whatever happens to them, the pool holds at most the configured number
  of connections (one at least), at most one call is opening a connection, and every call that waits
  for an open is registered with one in flight.
\<close>

theorem pool_caps_connections:
  assumes "pool_run ops mx evs sy"
  shows "length (pl_conns (ps_pool sy)) \<le> max 1 mx
    \<and> (\<forall>t u. t \<in> openers (ps_tasks sy) \<longrightarrow> u \<in> openers (ps_tasks sy) \<longrightarrow> t = u)
    \<and> (\<forall>t. t \<in> waiting (ps_tasks sy) \<longrightarrow> pl_opening (ps_pool sy) \<and> t \<in> set (pl_open_waiters (ps_pool sy)))"
  using pool_run_inv [OF assms] by (auto simp: pool_ok_def)

theorem pool_caps_connections_witness:
  "length (pl_conns (ps_pool (pool_step (h2_pool_ops (\<lambda>s. s)) 1 (PoolOpened 0 (Inr sample_conn))
     (pool_step (h2_pool_ops (\<lambda>s. s)) 1 (PoolRequest sample_request) pool_init)))) \<le> 1"
proof -
  let ?ops = "h2_pool_ops (\<lambda>s. s)"
  let ?sy = "pool_step ?ops 1 (PoolOpened 0 (Inr sample_conn)) (pool_step ?ops 1 (PoolRequest sample_request) pool_init)"
  have "pool_run ?ops 1 ([] @ [PoolRequest sample_request] @ [PoolOpened 0 (Inr sample_conn)]) ?sy"
    unfolding append_assoc [symmetric] by (intro pool_run.intros)
  from pool_caps_connections [OF this] show ?thesis by simp
qed

text \<open>
  Requests go where they can be served.  When a live pooled connection has a free stream
  slot, a turn of a call issues its request at once on a live pooled connection with a free slot,
  and that connection does not park it.
\<close>

theorem pool_routes_to_free_slot:
  assumes "t < length (ps_tasks sy)" and "b \<in> set (pl_conns (ps_pool sy))" and "\<not> cn_closed (ps_store sy ! b)"
    and "can_open_stream (ps_store sy ! b)"
  shows "\<exists>a out. ps_tasks (pool_turn (h2_pool_ops up) mx t init sy) ! t = TaskIssued a out \<and> out \<noteq> ReqParked
    \<and> a \<in> set (pl_conns (ps_pool sy)) \<and> \<not> cn_closed (ps_store sy ! a) \<and> can_open_stream (ps_store sy ! a)"
  using h2_pool.turn_served [of t sy b up mx init] assms by (simp add: h2_pool_ops_def live_conns_def)

definition sample_pool :: "conn pool_system" where
  "sample_pool = \<lparr>ps_pool = \<lparr>pl_conns = [0, 1], pl_opening = False, pl_open_waiters = []\<rparr>,
     ps_store = [full_conn, sample_conn], ps_tasks = [TaskAbandoned]\<rparr>"

theorem pool_routes_to_free_slot_witness:
  "\<exists>out. ps_tasks (pool_turn (h2_pool_ops (\<lambda>s. s)) 2 0 sample_request sample_pool) ! 0 = TaskIssued 1 out \<and> out \<noteq> ReqParked"
proof -
  have free: "can_open_stream sample_conn" "\<not> cn_closed sample_conn" "\<not> can_open_stream full_conn"
    by (simp_all add: can_open_stream_def active_streams_def full_conn_def sample_conn_def conn_new_def remote_settings_default_def)
  then have "0 < length (ps_tasks sample_pool)" "1 \<in> set (pl_conns (ps_pool sample_pool))"
      "\<not> cn_closed (ps_store sample_pool ! 1)" "can_open_stream (ps_store sample_pool ! 1)"
    by (simp_all add: sample_pool_def)
  from pool_routes_to_free_slot [OF this, of "\<lambda>s. s" 2 sample_request] obtain a out where
    "ps_tasks (pool_turn (h2_pool_ops (\<lambda>s. s)) 2 0 sample_request sample_pool) ! 0 = TaskIssued a out" "out \<noteq> ReqParked"
    "a \<in> set (pl_conns (ps_pool sample_pool))" "can_open_stream (ps_store sample_pool ! a)" by blast
  moreover from this(3,4) free(3) have "a = 1" by (auto simp: sample_pool_def)
  ultimately show ?thesis by blast
qed

subsection \<open>Waiting for another call's open\<close>

lemma tasks_turn:
  assumes "t < length (ps_tasks sy)"
  shows "waiting (ps_tasks (pool_turn ops mx t init sy)) \<subseteq> insert t (waiting (ps_tasks sy))"
    and "\<not> pl_opening (ps_pool sy) \<Longrightarrow> t \<notin> waiting (ps_tasks (pool_turn ops mx t init sy))"
    and "openers (ps_tasks sy) - {t} \<subseteq> openers (ps_tasks (pool_turn ops mx t init sy))"
    and "pl_opening (ps_pool (pool_turn ops mx t init sy)) \<longleftrightarrow>
      pl_opening (ps_pool sy) \<or> t \<in> openers (ps_tasks (pool_turn ops mx t init sy))"
proof -
  obtain chosen p where c: "pool_choose ops mx (ps_store sy) (ps_pool sy) = (chosen, p)" by fastforce
  have p: "pl_opening p = pl_opening (ps_pool sy)" using pool_choose_cases(1) [OF c] by simp
  note defs = pool_turn_def c issue_def open_one_def set_task_def Let_def openers_update waiting_update p
  show "waiting (ps_tasks (pool_turn ops mx t init sy)) \<subseteq> insert t (waiting (ps_tasks sy))"
      "\<not> pl_opening (ps_pool sy) \<Longrightarrow> t \<notin> waiting (ps_tasks (pool_turn ops mx t init sy))"
      "openers (ps_tasks sy) - {t} \<subseteq> openers (ps_tasks (pool_turn ops mx t init sy))"
      "pl_opening (ps_pool (pool_turn ops mx t init sy)) \<longleftrightarrow>
        pl_opening (ps_pool sy) \<or> t \<in> openers (ps_tasks (pool_turn ops mx t init sy))"
    using assms by (auto simp: defs split: option.splits prod.splits)
qed

lemma tasks_fresh:
  assumes "t < length (ps_tasks sy)"
  shows "waiting (ps_tasks (pool_fresh ops mx t init sy)) \<subseteq> insert t (waiting (ps_tasks sy))"
    and "\<not> pl_opening (ps_pool sy) \<Longrightarrow> t \<notin> waiting (ps_tasks (pool_fresh ops mx t init sy))"
    and "openers (ps_tasks sy) - {t} \<subseteq> openers (ps_tasks (pool_fresh ops mx t init sy))"
    and "pl_opening (ps_pool (pool_fresh ops mx t init sy)) \<longleftrightarrow>
      pl_opening (ps_pool sy) \<or> t \<in> openers (ps_tasks (pool_fresh ops mx t init sy))"
  using tasks_turn [OF assms, of ops mx init] assms
  by (auto simp: pool_fresh_def Let_def issue_def set_task_def openers_update waiting_update split: prod.splits)

lemma open_done_tasks:
  assumes "pool_inv mx sy" and "t \<in> openers (ps_tasks sy)"
  shows "waiting (ps_tasks (open_done ops mx t init result sy)) = {}"
    and "pl_opening (ps_pool (open_done ops mx t init result sy)) \<Longrightarrow> t \<in> openers (ps_tasks (open_done ops mx t init result sy))"
proof -
  have t: "t < length (ps_tasks sy)" and none: "waiting (ps_tasks sy) - set (pl_open_waiters (ps_pool sy)) = {}"
    using assms by (auto simp: openers_def pool_ok_def)
  let ?sy = "\<lambda>c. sy\<lparr>ps_tasks := signal (pl_open_waiters (ps_pool sy)) (ps_tasks sy), ps_store := ps_store sy @ [c],
    ps_pool := (ps_pool sy)\<lparr>pl_opening := False, pl_open_waiters := [], pl_conns := pl_conns (ps_pool sy) @ [length (ps_store sy)]\<rparr>\<rparr>"
  have t': "t < length (ps_tasks (?sy c))" for c using t by (simp add: signal_sets)
  show "waiting (ps_tasks (open_done ops mx t init result sy)) = {}"
      "pl_opening (ps_pool (open_done ops mx t init result sy)) \<Longrightarrow> t \<in> openers (ps_tasks (open_done ops mx t init result sy))"
    using tasks_fresh [OF t', where ops = ops and mx = mx and init = init] none t
    by (auto simp: open_done_def Let_def set_task_def waiting_update signal_sets split: sum.splits)
qed

fun is_abandon :: "'c pool_event \<Rightarrow> bool" where
  "is_abandon (PoolAbandon t) = True"
| "is_abandon _ = False"

lemma opening_has_owner:
  "pool_run ops mx evs sy \<Longrightarrow> list_all (\<lambda>ev. \<not> is_abandon ev) evs \<Longrightarrow> pl_opening (ps_pool sy) \<longrightarrow> openers (ps_tasks sy) \<noteq> {}"
proof (induction rule: pool_run.induct)
  case (pool_run_step evs sy ev)
  then have IH: "pl_opening (ps_pool sy) \<longrightarrow> openers (ps_tasks sy) \<noteq> {}" by simp
  note inv = pool_run_inv [OF pool_run_step(1)]
  show ?case
  proof (cases ev)
    case (PoolRequest init)
    let ?sy = "sy\<lparr>ps_tasks := ps_tasks sy @ [TaskAbandoned]\<rparr>"
    have "openers (ps_tasks ?sy) = openers (ps_tasks sy)" by (auto simp: openers_def nth_append)
    moreover have "length (ps_tasks sy) \<notin> openers (ps_tasks sy)" by (simp add: openers_def)
    ultimately show ?thesis
      using IH tasks_turn(3,4) [of "length (ps_tasks sy)" ?sy ops mx init] PoolRequest by auto
  next
    case (PoolOpened t result)
    have "pl_opening (ps_pool (open_done ops mx t init result sy)) \<longrightarrow> openers (ps_tasks (open_done ops mx t init result sy)) \<noteq> {}"
      if "t < length (ps_tasks sy)" "ps_tasks sy ! t = TaskOpening init" for init
    proof -
      have "t \<in> openers (ps_tasks sy)" using that by (simp add: openers_def)
      from open_done_tasks(2) [OF inv this] show ?thesis by blast
    qed
    then show ?thesis using PoolOpened IH by (simp split: pool_task.split)
  next
    case (PoolResume t)
    have "pl_opening (ps_pool (pool_fresh ops mx t init sy)) \<longrightarrow> openers (ps_tasks (pool_fresh ops mx t init sy)) \<noteq> {}"
      if "t < length (ps_tasks sy)" "ps_tasks sy ! t = TaskSignalled init" for init
    proof -
      have "t \<notin> openers (ps_tasks sy)" using that by (simp add: openers_def)
      with tasks_fresh(3,4) [OF that(1), of ops mx init] IH show ?thesis by blast
    qed
    then show ?thesis using PoolResume IH by (simp split: pool_task.split)
  next
    case PoolClose
    then show ?thesis using IH by (simp add: pool_close_def)
  qed (use pool_run_step IH in simp_all)
qed (simp add: pool_init_def pool_new_def)

text \<open>
  Nobody waits in vain for another call's open.  As long as no call is abandoned, whenever
  some call waits for a connection to be opened there is a call that opens one, and when its
  factory returns, with a connection or with an error, no call is left waiting.
\<close>

theorem pool_open_releases_waiters:
  assumes "pool_run ops mx evs sy" and "list_all (\<lambda>ev. \<not> is_abandon ev) evs" and "waiting (ps_tasks sy) \<noteq> {}"
  shows "\<exists>t. t \<in> openers (ps_tasks sy) \<and> (\<forall>result. waiting (ps_tasks (pool_step ops mx (PoolOpened t result) sy)) = {})"
proof -
  note inv = pool_run_inv [OF assms(1)]
  have "pl_opening (ps_pool sy)" using inv assms(3) by (auto simp: pool_ok_def)
  then obtain t where t: "t \<in> openers (ps_tasks sy)" using opening_has_owner [OF assms(1,2)] by blast
  then show ?thesis using open_done_tasks(1) [OF inv t] by (auto simp: openers_def)
qed

theorem pool_open_releases_waiters_witness:
  "\<exists>t. waiting (ps_tasks (pool_step (h2_pool_ops (\<lambda>s. s)) 1 (PoolOpened t (Inl (h2error_new InternalError ''refused'')))
      (fold (pool_step (h2_pool_ops (\<lambda>s. s)) 1) [PoolRequest sample_request, PoolRequest sample_request] pool_init))) = {}"
proof -
  let ?ops = "h2_pool_ops (\<lambda>s. s)" and ?r = "PoolRequest sample_request"
  let ?sy = "fold (pool_step ?ops 1) [?r, ?r] pool_init"
  have run: "pool_run ?ops 1 ([] @ [?r] @ [?r]) ?sy" unfolding append_assoc [symmetric] fold_simps by (intro pool_run.intros)
  have "1 \<in> waiting (ps_tasks ?sy)"
    by (simp add: pool_turn_def pool_choose_def open_one_def set_task_def pool_init_def pool_new_def waiting_def Let_def)
  with pool_open_releases_waiters [OF run] show ?thesis by fastforce
qed

subsection \<open>Where the pool falls short\<close>

fun is_issued :: "pool_task \<Rightarrow> bool" where
  "is_issued (TaskIssued a out) = True"
| "is_issued _ = False"

text \<open>A pool whose open was abandoned: nobody opens, no connection is held.\<close>

definition wedged :: "'c pool_system \<Rightarrow> bool" where
  "wedged sy \<longleftrightarrow> pl_opening (ps_pool sy) \<and> pl_conns (ps_pool sy) = [] \<and> openers (ps_tasks sy) = {}
     \<and> \<not> list_ex is_issued (ps_tasks sy)"

lemma wedged_turn:
  assumes "wedged sy" and "t < length (ps_tasks sy)"
  shows "wedged (pool_turn ops mx t init sy)"
proof -
  have "pool_turn ops mx t init sy = open_one t init (sy\<lparr>ps_pool := (ps_pool sy)\<lparr>pl_conns := []\<rparr>\<rparr>)"
    using assms(1) by (simp add: pool_turn_def pool_choose_def wedged_def)
  then show ?thesis
    using assms set_update_subset_insert [of "ps_tasks sy" t "TaskWaiting init"]
    by (auto simp: wedged_def open_one_def set_task_def Let_def openers_update list_ex_iff dest!: subsetD)
qed

lemma wedged_step: "wedged sy \<Longrightarrow> wedged (pool_step ops mx ev sy)"
proof (cases ev)
  case (PoolRequest init)
  assume w: "wedged sy"
  have "openers (ts @ [TaskAbandoned]) = openers ts" for ts by (auto simp: openers_def nth_append)
  then have "wedged (sy\<lparr>ps_tasks := ps_tasks sy @ [TaskAbandoned]\<rparr>)" using w by (simp add: wedged_def)
  from wedged_turn [OF this] show ?thesis using PoolRequest by simp
next
  case (PoolOpened t result)
  assume "wedged sy"
  then show ?thesis using PoolOpened by (auto simp: wedged_def openers_def split: pool_task.split)
next
  case (PoolResume t)
  assume w: "wedged sy"
  then have "pool_fresh ops mx t init sy = pool_turn ops mx t init sy" for init
    by (simp add: pool_fresh_def wedged_def)
  then show ?thesis using PoolResume w wedged_turn [OF w] by (simp split: pool_task.split)
next
  case (PoolAbandon t)
  assume "wedged sy"
  then show ?thesis
    using PoolAbandon set_update_subset_insert [of "ps_tasks sy" t TaskAbandoned]
    by (auto simp: wedged_def set_task_def openers_update list_ex_iff dest!: subsetD)
next
  case PoolClose
  assume "wedged sy"
  then show ?thesis using PoolClose by (simp add: pool_close_def wedged_def)
qed (simp add: wedged_def)


text \<open>
  A connection that is going away still attracts requests.  After a graceful GOAWAY a
  connection is neither closed nor full, so the pool routes the next request to it, where it is
  refused, although another pooled connection would take it.
\<close>

theorem pool_routes_to_going_away:
  "\<exists>sy. ps_tasks (pool_turn (h2_pool_ops (\<lambda>s. s)) 2 0 sample_request
        (sample_pool\<lparr>ps_store := [on_goaway 1 0 sample_conn, sample_conn]\<rparr>)) ! 0 =
      TaskIssued 0 (ReqErr (h2error_new RefusedStream ''connection is going away''))
    \<and> request (\<lambda>s. s) 0 sample_request sample_conn = (ReqOpened 3 1, sy)"
proof -
  have "ec_from_value 0 = Some NoError" using ec_from_value_value [of NoError] by simp
  then have g: "on_goaway 1 0 sample_conn = sample_conn\<lparr>cn_goaway_received := True\<rparr>"
    by (simp add: on_goaway_def Let_def wake_slot_waiters_def wake_def sample_conn_def conn_new_def)
  have free: "can_open_stream (sample_conn\<lparr>cn_goaway_received := b\<rparr>)" "\<not> cn_closed sample_conn" for b
    by (simp_all add: can_open_stream_def active_streams_def sample_conn_def conn_new_def remote_settings_default_def)
  obtain block where "hpack_encode (build_request_headers (\<lambda>s. s) sample_request) = Ok block"
    using hpack_encode_bytes by blast
  then have "\<exists>sy. request (\<lambda>s. s) 0 sample_request sample_conn = (ReqOpened 3 1, sy)"
    by (simp add: request_def open_request_def refuse_request_def can_open_stream_def active_streams_def Let_def
        sample_conn_def conn_new_def remote_settings_default_def)
  then show ?thesis
    using free by (simp add: g pool_turn_def pool_choose_def sample_pool_def h2_pool_ops_def issue_def set_task_def
        request_def refuse_request_def Let_def)
qed

end
