(* ===== verification/Web.thy ===== *)
theory Web
  imports Pool
begin

text \<open>
  \<open>h2ts-client/src/web.rs\<close>: the browser's WebSocket as the transport of a connection.

  The WebSocket object is outside the program: constructing it and sending on it are parameters, and
  its callbacks are events.  What is modelled is how the callbacks resolve the open, how messages
  become the chunks of the inbound stream and its end, and what a failure is turned into.
\<close>

subsection \<open>Opening\<close>

text \<open>
  The sender of the open's channel is shared by the two callbacks and taken by the first that fires;
  the callbacks live until the channel is resolved, so the channel is never cancelled.
\<close>

datatype open_event = OnOpen | OnError

record opening_socket =
  op_tx :: bool
  op_result :: "(string, unit) result option"

definition opening_new :: opening_socket where
  "opening_new = \<lparr>op_tx = True, op_result = None\<rparr>"

fun open_step :: "open_event \<Rightarrow> opening_socket \<Rightarrow> opening_socket" where
  "open_step OnOpen o' = (if op_tx o' then \<lparr>op_tx = False, op_result = Some (Ok ())\<rparr> else o')"
| "open_step OnError o' = (if op_tx o' then \<lparr>op_tx = False, op_result = Some (Err ''WebSocket connection failed'')\<rparr> else o')"

text \<open>\<open>Pending\<close> while neither callback has fired; the protocols are passed on only if there are any.\<close>

definition open_socket :: "(string \<Rightarrow> string list option \<Rightarrow> (string, 'ws) result) \<Rightarrow> string \<Rightarrow> string list \<Rightarrow> open_event list
    \<Rightarrow> (string, 'ws) result poll" where
  "open_socket js_new url protocols evs =
     (case js_new url (if protocols = [] then None else Some protocols) of
        Err e \<Rightarrow> Ready (Err e)
      | Panic \<Rightarrow> Ready Panic
      | Ok ws \<Rightarrow>
          (case op_result (fold open_step evs opening_new) of
             None \<Rightarrow> Pending
           | Some r \<Rightarrow> Ready (rbind r (\<lambda>_. Ok ws))))"

subsection \<open>The transport\<close>

datatype message_data = ArrayBuffer bytes | OtherData

record ws_transport =
  wt_in_tx :: bool
  wt_in :: "bytes list"

definition websocket_transport :: ws_transport where
  "websocket_transport = \<lparr>wt_in_tx = True, wt_in = []\<rparr>"

definition on_message :: "message_data \<Rightarrow> ws_transport \<Rightarrow> ws_transport" where
  "on_message data t =
     (case data of
        ArrayBuffer bs \<Rightarrow> if bs \<noteq> [] \<and> wt_in_tx t then t\<lparr>wt_in := wt_in t @ [bs]\<rparr> else t
      | OtherData \<Rightarrow> t)"

definition on_close :: "ws_transport \<Rightarrow> ws_transport" where
  "on_close t = t\<lparr>wt_in_tx := False\<rparr>"

text \<open>The inbound stream: the chunks in order, then the end once the sender is gone.\<close>

definition reader_next :: "ws_transport \<Rightarrow> bytes option poll \<times> ws_transport" where
  "reader_next t =
     (case wt_in t of
        chunk # chunks \<Rightarrow> (Ready (Some chunk), t\<lparr>wt_in := chunks\<rparr>)
      | [] \<Rightarrow> if wt_in_tx t then (Pending, t) else (Ready None, t))"

definition sink_start_send :: "(bytes \<Rightarrow> 'ws \<Rightarrow> (string, 'ws) result) \<Rightarrow> bytes \<Rightarrow> 'ws \<Rightarrow> (string, 'ws) result" where
  "sink_start_send js_send item ws = js_send item ws"

text \<open>The other methods of \<open>WsSink\<close>: it is always ready, and closing it closes the WebSocket.\<close>

definition sink_poll_ready :: "(string, unit) result poll" where
  "sink_poll_ready = Ready (Ok ())"

definition sink_poll_flush :: "(string, unit) result poll" where
  "sink_poll_flush = Ready (Ok ())"

definition sink_poll_close :: "('ws \<Rightarrow> 'ws) \<Rightarrow> 'ws \<Rightarrow> (string, unit) result poll \<times> 'ws" where
  "sink_poll_close js_close ws = (Ready (Ok ()), js_close ws)"

subsection \<open>Connecting\<close>

definition connect_websocket :: "(string \<Rightarrow> string list option \<Rightarrow> (string, 'ws) result) \<Rightarrow> string \<Rightarrow> string list \<Rightarrow> connect_options
    \<Rightarrow> open_event list \<Rightarrow> (string, system \<times> ws_transport \<times> 'ws) result poll" where
  "connect_websocket js_new url protocols options evs =
     (case open_socket js_new url protocols evs of
        Pending \<Rightarrow> Pending
      | Ready r \<Rightarrow> Ready (rbind r (\<lambda>ws. Ok (sys_init options, websocket_transport, ws))))"

text \<open>
  The result that the factory of \<open>connect_pool\<close> hands to the pool; a JavaScript error is its debug
  text.
\<close>

definition pool_factory :: "(string, conn) result \<Rightarrow> (h2error + conn) option" where
  "pool_factory r =
     (case r of Ok c \<Rightarrow> Some (Inr c) | Err e \<Rightarrow> Some (Inl (h2error_new ConnectError e)) | Panic \<Rightarrow> None)"

text \<open>
  \<open>connect_pool\<close>: an empty pool and the factory it opens connections with, as a function of the
  callbacks of the socket it constructs.
\<close>

definition connect_pool :: "(string \<Rightarrow> string list option \<Rightarrow> (string, 'ws) result) \<Rightarrow> string \<Rightarrow> string list \<Rightarrow> connect_options
    \<Rightarrow> (open_event list \<Rightarrow> (h2error + conn) option poll) \<times> conn pool_system" where
  "connect_pool js_new url protocols options =
     (\<lambda>evs. case connect_websocket js_new url protocols options evs of
        Pending \<Rightarrow> Pending
      | Ready r \<Rightarrow> Ready (pool_factory (rbind r (\<lambda>(sy, t, ws). Ok (sy_conn sy)))), pool_init)"

lemma connect_pool_outcome:
  assumes "js_new url (if protocols = [] then None else Some protocols) = Ok ws"
  shows "fst (connect_pool js_new url protocols options) (OnOpen # evs) = Ready (Some (Inr (connect options)))"
    and "fst (connect_pool js_new url protocols options) (OnError # evs)
      = Ready (Some (Inl (h2error_new ConnectError ''WebSocket connection failed'')))"
proof -
  have decided: "open_step ev \<lparr>op_tx = False, op_result = r\<rparr> = \<lparr>op_tx = False, op_result = r\<rparr>" for ev r
    by (cases ev) simp_all
  have "op_result (fold open_step evs \<lparr>op_tx = False, op_result = r\<rparr>) = r" for r
    by (induction evs) (simp_all add: decided)
  then show "fst (connect_pool js_new url protocols options) (OnOpen # evs) = Ready (Some (Inr (connect options)))"
      "fst (connect_pool js_new url protocols options) (OnError # evs)
        = Ready (Some (Inl (h2error_new ConnectError ''WebSocket connection failed'')))"
    using assms by (simp_all add: connect_pool_def connect_websocket_def open_socket_def opening_new_def pool_factory_def sys_init_def)
qed

subsection \<open>Runs of the transport\<close>

datatype web_event = WtMessage message_data | WtClose | WtPoll

fun web_steps :: "web_event list \<Rightarrow> ws_transport \<Rightarrow> bytes option list \<times> ws_transport" where
  "web_steps [] t = ([], t)"
| "web_steps (WtMessage data # evs) t = web_steps evs (on_message data t)"
| "web_steps (WtClose # evs) t = web_steps evs (on_close t)"
| "web_steps (WtPoll # evs) t =
     (case reader_next t of
        (Ready r, t) \<Rightarrow> (case web_steps evs t of (out, t) \<Rightarrow> (r # out, t))
      | (Pending, t) \<Rightarrow> web_steps evs t)"

text \<open>The reference: the non-empty binary messages in front of the first close.\<close>

fun binary_messages :: "web_event list \<Rightarrow> bytes list" where
  "binary_messages [] = []"
| "binary_messages (WtMessage (ArrayBuffer bs) # evs) = (if bs = [] then [] else [bs]) @ binary_messages evs"
| "binary_messages (WtMessage OtherData # evs) = binary_messages evs"
| "binary_messages (WtClose # evs) = []"
| "binary_messages (WtPoll # evs) = binary_messages evs"

fun chunks_of :: "bytes option list \<Rightarrow> bytes list" where
  "chunks_of [] = []"
| "chunks_of (Some c # out) = c # chunks_of out"
| "chunks_of (None # out) = []"

lemma web_steps_delivers:
  "web_steps evs t = (out, t') \<Longrightarrow>
   chunks_of out @ wt_in t' = wt_in t @ (if wt_in_tx t then binary_messages evs else [])
   \<and> (None \<in> set out \<longrightarrow> wt_in t' = [] \<and> \<not> wt_in_tx t' \<and> (wt_in_tx t \<longrightarrow> WtClose \<in> set evs))
   \<and> (wt_in_tx t' \<longrightarrow> wt_in_tx t)"
proof (induction evs arbitrary: t out t')
  case (Cons ev evs)
  show ?case
  proof (cases ev)
    case (WtMessage data)
    have ih: "web_steps evs (on_message data t) = (out, t')" using Cons.prems WtMessage by simp
    show ?thesis using Cons.IH [OF ih] WtMessage by (cases data) (simp_all add: on_message_def split: if_splits)
  next
    case WtClose
    have ih: "web_steps evs (on_close t) = (out, t')" using Cons.prems WtClose by simp
    show ?thesis using Cons.IH [OF ih] WtClose by (simp add: on_close_def)
  next
    case WtPoll
    show ?thesis
    proof (cases "wt_in t")
      case Nil
      obtain out' t'' where w: "web_steps evs t = (out', t'')" by (cases "web_steps evs t")
      have "t' = t''" "out = (if wt_in_tx t then out' else None # out')"
        using Cons.prems WtPoll Nil w by (auto simp: reader_next_def split: if_splits)
      then show ?thesis using Cons.IH [OF w] WtPoll Nil by (auto split: if_splits)
    next
      case q: (Cons c cs)
      obtain out' t'' where w: "web_steps evs (t\<lparr>wt_in := cs\<rparr>) = (out', t'')" by (cases "web_steps evs (t\<lparr>wt_in := cs\<rparr>)")
      have "t' = t''" "out = Some c # out'" using Cons.prems WtPoll q w by (simp_all add: reader_next_def)
      then show ?thesis using Cons.IH [OF w] WtPoll q by simp
    qed
  qed
qed simp

text \<open>
  C36. The browser's messages are the connection's input.  However messages, the close and the
  reader's polls interleave, the chunks read so far with those still queued are the non-empty binary
  messages in front of the close, in order; text messages are ignored; and the end of the stream is
  reported only after a close, when nothing is left to read.  So frames that the peer serialized and the
  tunnel cut into messages in any way are decoded, once they have been read, as exactly those frames.
\<close>

theorem web_frames_arrive:
  assumes "web_steps evs websocket_transport = (out, t)" and "\<forall>f \<in> set fs. wf_frame m f"
    and "concat (binary_messages evs) = concat (map serialize_frame fs)"
  shows "chunks_of out @ wt_in t = binary_messages evs \<and> (None \<in> set out \<longrightarrow> wt_in t = [] \<and> WtClose \<in> set evs)
    \<and> (wt_in t = [] \<longrightarrow> feed_all fd_push (chunks_of out) (fd_new m) = Ok (fs, fd_new m))"
proof -
  have d: "chunks_of out @ wt_in t = binary_messages evs" "None \<in> set out \<Longrightarrow> wt_in t = [] \<and> WtClose \<in> set evs"
    using web_steps_delivers [OF assms(1)] by (auto simp: websocket_transport_def)
  then have "feed_all fd_push (chunks_of out) (fd_new m) = Ok (fs, fd_new m)" if "wt_in t = []"
    using that assms(2,3) by (intro feed_serialized) simp_all
  with d show ?thesis by blast
qed

theorem web_frames_arrive_witness:
  "feed_all fd_push (chunks_of (fst (web_steps
     [WtMessage (ArrayBuffer [0, 0, 4, 8, 0]), WtMessage OtherData, WtPoll, WtMessage (ArrayBuffer [0, 0, 0, 0, 0, 0, 1, 0]),
      WtClose, WtPoll, WtPoll] websocket_transport))) (fd_new 16384) = Ok ([WindowUpdate 0 256], fd_new 16384)"
proof -
  let ?evs = "[WtMessage (ArrayBuffer [0, 0, 4, 8, 0]), WtMessage OtherData, WtPoll, WtMessage (ArrayBuffer [0, 0, 0, 0, 0, 0, 1, 0]),
      WtClose, WtPoll, WtPoll]"
  have steps: "web_steps ?evs websocket_transport = ([Some [0, 0, 4, 8, 0], Some [0, 0, 0, 0, 0, 0, 1, 0], None], \<lparr>wt_in_tx = False, wt_in = []\<rparr>)"
    by (simp add: websocket_transport_def on_message_def on_close_def reader_next_def)
  have wf: "\<forall>f \<in> set [WindowUpdate 0 256]. wf_frame 16384 f" by (simp add: wf_frame_def payload_length_def)
  have "concat (binary_messages ?evs) = concat (map serialize_frame [WindowUpdate 0 256])"
    by (simp add: serialize_frame_bytes Let_def be32_def mask31_def)
  from web_frames_arrive [OF steps wf this] show ?thesis unfolding steps fst_conv by simp
qed

text \<open>The first of the two callbacks decides, and a failed open reaches the pool as a connect error.\<close>

lemma open_first_event:
  "js_new url (if protocols = [] then None else Some protocols) = Ok ws \<Longrightarrow>
   open_socket js_new url protocols (ev # evs) = Ready (case ev of OnOpen \<Rightarrow> Ok ws | OnError \<Rightarrow> Err ''WebSocket connection failed'')"
proof -
  have "fold open_step evs o' = o'" if "\<not> op_tx o'" for o'
    using that
  proof (induction evs arbitrary: o')
    case (Cons ev evs)
    then show ?case by (cases ev) simp_all
  qed simp
  then show "js_new url (if protocols = [] then None else Some protocols) = Ok ws \<Longrightarrow>
      open_socket js_new url protocols (ev # evs) = Ready (case ev of OnOpen \<Rightarrow> Ok ws | OnError \<Rightarrow> Err ''WebSocket connection failed'')"
    by (cases ev) (simp_all add: open_socket_def opening_new_def)
qed

end
