(* ===== verification/Bridge.thy ===== *)
theory Bridge
  imports Utf8
begin

text \<open>
  \<open>h2ts-server/src/wslay.rs\<close>: the pump between a WebSocket and a byte-stream peer.

  wslay itself is a C library: its calls are parameters.  A call of \<open>wslay_event_recv\<close> is a tree
  whose nodes are the receive callbacks it makes and whose leaf is its return code and new context, so
  the callbacks of this file run against the shared state in the order the library makes them; a call
  of \<open>wslay_event_send\<close> is the list of byte strings it hands to \<open>send_callback\<close>, the only callback it
  makes, which always takes all of them.  Nothing else is assumed of the library.  The four directions
  of \<open>bridge_with\<close> run on one task and interleave at their awaits: a step of the model is one section
  between two awaits, and the record keeps, per direction, what it waits for.  The socket's write half
  is behind a fair lock, so it is a queue of writers.  Both sockets may take bytes in pieces.
\<close>

subsection \<open>The library's calls and the state its callbacks share\<close>

datatype 'w wcall =
    Return int 'w
  | CallRecv nat "bytes option \<Rightarrow> 'w wcall"
  | FrameStart u8 "'w wcall"
  | FrameChunk bytes "'w wcall"
  | MsgRecv u8 "bytes option" u16 "'w wcall"

record 'w wslay_lib =
  wl_server_init :: "'w option"
  wl_event_recv :: "'w \<Rightarrow> 'w wcall"
  wl_event_send :: "'w \<Rightarrow> bytes list \<times> 'w"
  wl_queue_msg :: "u8 \<Rightarrow> bytes \<Rightarrow> 'w \<Rightarrow> 'w"
  wl_queue_close :: "u16 \<Rightarrow> bytes \<Rightarrow> 'w \<Rightarrow> 'w"
  wl_close_received :: "'w \<Rightarrow> bool"

definition READ_CHUNK :: nat where
  "READ_CHUNK = 64 * 1024"

datatype control_event = CloseEvent u16 bytes | PingEvent bytes | PongEvent bytes

text \<open>
  \<open>sh_log\<close> is not in the program and nothing reads it: it records the receive callbacks made so far,
  for the statements about them.
\<close>

datatype callback = CbRecv bytes | CbStart u8 | CbChunk bytes | CbMsg u8 "bytes option" u16

record shared_state =
  sh_inbound :: bytes
  sh_inbound_pos :: nat
  sh_outbound :: bytes
  sh_to_peer :: bytes
  sh_cur_is_data :: bool
  sh_control_events :: "control_event list"
  sh_log :: "callback list"

definition shared_default :: shared_state where
  "shared_default = \<lparr>sh_inbound = [], sh_inbound_pos = 0, sh_outbound = [], sh_to_peer = [],
     sh_cur_is_data = False, sh_control_events = [], sh_log = []\<rparr>"

subsection \<open>Callbacks\<close>

definition recv_cb :: "nat \<Rightarrow> shared_state \<Rightarrow> bytes option \<times> shared_state" where
  "recv_cb len s =
     (let avail = length (sh_inbound s) - sh_inbound_pos s in
      if avail = 0 then (None, s)
      else let n = min len avail; from = sh_inbound_pos s;
               data = take n (drop from (sh_inbound s)) in
           (Some data, s\<lparr>sh_inbound_pos := from + n, sh_log := sh_log s @ [CbRecv data]\<rparr>))"

definition send_cb :: "bytes \<Rightarrow> shared_state \<Rightarrow> shared_state" where
  "send_cb data s = s\<lparr>sh_outbound := sh_outbound s @ data\<rparr>"

definition frame_start_cb :: "u8 \<Rightarrow> shared_state \<Rightarrow> shared_state" where
  "frame_start_cb opcode s =
     s\<lparr>sh_cur_is_data := (drop_bit 3 opcode AND 1 = 0), sh_log := sh_log s @ [CbStart opcode]\<rparr>"

definition frame_chunk_cb :: "bytes \<Rightarrow> shared_state \<Rightarrow> shared_state" where
  "frame_chunk_cb data s =
     (let s = s\<lparr>sh_log := sh_log s @ [CbChunk data]\<rparr> in
      if sh_cur_is_data s then s\<lparr>sh_to_peer := sh_to_peer s @ data\<rparr> else s)"

definition msg_event :: "u8 \<Rightarrow> bytes option \<Rightarrow> u16 \<Rightarrow> control_event option" where
  "msg_event opcode msg status_code =
     (if opcode = 0x8 then
        Some (CloseEvent status_code (case msg of Some m \<Rightarrow> if 2 \<le> length m then drop 2 m else [] | None \<Rightarrow> []))
      else if opcode = 0x9 \<or> opcode = 0xA then
        (let payload = (case msg of Some m \<Rightarrow> m | None \<Rightarrow> []) in
         Some (if opcode = 0x9 then PingEvent payload else PongEvent payload))
      else None)"

definition msg_recv_cb :: "u8 \<Rightarrow> bytes option \<Rightarrow> u16 \<Rightarrow> shared_state \<Rightarrow> shared_state" where
  "msg_recv_cb opcode msg status_code s =
     (let s = s\<lparr>sh_log := sh_log s @ [CbMsg opcode msg status_code]\<rparr> in
      case msg_event opcode msg status_code of
        Some ev \<Rightarrow> s\<lparr>sh_control_events := sh_control_events s @ [ev]\<rparr>
      | None \<Rightarrow> s)"

text \<open>A call of the library with the callbacks that \<open>bridge_with\<close> registers.\<close>

primrec run_call :: "'w wcall \<Rightarrow> shared_state \<Rightarrow> int \<times> 'w \<times> shared_state" where
  "run_call (Return rc w) s = (rc, w, s)"
| "run_call (CallRecv len k) s = run_call (k (fst (recv_cb len s))) (snd (recv_cb len s))"
| "run_call (FrameStart opcode k) s = run_call k (frame_start_cb opcode s)"
| "run_call (FrameChunk data k) s = run_call k (frame_chunk_cb data s)"
| "run_call (MsgRecv opcode msg status_code k) s = run_call k (msg_recv_cb opcode msg status_code s)"

definition run_send :: "bytes list \<Rightarrow> shared_state \<Rightarrow> shared_state" where
  "run_send datas s = foldl (\<lambda>s data. send_cb data s) s datas"

subsection \<open>Configuration\<close>

record close_frame =
  cf_code :: u16
  cf_reason :: string

definition close_frame_default :: close_frame where
  "close_frame_default = \<lparr>cf_code = 1000, cf_reason = []\<rparr>"

datatype control_cmd = PingCmd bytes | PongCmd bytes | CloseCmd close_frame

record keep_alive =
  ka_interval :: nat
  ka_timeout :: nat
  ka_close :: close_frame

text \<open>Durations and instants are in seconds; only their order and sums matter.\<close>

definition keep_alive_new :: "nat \<Rightarrow> nat \<Rightarrow> keep_alive" where
  "keep_alive_new interval timeout =
     \<lparr>ka_interval = interval, ka_timeout = timeout, ka_close = \<lparr>cf_code = 1001, cf_reason = ''keepalive timeout''\<rparr>\<rparr>"

definition keep_alive_default :: keep_alive where
  "keep_alive_default = keep_alive_new 30 15"

text \<open>Of a hook the model keeps whether it is set; its calls are logged in the bridge's state.\<close>

record bridge_config =
  bc_close :: close_frame
  bc_error_close :: close_frame
  bc_keepalive :: "keep_alive option"
  bc_control :: bool
  bc_on_close :: bool
  bc_on_ping :: bool
  bc_on_pong :: bool

definition bridge_config_default :: bridge_config where
  "bridge_config_default =
     \<lparr>bc_close = close_frame_default, bc_error_close = \<lparr>cf_code = 1011, cf_reason = []\<rparr>,
      bc_keepalive = Some keep_alive_default, bc_control = False, bc_on_close = False, bc_on_ping = False, bc_on_pong = False\<rparr>"

datatype end_reason = PeerClose close_frame | LocalClose close_frame | Abnormal

definition queue_msg :: "'w wslay_lib \<Rightarrow> u8 \<Rightarrow> bytes \<Rightarrow> 'w \<Rightarrow> 'w" where
  "queue_msg lib opcode payload w = wl_queue_msg lib opcode payload w"

definition queue_close :: "'w wslay_lib \<Rightarrow> close_frame \<Rightarrow> 'w \<Rightarrow> 'w" where
  "queue_close lib cf w = wl_queue_close lib (cf_code cf) (as_bytes (cf_reason cf)) w"

subsection \<open>The running bridge\<close>

datatype direction = WsToPeer | PeerToWs | ControlDir | KeepaliveDir

datatype ws_phase =
    WsReading
  | WsPeerWriting bytes bytes bool "control_event list"
  | WsReplying bool "close_frame option"
  | WsShutdown end_reason
  | WsErrorClosing

datatype peer_phase = PeerReading | PeerSending | PeerClosing close_frame

datatype control_phase = ControlWaiting | ControlSending | ControlParked

datatype keepalive_phase =
    KaChecking
  | KaSleeping instant
  | KaPinging
  | KaAwaiting instant instant
  | KaClosing
  | KaParked

record 'w bridge =
  bd_wslay :: 'w
  bd_shared :: shared_state
  bd_last_activity :: instant
  bd_now :: instant
  bd_ws :: ws_phase
  bd_peer :: peer_phase
  bd_control :: control_phase
  bd_keepalive :: keepalive_phase
  bd_commands :: "control_cmd list"
  bd_senders :: bool
  bd_lock :: "(direction \<times> bytes) list"
  bd_peer_written :: bytes
  bd_ws_written :: bytes
  bd_pings :: "bytes list"
  bd_pongs :: "bytes list"
  bd_end :: "(string + end_reason) option"

definition bridge_start :: "'w wslay_lib \<Rightarrow> bridge_config \<Rightarrow> instant \<Rightarrow> (string, 'w bridge) result" where
  "bridge_start lib cfg now =
     (case wl_server_init lib of
        None \<Rightarrow> Err ''wslay_event_context_server_init failed''
      | Some w \<Rightarrow> Ok \<lparr>bd_wslay = w, bd_shared = shared_default, bd_last_activity = now, bd_now = now,
          bd_ws = WsReading, bd_peer = PeerReading,
          bd_control = (if bc_control cfg then ControlWaiting else ControlParked),
          bd_keepalive = (if bc_keepalive cfg = None then KaParked else KaChecking),
          bd_commands = [], bd_senders = True, bd_lock = [], bd_peer_written = [], bd_ws_written = [],
          bd_pings = [], bd_pongs = [], bd_end = None\<rparr>)"

text \<open>
  Queue something, run \<open>wslay_event_send\<close> and take what it produced: the section that every sender
  of this file has.
\<close>

definition flush_section :: "'w wslay_lib \<Rightarrow> ('w \<Rightarrow> 'w) \<Rightarrow> 'w bridge \<Rightarrow> bytes \<times> 'w bridge" where
  "flush_section lib queue b =
     (case wl_event_send lib (queue (bd_wslay b)) of (datas, w) \<Rightarrow>
        let s = run_send datas (bd_shared b) in
        (sh_outbound s, b\<lparr>bd_wslay := w, bd_shared := s\<lparr>sh_outbound := []\<rparr>\<rparr>))"

text \<open>\<open>if !outbound.is_empty() { ws_write.lock().await.write_all(&outbound).await }\<close>: wait behind the lock.\<close>

definition lock_write :: "direction \<Rightarrow> bytes \<Rightarrow> 'w bridge \<Rightarrow> 'w bridge" where
  "lock_write d outbound b = b\<lparr>bd_lock := bd_lock b @ [(d, outbound)]\<rparr>"

definition finish :: "(string + end_reason) \<Rightarrow> 'w bridge \<Rightarrow> 'w bridge" where
  "finish r b = b\<lparr>bd_end := Some r\<rparr>"

subsection \<open>Direction 1: WebSocket to peer\<close>

definition ws_after_reply :: "bool \<Rightarrow> close_frame option \<Rightarrow> 'w bridge \<Rightarrow> 'w bridge" where
  "ws_after_reply closed peer_close b =
     b\<lparr>bd_ws := (if closed then WsShutdown (case peer_close of Some cf \<Rightarrow> PeerClose cf | None \<Rightarrow> Abnormal) else WsReading)\<rparr>"

definition close_code :: "u16 \<Rightarrow> u16" where
  "close_code code = (if code = 0 then 1005 else code)"

fun handle_events :: "bridge_config \<Rightarrow> control_event list \<Rightarrow> close_frame option \<Rightarrow> 'w bridge \<Rightarrow> close_frame option \<times> 'w bridge" where
  "handle_events cfg [] peer_close b = (peer_close, b)"
| "handle_events cfg (CloseEvent code reason # evs) peer_close b =
     handle_events cfg evs (Some \<lparr>cf_code = close_code code, cf_reason = decode_utf8 reason\<rparr>) b"
| "handle_events cfg (PingEvent p # evs) peer_close b =
     handle_events cfg evs peer_close (if bc_on_ping cfg then b\<lparr>bd_pings := bd_pings b @ [p]\<rparr> else b)"
| "handle_events cfg (PongEvent p # evs) peer_close b =
     handle_events cfg evs peer_close (if bc_on_pong cfg then b\<lparr>bd_pongs := bd_pongs b @ [p]\<rparr> else b)"

definition ws_after_write :: "bridge_config \<Rightarrow> bytes \<Rightarrow> bool \<Rightarrow> control_event list \<Rightarrow> 'w bridge \<Rightarrow> 'w bridge" where
  "ws_after_write cfg outbound closed events b =
     (case handle_events cfg events None b of (peer_close, b) \<Rightarrow>
        if outbound \<noteq> [] then lock_write WsToPeer outbound (b\<lparr>bd_ws := WsReplying closed peer_close\<rparr>)
        else ws_after_reply closed peer_close b)"

definition ws_read :: "'w wslay_lib \<Rightarrow> bridge_config \<Rightarrow> bytes \<Rightarrow> 'w bridge \<Rightarrow> 'w bridge" where
  "ws_read lib cfg buf b =
     (let b = b\<lparr>bd_last_activity := bd_now b\<rparr>;
          s = (bd_shared b)\<lparr>sh_inbound := sh_inbound (bd_shared b) @ buf\<rparr>
      in case run_call (wl_event_recv lib (bd_wslay b)) s of (recv_rc, w, s) \<Rightarrow>
         case wl_event_send lib w of (datas, w) \<Rightarrow>
         let s = run_send datas s;
             closed = (recv_rc \<noteq> 0 \<or> wl_close_received lib w);
             b = b\<lparr>bd_wslay := w,
                   bd_shared := s\<lparr>sh_inbound := drop (sh_inbound_pos s) (sh_inbound s), sh_inbound_pos := 0,
                     sh_to_peer := [], sh_outbound := [], sh_control_events := []\<rparr>\<rparr>
         in if sh_to_peer s \<noteq> []
            then b\<lparr>bd_ws := WsPeerWriting (sh_to_peer s) (sh_outbound s) closed (sh_control_events s)\<rparr>
            else ws_after_write cfg (sh_outbound s) closed (sh_control_events s) b)"

definition ws_write_failed :: "'w wslay_lib \<Rightarrow> bridge_config \<Rightarrow> 'w bridge \<Rightarrow> 'w bridge" where
  "ws_write_failed lib cfg b =
     (case flush_section lib (queue_close lib (bc_error_close cfg)) b of (outbound, b) \<Rightarrow>
        if outbound \<noteq> [] then lock_write WsToPeer outbound (b\<lparr>bd_ws := WsErrorClosing\<rparr>)
        else finish (Inr (LocalClose (bc_error_close cfg))) (b\<lparr>bd_ws := WsErrorClosing\<rparr>))"

subsection \<open>Direction 2: peer to WebSocket\<close>

definition peer_read :: "'w wslay_lib \<Rightarrow> bytes \<Rightarrow> 'w bridge \<Rightarrow> 'w bridge" where
  "peer_read lib buf b =
     (case flush_section lib (queue_msg lib 0x2 buf) b of (outbound, b) \<Rightarrow>
        if outbound \<noteq> [] then lock_write PeerToWs outbound (b\<lparr>bd_peer := PeerSending\<rparr>) else b)"

definition peer_ended :: "'w wslay_lib \<Rightarrow> close_frame \<Rightarrow> 'w bridge \<Rightarrow> 'w bridge" where
  "peer_ended lib cf b =
     (case flush_section lib (queue_close lib cf) b of (outbound, b) \<Rightarrow>
        if outbound \<noteq> [] then lock_write PeerToWs outbound (b\<lparr>bd_peer := PeerClosing cf\<rparr>)
        else finish (Inr (LocalClose cf)) b)"

subsection \<open>Direction 3: control frames of the application\<close>

definition ws_control_send :: "control_cmd \<Rightarrow> 'w bridge \<Rightarrow> (string, unit) result \<times> 'w bridge" where
  "ws_control_send cmd b =
     (if bd_end b = None then (Ok (), b\<lparr>bd_commands := bd_commands b @ [cmd]\<rparr>)
      else (Err ''bridge has ended'', b))"

definition queue_cmd :: "'w wslay_lib \<Rightarrow> control_cmd \<Rightarrow> 'w \<Rightarrow> 'w" where
  "queue_cmd lib cmd w =
     (case cmd of PingCmd p \<Rightarrow> queue_msg lib 0x9 p w
      | PongCmd p \<Rightarrow> queue_msg lib 0xA p w
      | CloseCmd cf \<Rightarrow> queue_close lib cf w)"

definition control_poll :: "'w wslay_lib \<Rightarrow> 'w bridge \<Rightarrow> 'w bridge" where
  "control_poll lib b =
     (case bd_commands b of
        cmd # cmds \<Rightarrow>
          (case flush_section lib (queue_cmd lib cmd) (b\<lparr>bd_commands := cmds\<rparr>) of (outbound, b) \<Rightarrow>
             if outbound \<noteq> [] then lock_write ControlDir outbound (b\<lparr>bd_control := ControlSending\<rparr>) else b)
      | [] \<Rightarrow> if bd_senders b then b else b\<lparr>bd_control := ControlParked\<rparr>)"

subsection \<open>Direction 4: keepalive\<close>

definition ka_await :: "keep_alive \<Rightarrow> 'w bridge \<Rightarrow> 'w bridge" where
  "ka_await ka b = b\<lparr>bd_keepalive := KaAwaiting (bd_now b) (bd_now b + ka_timeout ka)\<rparr>"

definition ka_check :: "'w wslay_lib \<Rightarrow> keep_alive \<Rightarrow> 'w bridge \<Rightarrow> 'w bridge" where
  "ka_check lib ka b =
     (let idle = bd_now b - bd_last_activity b in
      if idle < ka_interval ka then b\<lparr>bd_keepalive := KaSleeping (bd_now b + (ka_interval ka - idle))\<rparr>
      else case flush_section lib (queue_msg lib 0x9 []) b of (outbound, b) \<Rightarrow>
             if outbound \<noteq> [] then lock_write KeepaliveDir outbound (b\<lparr>bd_keepalive := KaPinging\<rparr>)
             else ka_await ka b)"

definition ka_expired :: "'w wslay_lib \<Rightarrow> keep_alive \<Rightarrow> 'w bridge \<Rightarrow> 'w bridge" where
  "ka_expired lib ka b =
     (case flush_section lib (queue_close lib (ka_close ka)) b of (outbound, b) \<Rightarrow>
        if outbound \<noteq> [] then lock_write KeepaliveDir outbound (b\<lparr>bd_keepalive := KaClosing\<rparr>)
        else finish (Inr (LocalClose (ka_close ka))) b)"

definition ka_poll :: "'w wslay_lib \<Rightarrow> keep_alive \<Rightarrow> 'w bridge \<Rightarrow> 'w bridge" where
  "ka_poll lib ka b =
     (case bd_keepalive b of
        KaChecking \<Rightarrow> ka_check lib ka b
      | KaSleeping until \<Rightarrow> if until \<le> bd_now b then ka_check lib ka b else b
      | KaAwaiting pinged_at deadline \<Rightarrow>
          if deadline \<le> bd_now b
          then if bd_last_activity b \<le> pinged_at then ka_expired lib ka b else ka_check lib ka b
          else b
      | _ \<Rightarrow> b)"

subsection \<open>Steps\<close>

text \<open>The write half is done with a direction's bytes, or failed it: that direction goes on.\<close>

definition lock_done :: "bridge_config \<Rightarrow> direction \<Rightarrow> 'w bridge \<Rightarrow> 'w bridge" where
  "lock_done cfg d b =
     (case d of
        WsToPeer \<Rightarrow>
          (case bd_ws b of
             WsReplying closed peer_close \<Rightarrow> ws_after_reply closed peer_close b
           | WsErrorClosing \<Rightarrow> finish (Inr (LocalClose (bc_error_close cfg))) b
           | _ \<Rightarrow> b)
      | PeerToWs \<Rightarrow>
          (case bd_peer b of
             PeerSending \<Rightarrow> b\<lparr>bd_peer := PeerReading\<rparr>
           | PeerClosing cf \<Rightarrow> finish (Inr (LocalClose cf)) b
           | PeerReading \<Rightarrow> b)
      | ControlDir \<Rightarrow> b\<lparr>bd_control := ControlWaiting\<rparr>
      | KeepaliveDir \<Rightarrow>
          (case bc_keepalive cfg of
             Some ka \<Rightarrow>
               (case bd_keepalive b of
                  KaPinging \<Rightarrow> ka_await ka b
                | KaClosing \<Rightarrow> finish (Inr (LocalClose (ka_close ka))) b
                | _ \<Rightarrow> b)
           | None \<Rightarrow> b))"

text \<open>A failed write ends the bridge, except for the closes, whose result is ignored.\<close>

definition ignores_write_error :: "direction \<Rightarrow> 'w bridge \<Rightarrow> bool" where
  "ignores_write_error d b \<longleftrightarrow>
     (case d of
        WsToPeer \<Rightarrow> bd_ws b = WsErrorClosing
      | PeerToWs \<Rightarrow> (case bd_peer b of PeerClosing cf \<Rightarrow> True | _ \<Rightarrow> False)
      | ControlDir \<Rightarrow> False
      | KeepaliveDir \<Rightarrow> bd_keepalive b = KaClosing)"

datatype bridge_event =
    WsBytes bytes
  | WsReadError string
  | PeerWrote nat
  | PeerWriteError
  | ShutdownDone
  | PeerBytes bytes
  | PeerReadError
  | WsWrote nat
  | WsWriteError string
  | ControlSend control_cmd
  | SendersDropped
  | ControlPoll
  | KeepalivePoll
  | Tick nat

definition bridge_event_step :: "'w wslay_lib \<Rightarrow> bridge_config \<Rightarrow> bridge_event \<Rightarrow> 'w bridge \<Rightarrow> 'w bridge" where
  "bridge_event_step lib cfg ev b =
     (case ev of
        WsBytes buf \<Rightarrow>
          if bd_ws b = WsReading \<and> length buf \<le> READ_CHUNK then
            (if buf = [] then b\<lparr>bd_ws := WsShutdown Abnormal\<rparr> else ws_read lib cfg buf b)
          else b
      | WsReadError e \<Rightarrow> if bd_ws b = WsReading then finish (Inl e) b else b
      | PeerWrote n \<Rightarrow>
          (case bd_ws b of
             WsPeerWriting to_peer outbound closed events \<Rightarrow>
               let b = b\<lparr>bd_peer_written := bd_peer_written b @ take n to_peer\<rparr>; rest = drop n to_peer in
               if rest = [] then ws_after_write cfg outbound closed events b
               else b\<lparr>bd_ws := WsPeerWriting rest outbound closed events\<rparr>
           | _ \<Rightarrow> b)
      | PeerWriteError \<Rightarrow>
          (case bd_ws b of WsPeerWriting _ _ _ _ \<Rightarrow> ws_write_failed lib cfg b | _ \<Rightarrow> b)
      | ShutdownDone \<Rightarrow> (case bd_ws b of WsShutdown r \<Rightarrow> finish (Inr r) b | _ \<Rightarrow> b)
      | PeerBytes buf \<Rightarrow>
          if bd_peer b = PeerReading \<and> length buf \<le> READ_CHUNK then
            (if buf = [] then peer_ended lib (bc_close cfg) b else peer_read lib buf b)
          else b
      | PeerReadError \<Rightarrow> if bd_peer b = PeerReading then peer_ended lib (bc_error_close cfg) b else b
      | WsWrote n \<Rightarrow>
          (case bd_lock b of
             (d, outbound) # queue \<Rightarrow>
               let b = b\<lparr>bd_ws_written := bd_ws_written b @ take n outbound\<rparr>; rest = drop n outbound in
               if rest = [] then lock_done cfg d (b\<lparr>bd_lock := queue\<rparr>) else b\<lparr>bd_lock := (d, rest) # queue\<rparr>
           | [] \<Rightarrow> b)
      | WsWriteError e \<Rightarrow>
          (case bd_lock b of
             (d, outbound) # queue \<Rightarrow>
               if ignores_write_error d b then lock_done cfg d (b\<lparr>bd_lock := queue\<rparr>) else finish (Inl e) b
           | [] \<Rightarrow> b)
      | ControlSend cmd \<Rightarrow> if bd_senders b then snd (ws_control_send cmd b) else b
      | SendersDropped \<Rightarrow> b\<lparr>bd_senders := False\<rparr>
      | ControlPoll \<Rightarrow> if bd_control b = ControlWaiting then control_poll lib b else b
      | KeepalivePoll \<Rightarrow> (case bc_keepalive cfg of Some ka \<Rightarrow> ka_poll lib ka b | None \<Rightarrow> b)
      | Tick n \<Rightarrow> b\<lparr>bd_now := bd_now b + n\<rparr>)"

text \<open>The first direction to finish tears the others down.\<close>

definition bridge_step :: "'w wslay_lib \<Rightarrow> bridge_config \<Rightarrow> bridge_event \<Rightarrow> 'w bridge \<Rightarrow> 'w bridge" where
  "bridge_step lib cfg ev b = (if bd_end b = None then bridge_event_step lib cfg ev b else b)"

text \<open>The frame handed to \<open>on_close\<close> once the bridge has ended, and what \<open>bridge_with\<close> returns.\<close>

definition closed_with :: "(string + end_reason) \<Rightarrow> close_frame" where
  "closed_with r =
     (case r of
        Inr (PeerClose cf) \<Rightarrow> cf
      | Inr (LocalClose cf) \<Rightarrow> cf
      | Inr Abnormal \<Rightarrow> \<lparr>cf_code = 1006, cf_reason = []\<rparr>
      | Inl e \<Rightarrow> \<lparr>cf_code = 1006, cf_reason = e\<rparr>)"

definition bridge_result :: "(string + end_reason) \<Rightarrow> (string, unit) result" where
  "bridge_result r = (case r of Inr _ \<Rightarrow> Ok () | Inl e \<Rightarrow> Err e)"

definition close_hook_calls :: "bridge_config \<Rightarrow> 'w bridge \<Rightarrow> close_frame list" where
  "close_hook_calls cfg b =
     (case bd_end b of Some r \<Rightarrow> if bc_on_close cfg then [closed_with r] else [] | None \<Rightarrow> [])"

inductive bridge_run :: "'w wslay_lib \<Rightarrow> bridge_config \<Rightarrow> bridge_event list \<Rightarrow> 'w bridge \<Rightarrow> bool" for lib cfg where
  bridge_run_start: "bridge_start lib cfg now = Ok b \<Longrightarrow> bridge_run lib cfg [] b"
| bridge_run_step: "bridge_run lib cfg evs b \<Longrightarrow> bridge_run lib cfg (evs @ [ev]) (bridge_step lib cfg ev b)"

end
