(* ===== verification/Bridge_Inv.thy ===== *)
theory Bridge_Inv
  imports Bridge "HOL-Library.Sublist"
begin

text \<open>
  What the bridge of \<open>wslay.rs\<close> guarantees under every interleaving of its four directions: the payload
  of the data frames reaches the peer in order and complete, every byte read is fed to wslay once, the
  writers queued on the socket's lock are the directions that wait for it and all get their turn, and
  keepalive closes a silent peer and spares one it has heard from.  A property of the buffers that the
  callbacks keep is lifted to a call of the library once, in the locale \<open>callback_invariant\<close>.
\<close>

subsection \<open>What the callbacks amount to\<close>

text \<open>
  The reference: the frames a list of callbacks describes, each with its opcode and its payload, and
  the bytes of the data frames among them.  A control frame has bit 3 of its opcode set.
\<close>

fun add_callback :: "(u8 \<times> bytes) list \<Rightarrow> callback \<Rightarrow> (u8 \<times> bytes) list" where
  "add_callback fs (CbStart opcode) = fs @ [(opcode, [])]"
| "add_callback fs (CbChunk data) = (if fs = [] then [] else butlast fs @ [(fst (last fs), snd (last fs) @ data)])"
| "add_callback fs _ = fs"

definition frames_of :: "callback list \<Rightarrow> (u8 \<times> bytes) list" where
  "frames_of log = foldl add_callback [] log"

definition is_data_frame :: "u8 \<times> bytes \<Rightarrow> bool" where
  "is_data_frame f \<longleftrightarrow> \<not> bit (fst f) 3"

definition payload_of :: "callback list \<Rightarrow> bytes" where
  "payload_of log = concat (map snd (filter is_data_frame (frames_of log)))"

definition consumed :: "callback list \<Rightarrow> bytes" where
  "consumed log = concat (map (\<lambda>cb. case cb of CbRecv data \<Rightarrow> data | _ \<Rightarrow> []) log)"

lemma opcode_bit: "drop_bit 3 (opcode :: u8) AND 1 = 0 \<longleftrightarrow> \<not> bit opcode 3"
  by (simp only: and_one_eq mod_2_eq_odd bit_iff_odd_drop_bit of_bool_eq_0_iff not_not)

lemma frames_of_snoc [simp]: "frames_of (log @ [cb]) = add_callback (frames_of log) cb"
  by (simp add: frames_of_def)

lemma frames_of_Nil [simp]: "frames_of [] = []"
  by (simp add: frames_of_def)

lemma payload_of_Nil [simp]: "payload_of [] = []"
  by (simp add: payload_of_def)

lemma payload_of_other [simp]:
  "payload_of (log @ [CbRecv data]) = payload_of log" "payload_of (log @ [CbMsg opcode msg code]) = payload_of log"
  "payload_of (log @ [CbStart opcode]) = payload_of log"
  by (simp_all add: payload_of_def)

lemma payload_of_chunk:
  "payload_of (log @ [CbChunk data]) =
     payload_of log @ (if frames_of log \<noteq> [] \<and> is_data_frame (last (frames_of log)) then data else [])"
proof (cases "frames_of log" rule: rev_cases)
  case (snoc fs f)
  then show ?thesis by (simp add: payload_of_def is_data_frame_def)
qed (simp add: payload_of_def)

lemma consumed_snoc [simp]:
  "consumed (log @ [cb]) = consumed log @ (case cb of CbRecv data \<Rightarrow> data | _ \<Rightarrow> [])"
  by (simp add: consumed_def)


definition events_of :: "callback list \<Rightarrow> control_event list" where
  "events_of log = List.map_filter (\<lambda>cb. case cb of CbMsg opcode msg code \<Rightarrow> msg_event opcode msg code | _ \<Rightarrow> None) log"

lemma events_of_snoc [simp]:
  "events_of (log @ [cb]) = events_of log
     @ (case cb of CbMsg opcode msg code \<Rightarrow> (case msg_event opcode msg code of Some ev \<Rightarrow> [ev] | None \<Rightarrow> []) | _ \<Rightarrow> [])"
  by (simp add: events_of_def List.map_filter_def split: callback.split option.split)

text \<open>A property of the shared state that every receive callback keeps is kept by a call of the library.\<close>

locale callback_invariant =
  fixes P :: "'x \<Rightarrow> shared_state \<Rightarrow> bool"
  assumes P_recv: "P x s \<Longrightarrow> P x (snd (recv_cb len s))"
    and P_start: "P x s \<Longrightarrow> P x (frame_start_cb opcode s)"
    and P_chunk: "P x s \<Longrightarrow> P x (frame_chunk_cb data s)"
    and P_msg: "P x s \<Longrightarrow> P x (msg_recv_cb opcode msg code s)"
begin

lemma P_run_call: "P x s \<Longrightarrow> P x (snd (snd (run_call c s)))"
  by (induction c arbitrary: s) (simp_all add: P_recv P_start P_chunk P_msg)

end

text \<open>The payload that waits for the peer, with what came before it, is the payload of the callbacks.\<close>

definition delivers :: "bytes \<Rightarrow> shared_state \<Rightarrow> bool" where
  "delivers x s \<longleftrightarrow> x @ sh_to_peer s = payload_of (sh_log s)
     \<and> (sh_cur_is_data s \<longleftrightarrow> frames_of (sh_log s) \<noteq> [] \<and> is_data_frame (last (frames_of (sh_log s))))"

text \<open>What wslay has read and what is left is what came in.\<close>

definition feeds :: "bytes \<Rightarrow> shared_state \<Rightarrow> bool" where
  "feeds x s \<longleftrightarrow> sh_inbound_pos s \<le> length (sh_inbound s) \<and> consumed (sh_log s) @ drop (sh_inbound_pos s) (sh_inbound s) = x"

definition surfaces :: "control_event list \<Rightarrow> shared_state \<Rightarrow> bool" where
  "surfaces x s \<longleftrightarrow> x @ sh_control_events s = events_of (sh_log s)"

lemmas callback_defs = recv_cb_def frame_start_cb_def frame_chunk_cb_def msg_recv_cb_def Let_def

interpretation payload: callback_invariant delivers
  by unfold_locales
    (auto simp: delivers_def callback_defs payload_of_chunk opcode_bit is_data_frame_def split: option.split)

interpretation inbound: callback_invariant feeds
proof
  fix x s len
  assume "feeds x s"
  then show "feeds x (snd (recv_cb len s))"
    by (auto simp: feeds_def recv_cb_def Let_def min_def)
      (metis append_take_drop_id drop_drop add.commute)+
qed (auto simp: feeds_def callback_defs split: option.split)

interpretation controls: callback_invariant surfaces
  by unfold_locales (auto simp: surfaces_def callback_defs split: option.split)

interpretation outbound: callback_invariant "\<lambda>x s. sh_outbound s = x"
  by unfold_locales (auto simp: callback_defs split: option.split)

subsection \<open>Sections\<close>

lemma run_send_eq: "run_send datas s = s\<lparr>sh_outbound := sh_outbound s @ concat datas\<rparr>"
  by (induction datas arbitrary: s) (simp_all add: run_send_def send_cb_def)

definition sent :: "'w wslay_lib \<Rightarrow> ('w \<Rightarrow> 'w) \<Rightarrow> 'w bridge \<Rightarrow> bytes" where
  "sent lib queue b = concat (fst (wl_event_send lib (queue (bd_wslay b))))"

lemma flush_section_eq:
  "sh_outbound (bd_shared b) = [] \<Longrightarrow>
   flush_section lib queue b = (sent lib queue b, b\<lparr>bd_wslay := snd (wl_event_send lib (queue (bd_wslay b)))\<rparr>)"
  by (simp add: flush_section_def run_send_eq sent_def case_prod_beta)

fun pings_in :: "control_event list \<Rightarrow> bytes list" where
  "pings_in [] = []"
| "pings_in (PingEvent p # evs) = p # pings_in evs"
| "pings_in (_ # evs) = pings_in evs"

fun pongs_in :: "control_event list \<Rightarrow> bytes list" where
  "pongs_in [] = []"
| "pongs_in (PongEvent p # evs) = p # pongs_in evs"
| "pongs_in (_ # evs) = pongs_in evs"

lemma handle_events_snd:
  "snd (handle_events cfg evs peer_close b) =
     b\<lparr>bd_pings := bd_pings b @ (if bc_on_ping cfg then pings_in evs else []),
       bd_pongs := bd_pongs b @ (if bc_on_pong cfg then pongs_in evs else [])\<rparr>"
  by (induction cfg evs peer_close b rule: handle_events.induct) simp_all

lemmas section_defs = ws_after_reply_def ws_after_write_def ws_write_failed_def peer_read_def peer_ended_def
  control_poll_def ka_check_def ka_expired_def ka_poll_def ka_await_def lock_done_def lock_write_def finish_def
  ws_control_send_def

text \<open>Between two sections the buffers that a section fills are empty.\<close>

definition clean :: "shared_state \<Rightarrow> bool" where
  "clean s \<longleftrightarrow> sh_to_peer s = [] \<and> sh_outbound s = [] \<and> sh_control_events s = [] \<and> sh_inbound_pos s = 0"

text \<open>The operations other than a read leave the shared state, and what the peer was given, alone.\<close>

definition same_shared :: "'w bridge \<Rightarrow> 'w bridge \<Rightarrow> bool" where
  "same_shared b b' \<longleftrightarrow> bd_shared b' = bd_shared b \<and> bd_peer_written b' = bd_peer_written b
     \<and> bd_last_activity b' = bd_last_activity b \<and> bd_now b' = bd_now b"

lemma section_same_shared:
  assumes "sh_outbound (bd_shared b) = []"
  shows "same_shared b (ws_after_reply closed pc b)" "same_shared b (ws_after_write cfg out closed evs b)"
    "same_shared b (ws_write_failed lib cfg b)" "same_shared b (peer_read lib buf b)" "same_shared b (peer_ended lib cf b)"
    "same_shared b (control_poll lib b)" "same_shared b (ka_check lib ka b)" "same_shared b (ka_expired lib ka b)"
    "same_shared b (ka_poll lib ka b)" "same_shared b (ka_await ka b)" "same_shared b (lock_done cfg d b)"
    "same_shared b (finish r b)" "same_shared b (snd (ws_control_send cmd b))"
  using assms
  by (auto simp: same_shared_def section_defs flush_section_eq handle_events_snd case_prod_beta Let_def
    split: list.split direction.split ws_phase.split peer_phase.split keepalive_phase.split option.split)

text \<open>Directions 2 to 4 leave the first direction alone.\<close>

lemma section_same_ws:
  assumes "sh_outbound (bd_shared b) = []"
  shows "bd_ws (peer_read lib buf b) = bd_ws b" "bd_ws (peer_ended lib cf b) = bd_ws b"
    "bd_ws (control_poll lib b) = bd_ws b" "bd_ws (ka_check lib ka b) = bd_ws b" "bd_ws (ka_expired lib ka b) = bd_ws b"
    "bd_ws (ka_poll lib ka b) = bd_ws b" "bd_ws (ka_await ka b) = bd_ws b" "bd_ws (finish r b) = bd_ws b"
    "bd_ws (snd (ws_control_send cmd b)) = bd_ws b"
  using assms
  by (auto simp: section_defs flush_section_eq case_prod_beta Let_def
    split: list.split keepalive_phase.split)


subsection \<open>The payload reaches the peer\<close>

definition pending_payload :: "'w bridge \<Rightarrow> bytes" where
  "pending_payload b = (case bd_ws b of WsPeerWriting to_peer _ _ _ \<Rightarrow> to_peer | _ \<Rightarrow> [])"

definition bridge_ok :: "'w bridge \<Rightarrow> bool" where
  "bridge_ok b \<longleftrightarrow> clean (bd_shared b)
     \<and> (\<exists>x. delivers x (bd_shared b) \<and> prefix (bd_peer_written b) x
          \<and> (bd_ws b \<noteq> WsErrorClosing \<longrightarrow> x = bd_peer_written b @ pending_payload b))
     \<and> (case bd_end b of Some (Inr (LocalClose _)) \<Rightarrow> True | Some (Inr r) \<Rightarrow> bd_ws b = WsShutdown r | _ \<Rightarrow> True)"

definition same_progress :: "'w bridge \<Rightarrow> 'w bridge \<Rightarrow> bool" where
  "same_progress b b' \<longleftrightarrow> same_shared b b' \<and> pending_payload b' = pending_payload b
     \<and> (bd_ws b' = WsErrorClosing \<longleftrightarrow> bd_ws b = WsErrorClosing)
     \<and> (\<forall>r. bd_end b' = Some (Inr r) \<and> (\<forall>cf. r \<noteq> LocalClose cf) \<longrightarrow> bd_ws b' = WsShutdown r)"

lemma bridge_ok_progress:
  assumes "bridge_ok b" "same_progress b b'"
  shows "bridge_ok b'"
  using assms unfolding bridge_ok_def same_progress_def same_shared_def
  by (auto split: option.split sum.split end_reason.split)

lemma bridge_ok_outbound: "bridge_ok b \<Longrightarrow> sh_outbound (bd_shared b) = []"
  by (simp add: bridge_ok_def clean_def)

text \<open>Directions 2 to 4 end the bridge with a close of their own or with an error only.\<close>

definition ends_locally :: "'w bridge \<Rightarrow> bool" where
  "ends_locally b \<longleftrightarrow> (\<forall>r. bd_end b = Some (Inr r) \<longrightarrow> (\<exists>cf. r = LocalClose cf))"

lemma same_progressI: "same_shared b b' \<Longrightarrow> bd_ws b' = bd_ws b \<Longrightarrow> ends_locally b' \<Longrightarrow> same_progress b b'"
  by (auto simp: same_progress_def pending_payload_def ends_locally_def)

lemma flush_end:
  "ends_locally b \<Longrightarrow> ends_locally (snd (flush_section lib queue b))"
  by (simp add: ends_locally_def flush_section_def case_prod_beta Let_def)

lemma ends_locally_simps [simp]:
  "ends_locally (finish (Inr (LocalClose cf)) b)" "ends_locally (finish (Inl e) b)"
  "ends_locally (lock_write d out b) \<longleftrightarrow> ends_locally b" "ends_locally (b\<lparr>bd_peer := pp\<rparr>) \<longleftrightarrow> ends_locally b"
  "ends_locally (b\<lparr>bd_control := cp\<rparr>) \<longleftrightarrow> ends_locally b" "ends_locally (b\<lparr>bd_keepalive := kp\<rparr>) \<longleftrightarrow> ends_locally b"
  "ends_locally (b\<lparr>bd_commands := cs\<rparr>) \<longleftrightarrow> ends_locally b"
  by (simp_all add: ends_locally_def finish_def lock_write_def)

lemma section_end:
  assumes "ends_locally b"
  shows "ends_locally (peer_read lib buf b)" "ends_locally (peer_ended lib cf b)" "ends_locally (control_poll lib b)"
    "ends_locally (ka_check lib ka b)" "ends_locally (ka_expired lib ka b)" "ends_locally (snd (ws_control_send cmd b))"
  using assms
  by (simp_all add: peer_read_def peer_ended_def control_poll_def ka_check_def ka_expired_def ka_await_def ws_control_send_def
    flush_end case_prod_beta Let_def split: list.split)

lemma ka_poll_end: "ends_locally b \<Longrightarrow> ends_locally (ka_poll lib ka b)"
  by (simp add: ka_poll_def section_end split: keepalive_phase.split)

lemma section_same_progress:
  assumes "sh_outbound (bd_shared b) = []" "bd_end b = None"
  shows "same_progress b (peer_read lib buf b)" "same_progress b (peer_ended lib cf b)"
    "same_progress b (control_poll lib b)" "same_progress b (ka_poll lib ka b)"
    "same_progress b (snd (ws_control_send cmd b))" "same_progress b (finish (Inl e) b)" "same_progress b b"
    "bd_ws b = WsShutdown r \<Longrightarrow> same_progress b (finish (Inr r) b)"
    "bd_ws b = WsReading \<Longrightarrow> same_progress b (b\<lparr>bd_ws := WsShutdown Abnormal\<rparr>)"
proof -
  have "ends_locally b" using assms(2) by (simp add: ends_locally_def)
  then show "same_progress b (peer_read lib buf b)" "same_progress b (peer_ended lib cf b)"
    "same_progress b (control_poll lib b)" "same_progress b (ka_poll lib ka b)" "same_progress b (snd (ws_control_send cmd b))"
    by (auto intro!: same_progressI section_same_shared section_same_ws section_end ka_poll_end assms)
qed (use assms in \<open>simp_all add: same_progress_def same_shared_def pending_payload_def finish_def\<close>)

lemma lock_done_same_progress:
  assumes "sh_outbound (bd_shared b) = []" "bd_end b = None"
  shows "same_progress b (lock_done cfg d b)"
  using assms section_same_shared(11) [OF assms(1), of cfg d]
  by (cases d) (auto simp: same_progress_def pending_payload_def section_defs
    split: ws_phase.split peer_phase.split keepalive_phase.split option.split)

lemma ws_after_write_fields:
  "pending_payload (ws_after_write cfg out closed evs b) = []" "bd_ws (ws_after_write cfg out closed evs b) \<noteq> WsErrorClosing"
  "bd_end (ws_after_write cfg out closed evs b) = bd_end b"
  by (simp_all add: ws_after_write_def ws_after_reply_def lock_write_def pending_payload_def case_prod_beta handle_events_snd)

lemma bridge_ok_live:
  "bd_ws b \<noteq> WsErrorClosing \<Longrightarrow> bd_end b = None \<Longrightarrow>
   bridge_ok b \<longleftrightarrow> clean (bd_shared b) \<and> delivers (bd_peer_written b @ pending_payload b) (bd_shared b)"
  by (auto simp: bridge_ok_def)

lemma ws_after_write_ok:
  assumes "clean (bd_shared b)" "delivers (bd_peer_written b) (bd_shared b)" "bd_end b = None"
  shows "bridge_ok (ws_after_write cfg out closed evs b)"
proof -
  have "same_shared b (ws_after_write cfg out closed evs b)"
    using assms(1) by (intro section_same_shared) (simp add: clean_def)
  then show ?thesis using assms by (simp add: bridge_ok_live ws_after_write_fields same_shared_def)
qed

lemma ws_read_ok:
  assumes "bridge_ok b" "bd_ws b = WsReading" "bd_end b = None"
  shows "bridge_ok (ws_read lib cfg buf b)"
proof -
  let ?s0 = "(bd_shared b)\<lparr>sh_inbound := sh_inbound (bd_shared b) @ buf\<rparr>"
  obtain rc w s where call: "run_call (wl_event_recv lib (bd_wslay b)) ?s0 = (rc, w, s)" by (metis prod_cases3)
  have "delivers (bd_peer_written b) ?s0"
    using assms by (simp add: bridge_ok_live pending_payload_def delivers_def)
  then have "delivers (bd_peer_written b) s" using payload.P_run_call call by (metis snd_conv)
  then show ?thesis
    using assms(2,3) call
    by (auto simp: ws_read_def Let_def case_prod_beta run_send_eq bridge_ok_live pending_payload_def clean_def delivers_def
      intro!: ws_after_write_ok)
qed

lemma peer_wrote_ok:
  assumes ok: "bridge_ok b" and ws: "bd_ws b = WsPeerWriting to_peer outbound closed events" and "bd_end b = None"
  shows "bridge_ok (bridge_event_step lib cfg (PeerWrote n) b)"
proof -
  have "delivers (bd_peer_written b @ to_peer) (bd_shared b)" "clean (bd_shared b)"
    using assms by (simp_all add: bridge_ok_live pending_payload_def)
  moreover have "take n to_peer @ drop n to_peer = to_peer" by simp
  ultimately show ?thesis using ws assms(3)
    by (auto simp: bridge_event_step_def Let_def bridge_ok_live pending_payload_def intro!: ws_after_write_ok)
qed

lemma ws_write_failed_ok:
  assumes "bridge_ok b" "bd_end b = None"
  shows "bridge_ok (ws_write_failed lib cfg b)"
proof -
  have "same_shared b (ws_write_failed lib cfg b)" "bd_ws (ws_write_failed lib cfg b) = WsErrorClosing"
    "\<And>r. bd_end (ws_write_failed lib cfg b) = Some r \<Longrightarrow> \<exists>cf. r = Inr (LocalClose cf)"
    using section_same_shared(3) [OF bridge_ok_outbound [OF assms(1)]] assms
    by (auto simp: ws_write_failed_def flush_section_def lock_write_def finish_def Let_def case_prod_beta split: if_splits)
  then show ?thesis using assms
    by (auto simp: bridge_ok_def same_shared_def split: option.split sum.split end_reason.split)
qed

lemma bridge_step_ok:
  assumes ok: "bridge_ok b"
  shows "bridge_ok (bridge_step lib cfg ev b)"
proof (cases "bd_end b = None")
  case True
  note out = bridge_ok_outbound [OF ok]
  note same = bridge_ok_progress [OF ok]
  note sections = section_same_progress [OF out True]
  have wire: "bridge_ok (b\<lparr>bd_ws_written := w, bd_lock := q\<rparr>)" for w q
    using ok True by (simp add: bridge_ok_def pending_payload_def)
  have lock: "bridge_ok (lock_done cfg d (b\<lparr>bd_ws_written := w, bd_lock := q\<rparr>))"
    "bridge_ok (lock_done cfg d (b\<lparr>bd_lock := q\<rparr>))" for d w q
    using True out ok
    by (auto intro!: bridge_ok_progress [OF _ lock_done_same_progress])
      (auto simp: bridge_ok_def pending_payload_def)
  have "bridge_ok (bridge_event_step lib cfg ev b)"
  proof (cases ev)
    case (WsBytes buf)
    then show ?thesis using ok True by (auto simp: bridge_event_step_def ws_read_ok intro!: same sections)
  next
    case (PeerWrote n)
    then show ?thesis using ok True
      by (cases "bd_ws b") (simp_all add: peer_wrote_ok, simp_all add: bridge_event_step_def)
  next
    case PeerWriteError
    then show ?thesis using ok True by (auto simp: bridge_event_step_def ws_write_failed_ok split: ws_phase.split)
  next
    case (WsWrote n)
    then show ?thesis using ok lock wire by (auto simp: bridge_event_step_def Let_def split: list.split)
  next
    case (WsWriteError e)
    then show ?thesis using ok lock by (auto simp: bridge_event_step_def split: list.split intro!: same sections)
  next
    case (Tick n)
    then show ?thesis using ok True by (simp add: bridge_event_step_def bridge_ok_def pending_payload_def)
  next
    case SendersDropped
    then show ?thesis using ok True by (simp add: bridge_event_step_def bridge_ok_def pending_payload_def)
  qed (use sections in \<open>auto simp: bridge_event_step_def intro!: same split: ws_phase.split option.split\<close>)
  then show ?thesis using True by (simp add: bridge_step_def)
qed (use ok in \<open>auto simp: bridge_step_def\<close>)

lemma bridge_start_ok: "bridge_start lib cfg now = Ok b \<Longrightarrow> bridge_ok b"
  by (auto simp: bridge_start_def bridge_ok_def clean_def shared_default_def delivers_def pending_payload_def split: option.splits)

lemma bridge_run_ok: "bridge_run lib cfg evs b \<Longrightarrow> bridge_ok b"
  by (induction rule: bridge_run.induct) (auto intro: bridge_start_ok bridge_step_ok)

text \<open>
  C16. However the four directions of a bridge interleave and however the sockets cut the bytes, what
  the peer has been given is, in order, a prefix of the payloads of the data frames that arrived;
  control frames never leak into it.  Unless a write to the peer failed, what is missing is exactly what
  the write in progress still holds; and when the bridge ends because the client closed or dropped the
  WebSocket, nothing is missing: data in front of a Close in the same read is delivered.
\<close>

theorem bridge_delivers_payload:
  assumes "bridge_run lib cfg evs b"
  shows "prefix (bd_peer_written b) (payload_of (sh_log (bd_shared b)))
    \<and> (bd_ws b \<noteq> WsErrorClosing \<longrightarrow> bd_peer_written b @ pending_payload b = payload_of (sh_log (bd_shared b)))
    \<and> (\<forall>r. bd_end b = Some (Inr r) \<and> (\<forall>cf. r \<noteq> LocalClose cf) \<longrightarrow> bd_peer_written b = payload_of (sh_log (bd_shared b)))"
  using bridge_run_ok [OF assms]
  by (auto simp: bridge_ok_def clean_def delivers_def pending_payload_def split: end_reason.splits)


text \<open>A small instance of the library: every chunk is the payload of a binary frame, and a message
  is sent as its opcode and its payload.\<close>

definition plain_wslay :: "bytes wslay_lib" where
  "plain_wslay =
     \<lparr>wl_server_init = Some [],
      wl_event_recv = (\<lambda>w. CallRecv 4096 (\<lambda>r. case r of None \<Rightarrow> Return 0 w | Some data \<Rightarrow> FrameStart 2 (FrameChunk data (Return 0 w)))),
      wl_event_send = (\<lambda>w. ([w], [])),
      wl_queue_msg = (\<lambda>opcode payload w. w @ opcode # payload),
      wl_queue_close = (\<lambda>code reason w. w @ 8 # reason),
      wl_close_received = (\<lambda>w. False)\<rparr>"

fun bridge_steps :: "'w wslay_lib \<Rightarrow> bridge_config \<Rightarrow> bridge_event list \<Rightarrow> 'w bridge \<Rightarrow> 'w bridge" where
  "bridge_steps lib cfg [] b = b"
| "bridge_steps lib cfg (ev # evs) b = bridge_steps lib cfg evs (bridge_step lib cfg ev b)"

lemma bridge_run_steps: "bridge_run lib cfg pre b \<Longrightarrow> bridge_run lib cfg (pre @ evs) (bridge_steps lib cfg evs b)"
proof (induction evs arbitrary: pre b)
  case (Cons ev evs)
  have "bridge_run lib cfg (pre @ [ev]) (bridge_step lib cfg ev b)" using Cons.prems by (rule bridge_run_step)
  from Cons.IH [OF this] show ?case by simp
qed simp

definition fresh_bridge :: "bytes bridge" where
  "fresh_bridge = \<lparr>bd_wslay = [], bd_shared = shared_default, bd_last_activity = 0, bd_now = 0,
     bd_ws = WsReading, bd_peer = PeerReading, bd_control = ControlParked, bd_keepalive = KaChecking,
     bd_commands = [], bd_senders = True, bd_lock = [], bd_peer_written = [], bd_ws_written = [],
     bd_pings = [], bd_pongs = [], bd_end = None\<rparr>"

lemma fresh_bridge_run: "bridge_run plain_wslay bridge_config_default [] fresh_bridge"
  by (rule bridge_run_start [of _ _ 0])
    (simp add: bridge_start_def plain_wslay_def fresh_bridge_def bridge_config_default_def)

lemma plain_run: "bridge_run plain_wslay bridge_config_default evs (bridge_steps plain_wslay bridge_config_default evs fresh_bridge)"
  using bridge_run_steps [OF fresh_bridge_run, of evs] by simp

lemmas bridge_eval = bridge_step_def bridge_event_step_def ws_read_def READ_CHUNK_def plain_wslay_def fresh_bridge_def
  bridge_config_default_def keep_alive_default_def keep_alive_new_def close_frame_default_def shared_default_def
  flush_section_eq sent_def run_send_eq callback_defs section_defs queue_msg_def queue_close_def

theorem bridge_delivers_payload_witness:
  "let b = bridge_steps plain_wslay bridge_config_default [WsBytes [1, 2, 3], PeerWrote 2] fresh_bridge in
     bd_peer_written b = [1, 2] \<and> pending_payload b = [3] \<and> prefix (bd_peer_written b) (payload_of (sh_log (bd_shared b)))
     \<and> bd_peer_written b @ pending_payload b = payload_of (sh_log (bd_shared b))"
proof -
  let ?b = "bridge_steps plain_wslay bridge_config_default [WsBytes [1, 2, 3], PeerWrote 2] fresh_bridge"
  have "bd_peer_written ?b = [1, 2]" "pending_payload ?b = [3]" "bd_ws ?b \<noteq> WsErrorClosing"
    by (simp_all add: bridge_eval pending_payload_def)
  then show ?thesis using bridge_delivers_payload [OF plain_run [of "[WsBytes [1, 2, 3], PeerWrote 2]"]]
    by (simp add: Let_def)
qed


subsection \<open>Every byte read reaches the library once\<close>

lemma ws_read_feeds:
  assumes "clean (bd_shared b)"
  shows "consumed (sh_log (bd_shared (ws_read lib cfg buf b))) @ sh_inbound (bd_shared (ws_read lib cfg buf b))
     = consumed (sh_log (bd_shared b)) @ sh_inbound (bd_shared b) @ buf"
proof -
  let ?s0 = "(bd_shared b)\<lparr>sh_inbound := sh_inbound (bd_shared b) @ buf\<rparr>"
  let ?x = "consumed (sh_log (bd_shared b)) @ sh_inbound (bd_shared b) @ buf"
  obtain rc w s where call: "run_call (wl_event_recv lib (bd_wslay b)) ?s0 = (rc, w, s)" by (metis prod_cases3)
  have "feeds ?x ?s0" using assms by (simp add: feeds_def clean_def)
  then have "feeds ?x s" using inbound.P_run_call call by (metis snd_conv)
  moreover have "same_shared c (ws_after_write cfg out closed evs c)" if "sh_outbound (bd_shared c) = []" for c :: "'a bridge" and out closed evs
    using that by (rule section_same_shared)
  ultimately show ?thesis using call
    by (auto simp: ws_read_def Let_def case_prod_beta run_send_eq feeds_def same_shared_def)
qed

text \<open>
  In every reachable state, the bytes of a read are appended to what wslay has not consumed yet:
  what it has consumed so far followed by what is kept for its next call is exactly what was read from
  the socket, in order.  No byte is dropped by the drain, fed twice, or reordered.
\<close>

theorem ws_read_feeds_in_order:
  assumes "bridge_run lib cfg evs b" "bd_end b = None" "bd_ws b = WsReading" "buf \<noteq> []" "length buf \<le> READ_CHUNK"
  shows "let b' = bridge_step lib cfg (WsBytes buf) b in
    consumed (sh_log (bd_shared b')) @ sh_inbound (bd_shared b') = consumed (sh_log (bd_shared b)) @ sh_inbound (bd_shared b) @ buf"
  using assms ws_read_feeds [of b lib cfg buf] bridge_run_ok [OF assms(1)]
  by (simp add: bridge_step_def bridge_event_step_def bridge_ok_def)

theorem ws_read_feeds_in_order_witness:
  "let b' = bridge_step plain_wslay bridge_config_default (WsBytes [7, 8]) fresh_bridge in
    consumed (sh_log (bd_shared b')) = [7, 8]
    \<and> consumed (sh_log (bd_shared b')) @ sh_inbound (bd_shared b') = [7, 8]"
  using ws_read_feeds_in_order [OF fresh_bridge_run, of "[7, 8]"]
  by (simp add: bridge_eval consumed_def)

subsection \<open>The lock on the socket\<close>

definition waits_to_write :: "direction \<Rightarrow> 'w bridge \<Rightarrow> bool" where
  "waits_to_write d b \<longleftrightarrow>
     (case d of
        WsToPeer \<Rightarrow> (case bd_ws b of WsReplying _ _ \<Rightarrow> True | WsErrorClosing \<Rightarrow> True | _ \<Rightarrow> False)
      | PeerToWs \<Rightarrow> bd_peer b \<noteq> PeerReading
      | ControlDir \<Rightarrow> bd_control b = ControlSending
      | KeepaliveDir \<Rightarrow> bd_keepalive b = KaPinging \<or> bd_keepalive b = KaClosing)"

definition lock_ok :: "bridge_config \<Rightarrow> 'w bridge \<Rightarrow> bool" where
  "lock_ok cfg b \<longleftrightarrow> distinct (map fst (bd_lock b)) \<and> (\<forall>d. d \<in> fst ` set (bd_lock b) \<longleftrightarrow> waits_to_write d b)
     \<and> [] \<notin> snd ` set (bd_lock b) \<and> (bc_keepalive cfg = None \<longrightarrow> bd_keepalive b = KaParked)"

lemma lock_ok_same:
  "lock_ok cfg b \<Longrightarrow> bd_lock b' = bd_lock b \<Longrightarrow> (\<And>d. waits_to_write d b' = waits_to_write d b) \<Longrightarrow>
   (bc_keepalive cfg = None \<Longrightarrow> bd_keepalive b' = bd_keepalive b) \<Longrightarrow> lock_ok cfg b'"
  by (auto simp: lock_ok_def)

lemma lock_ok_enter:
  assumes "lock_ok cfg b" "\<not> waits_to_write d b" "bd_lock b' = bd_lock b @ [(d, out)]" "out \<noteq> []" "waits_to_write d b'"
    "\<And>d'. d' \<noteq> d \<Longrightarrow> waits_to_write d' b' = waits_to_write d' b" "bc_keepalive cfg = None \<Longrightarrow> bd_keepalive b' = bd_keepalive b"
  shows "lock_ok cfg b'"
  using assms unfolding lock_ok_def by (auto simp: image_iff) (metis fst_conv)+

lemma lock_ok_leave:
  assumes "lock_ok cfg b" "bd_lock b = (d, out) # q" "bd_lock b' = q" "\<not> waits_to_write d b'"
    "\<And>d'. d' \<noteq> d \<Longrightarrow> waits_to_write d' b' = waits_to_write d' b" "bc_keepalive cfg = None \<Longrightarrow> bd_keepalive b' = bd_keepalive b"
  shows "lock_ok cfg b'"
proof -
  have "d' \<in> fst ` set q \<longleftrightarrow> waits_to_write d' b'" for d'
    using assms by (cases "d' = d") (auto simp: lock_ok_def)
  then show ?thesis using assms by (auto simp: lock_ok_def)
qed


definition lock_inv :: "bridge_config \<Rightarrow> 'w bridge \<Rightarrow> bool" where
  "lock_inv cfg b \<longleftrightarrow> (bd_end b = None \<longrightarrow> lock_ok cfg b)"

lemma ws_after_write_lock:
  assumes "lock_ok cfg b" "\<not> waits_to_write WsToPeer b"
  shows "lock_ok cfg (ws_after_write cfg' out closed evs b)"
proof (cases "out = []")
  case True
  then show ?thesis using assms
    by (auto intro!: lock_ok_same [OF assms(1)]
      simp: ws_after_write_def ws_after_reply_def case_prod_beta handle_events_snd waits_to_write_def split: direction.split)
next
  case False
  then show ?thesis
    by (auto intro!: lock_ok_enter [OF assms]
      simp: ws_after_write_def lock_write_def case_prod_beta handle_events_snd waits_to_write_def split: direction.split)
qed

lemma waits_simps [simp]:
  "waits_to_write WsToPeer b \<longleftrightarrow> (\<exists>c pc. bd_ws b = WsReplying c pc) \<or> bd_ws b = WsErrorClosing"
  "waits_to_write PeerToWs b \<longleftrightarrow> bd_peer b \<noteq> PeerReading"
  "waits_to_write ControlDir b \<longleftrightarrow> bd_control b = ControlSending"
  "waits_to_write KeepaliveDir b \<longleftrightarrow> bd_keepalive b = KaPinging \<or> bd_keepalive b = KaClosing"
  by (auto simp: waits_to_write_def split: ws_phase.split)

lemma waits_update [simp]:
  "d \<noteq> WsToPeer \<Longrightarrow> waits_to_write d (b\<lparr>bd_ws := ws\<rparr>) = waits_to_write d b"
  "d \<noteq> PeerToWs \<Longrightarrow> waits_to_write d (b\<lparr>bd_peer := pp\<rparr>) = waits_to_write d b"
  "d \<noteq> ControlDir \<Longrightarrow> waits_to_write d (b\<lparr>bd_control := cp\<rparr>) = waits_to_write d b"
  "d \<noteq> KeepaliveDir \<Longrightarrow> waits_to_write d (b\<lparr>bd_keepalive := kp\<rparr>) = waits_to_write d b"
  "waits_to_write d (b\<lparr>bd_wslay := w\<rparr>) = waits_to_write d b" "waits_to_write d (b\<lparr>bd_commands := cs\<rparr>) = waits_to_write d b"
  "waits_to_write d (b\<lparr>bd_ws_written := w'\<rparr>) = waits_to_write d b"
  "waits_to_write d (b\<lparr>bd_ws_written := w', bd_lock := q\<rparr>) = waits_to_write d b"
  "waits_to_write d (b\<lparr>bd_lock := q\<rparr>) = waits_to_write d b" "waits_to_write d (b\<lparr>bd_end := r\<rparr>) = waits_to_write d b"
  by (simp_all add: waits_to_write_def split: direction.split)

lemma lock_ok_waiting:
  "lock_ok cfg b \<Longrightarrow> bd_lock b' = bd_lock b \<Longrightarrow> bd_ws b' = bd_ws b \<Longrightarrow> bd_peer b' = bd_peer b \<Longrightarrow> bd_control b' = bd_control b \<Longrightarrow>
   bd_keepalive b' = bd_keepalive b \<Longrightarrow> lock_ok cfg b'"
  by (rule lock_ok_same) (simp_all add: waits_to_write_def split: direction.split)

text \<open>A section that waits for the socket when there is something to write, and goes on otherwise.\<close>

lemma lock_choice:
  assumes "lock_ok cfg b" "\<not> waits_to_write d b" "bd_lock b1 = bd_lock b" "waits_to_write d b1"
    "\<And>d'. d' \<noteq> d \<Longrightarrow> waits_to_write d' b1 = waits_to_write d' b" "bc_keepalive cfg = None \<Longrightarrow> bd_keepalive b1 = bd_keepalive b"
    "out = [] \<Longrightarrow> lock_inv cfg b2"
  shows "lock_inv cfg (if out \<noteq> [] then lock_write d out b1 else b2)"
proof (cases "out = []")
  case False
  have "lock_ok cfg (lock_write d out b1)"
    by (rule lock_ok_enter [OF assms(1,2), of _ out]) (use assms False in \<open>auto simp: lock_write_def simp del: waits_simps\<close>)
  then show ?thesis using False by (simp add: lock_inv_def)
qed (use assms in simp)

lemma finish_lock [simp]: "lock_inv cfg (finish r b)"
  by (simp add: lock_inv_def finish_def)

lemma section_lock:
  assumes ok: "lock_ok cfg b" and out: "sh_outbound (bd_shared b) = []"
  shows "\<not> waits_to_write WsToPeer b \<Longrightarrow> lock_inv cfg (ws_write_failed lib cfg b)"
    "\<not> waits_to_write PeerToWs b \<Longrightarrow> lock_inv cfg (peer_read lib buf b)"
    "\<not> waits_to_write PeerToWs b \<Longrightarrow> lock_inv cfg (peer_ended lib cf b)"
    "\<not> waits_to_write ControlDir b \<Longrightarrow> lock_inv cfg (control_poll lib b)"
    "\<not> waits_to_write KeepaliveDir b \<Longrightarrow> bc_keepalive cfg \<noteq> None \<Longrightarrow> lock_inv cfg (ka_check lib ka b)"
    "\<not> waits_to_write KeepaliveDir b \<Longrightarrow> bc_keepalive cfg \<noteq> None \<Longrightarrow> lock_inv cfg (ka_expired lib ka b)"
proof -
  note eq = flush_section_eq [OF out] prod.case
  have quiet: "lock_inv cfg (b\<lparr>bd_wslay := w\<rparr>)" for w
    using ok by (auto simp: lock_inv_def intro: lock_ok_waiting)
  show "\<not> waits_to_write WsToPeer b \<Longrightarrow> lock_inv cfg (ws_write_failed lib cfg b)"
    unfolding ws_write_failed_def eq by (rule lock_choice [OF ok]) simp_all
  show "\<not> waits_to_write PeerToWs b \<Longrightarrow> lock_inv cfg (peer_read lib buf b)"
    unfolding peer_read_def eq by (rule lock_choice [OF ok]) (simp_all add: quiet)
  show "\<not> waits_to_write PeerToWs b \<Longrightarrow> lock_inv cfg (peer_ended lib cf b)"
    unfolding peer_ended_def eq by (rule lock_choice [OF ok]) simp_all
  show "\<not> waits_to_write KeepaliveDir b \<Longrightarrow> bc_keepalive cfg \<noteq> None \<Longrightarrow> lock_inv cfg (ka_expired lib ka b)"
    unfolding ka_expired_def eq by (rule lock_choice [OF ok]) simp_all
  show "lock_inv cfg (control_poll lib b)" if "\<not> waits_to_write ControlDir b"
  proof (cases "bd_commands b")
    case Nil
    then show ?thesis using that lock_ok_same [OF ok, of "b\<lparr>bd_control := ControlParked\<rparr>"] ok
      by (auto simp: control_poll_def lock_inv_def waits_to_write_def split: direction.split)
  next
    case (Cons cmd cmds)
    have "lock_inv cfg (b\<lparr>bd_commands := cmds, bd_wslay := w\<rparr>)" for w
      using ok by (auto simp: lock_inv_def intro: lock_ok_waiting)
    then show ?thesis using that out Cons
      by (simp add: control_poll_def flush_section_eq del: if_not_P if_P split del: if_split)
        (rule lock_choice [OF ok], simp_all)
  qed
  show "lock_inv cfg (ka_check lib ka b)" if "\<not> waits_to_write KeepaliveDir b" "bc_keepalive cfg \<noteq> None"
  proof (cases "bd_now b - bd_last_activity b < ka_interval ka")
    case True
    then show ?thesis using that lock_ok_same [OF ok, of "b\<lparr>bd_keepalive := KaSleeping (bd_now b + (ka_interval ka - (bd_now b - bd_last_activity b)))\<rparr>"]
      by (auto simp: ka_check_def lock_inv_def waits_to_write_def split: direction.split)
  next
    case False
    have "lock_inv cfg (ka_await ka (b\<lparr>bd_wslay := w\<rparr>))" for w
      using that lock_ok_same [OF ok, of "ka_await ka (b\<lparr>bd_wslay := w\<rparr>)"]
      by (auto simp: ka_await_def lock_inv_def waits_to_write_def split: direction.split)
    then show ?thesis using that False unfolding ka_check_def Let_def eq
      by (simp only: if_False) (rule lock_choice [OF ok], simp_all)
  qed
qed


lemma lock_done_fields:
  "bd_lock (lock_done cfg d b) = bd_lock b"
  "d' \<noteq> d \<Longrightarrow> waits_to_write d' (lock_done cfg d b) = waits_to_write d' b"
  "bc_keepalive cfg = None \<Longrightarrow> bd_keepalive (lock_done cfg d b) = bd_keepalive b"
  by (cases d; simp add: lock_done_def ws_after_reply_def finish_def ka_await_def
    split: ws_phase.split peer_phase.split keepalive_phase.split option.split)+

lemma lock_done_resumes:
  assumes "d = KeepaliveDir \<Longrightarrow> bc_keepalive cfg \<noteq> None" "bd_end (lock_done cfg d b) = None"
  shows "\<not> waits_to_write d (lock_done cfg d b)"
  using assms
  by (cases d) (auto simp: lock_done_def ws_after_reply_def finish_def ka_await_def
    split: ws_phase.splits peer_phase.splits keepalive_phase.splits option.splits)

lemma lock_done_lock:
  assumes ok: "lock_ok cfg b" and q: "bd_lock b = (d, out) # q" and "bd_lock b' = q"
    and "\<And>d'. waits_to_write d' b' = waits_to_write d' b" "bd_keepalive b' = bd_keepalive b"
  shows "lock_inv cfg (lock_done cfg d b')"
proof -
  have "waits_to_write d b" using ok q by (auto simp: lock_ok_def simp del: waits_simps)
  then have "d = KeepaliveDir \<Longrightarrow> bc_keepalive cfg \<noteq> None" using ok by (auto simp: lock_ok_def)
  then have "bd_end (lock_done cfg d b') = None \<Longrightarrow> \<not> waits_to_write d (lock_done cfg d b')"
    by (rule lock_done_resumes)
  then show ?thesis unfolding lock_inv_def
    using assms(3-5) by (intro impI lock_ok_leave [OF ok q]) (simp_all add: lock_done_fields del: waits_simps)
qed

lemma ws_read_lock:
  assumes "lock_ok cfg b" "bd_ws b = WsReading"
  shows "lock_ok cfg (ws_read lib cfg buf b)"
proof -
  let ?r = "run_call (wl_event_recv lib (bd_wslay b)) ((bd_shared b)\<lparr>sh_inbound := sh_inbound (bd_shared b) @ buf\<rparr>)"
  have "lock_ok cfg (b\<lparr>bd_last_activity := t, bd_wslay := w, bd_shared := s\<rparr>)"
    "lock_ok cfg (b\<lparr>bd_last_activity := t, bd_wslay := w, bd_shared := s, bd_ws := WsPeerWriting tp out closed evs\<rparr>)"
    for t w s tp out closed evs
    using assms by (auto intro!: lock_ok_same [OF assms(1)] simp: waits_to_write_def split: direction.split)
  then show ?thesis using assms(2)
    by (auto simp: ws_read_def Let_def case_prod_beta intro!: ws_after_write_lock)
qed

lemma peer_wrote_lock:
  assumes "lock_ok cfg b" "bd_ws b = WsPeerWriting to_peer outbound closed events"
  shows "lock_ok cfg (bridge_event_step lib cfg (PeerWrote n) b)"
proof -
  have "lock_ok cfg (b\<lparr>bd_peer_written := x\<rparr>)"
    "lock_ok cfg (b\<lparr>bd_peer_written := x, bd_ws := WsPeerWriting tp outbound closed events\<rparr>)" for x tp
    using assms by (auto intro!: lock_ok_same [OF assms(1)] simp: waits_to_write_def split: direction.split)
  then show ?thesis using assms(2)
    by (auto simp: bridge_event_step_def Let_def intro!: ws_after_write_lock)
qed

lemma ka_poll_lock:
  assumes "lock_ok cfg b" "sh_outbound (bd_shared b) = []" "bc_keepalive cfg \<noteq> None"
  shows "lock_inv cfg (ka_poll lib ka b)"
  using assms section_lock(5,6) [OF assms(1,2)]
  by (auto simp: ka_poll_def lock_inv_def split: keepalive_phase.split)

lemma wrote_part_lock:
  assumes "lock_ok cfg b" "bd_lock b = (d, out) # q" "rest \<noteq> []"
  shows "lock_ok cfg (b\<lparr>bd_ws_written := w, bd_lock := (d, rest) # q\<rparr>)"
  using assms unfolding lock_ok_def by (auto simp del: waits_simps)

lemma bridge_step_lock:
  assumes inv: "lock_inv cfg b" and ok: "bridge_ok b"
  shows "lock_inv cfg (bridge_step lib cfg ev b)"
proof (cases "bd_end b = None")
  case True
  then have lock: "lock_ok cfg b" using inv by (simp add: lock_inv_def)
  note out = bridge_ok_outbound [OF ok]
  have same: "lock_inv cfg b'" if "lock_ok cfg b'" for b' :: "'a bridge" using that by (simp add: lock_inv_def)
  have "lock_inv cfg (bridge_event_step lib cfg ev b)"
  proof (cases ev)
    case (WsBytes buf)
    have "lock_ok cfg (b\<lparr>bd_ws := WsShutdown Abnormal\<rparr>)" if "bd_ws b = WsReading"
      using that by (intro lock_ok_same [OF lock]) (auto simp: waits_to_write_def split: direction.split)
    then show ?thesis using WsBytes lock by (auto simp: bridge_event_step_def intro!: same ws_read_lock)
  next
    case (PeerWrote n)
    then show ?thesis using lock peer_wrote_lock [OF lock]
      by (cases "bd_ws b") (simp_all add: same, simp_all add: bridge_event_step_def same)
  next
    case (WsWrote n)
    have "lock_inv cfg (lock_done cfg d (b\<lparr>bd_ws_written := w, bd_lock := q\<rparr>))" if "bd_lock b = (d, out) # q" for d out q w
      by (rule lock_done_lock [OF lock that]) (simp_all del: waits_simps)
    then show ?thesis using WsWrote same [OF wrote_part_lock [OF lock]] same [OF lock]
      by (auto simp: bridge_event_step_def Let_def split: list.split)
  next
    case (WsWriteError e)
    then show ?thesis using lock True
      by (auto simp: bridge_event_step_def same simp del: waits_simps intro!: lock_done_lock [OF lock] split: list.split)
  next
    case (Tick n)
    then show ?thesis by (auto simp: bridge_event_step_def intro!: same lock_ok_waiting [OF lock])
  next
    case SendersDropped
    then show ?thesis by (auto simp: bridge_event_step_def intro!: same lock_ok_waiting [OF lock])
  next
    case (ControlSend cmd)
    then show ?thesis by (auto simp: bridge_event_step_def ws_control_send_def intro!: same lock lock_ok_waiting [OF lock])
  qed (use section_lock [OF lock out] lock in
      \<open>auto simp: bridge_event_step_def same ka_poll_lock [OF lock out] split: ws_phase.split option.split\<close>)
  then show ?thesis using True by (simp add: bridge_step_def)
qed (use inv in \<open>auto simp: bridge_step_def\<close>)

lemma bridge_run_lock: "bridge_run lib cfg evs b \<Longrightarrow> lock_inv cfg b"
proof (induction rule: bridge_run.induct)
  case (bridge_run_start now b)
  then show ?case
    by (auto simp: bridge_start_def lock_inv_def lock_ok_def waits_to_write_def split: option.splits direction.splits if_splits)
qed (auto intro: bridge_step_lock bridge_run_ok)


lemma bridge_run_lock_ok: "bridge_run lib cfg evs b \<Longrightarrow> bd_end b = None \<Longrightarrow> lock_ok cfg b"
  using bridge_run_lock by (auto simp: lock_inv_def)

text \<open>Writing the whole of the first entry lets its direction go on and the queue move up.\<close>

lemma wrote_all_step:
  assumes "bd_lock b = (d, out) # q" "bd_end b = None"
  shows "bridge_step lib cfg (WsWrote (length out)) b
     = lock_done cfg d (b\<lparr>bd_ws_written := bd_ws_written b @ out, bd_lock := q\<rparr>)"
  using assms by (simp add: bridge_step_def bridge_event_step_def Let_def)

lemma writers_progress:
  assumes "bridge_run lib cfg pre b" "bd_end b = None"
  shows "\<exists>evs. set evs \<subseteq> range WsWrote \<and>
    (bd_end (bridge_steps lib cfg evs b) \<noteq> None \<or> \<not> waits_to_write d (bridge_steps lib cfg evs b))"
  using assms
proof (induction "length (bd_lock b)" arbitrary: pre b)
  case 0
  then have "\<not> waits_to_write d (bridge_steps lib cfg [] b)"
    using bridge_run_lock_ok [OF 0(2,3)] by (simp add: lock_ok_def del: waits_simps)
  then show ?case by (intro exI [of _ "[]"]) simp
next
  case (Suc n)
  then obtain d' out q where q: "bd_lock b = (d', out) # q" by (cases "bd_lock b") auto
  let ?ev = "WsWrote (length out)"
  let ?b = "bridge_step lib cfg ?ev b"
  have run: "bridge_run lib cfg (pre @ [?ev]) ?b" using Suc.prems(1) by (rule bridge_run_step)
  have len: "n = length (bd_lock ?b)"
    using Suc.hyps(2) Suc.prems(2) q by (simp add: wrote_all_step lock_done_fields)
  show ?case
  proof (cases "bd_end ?b = None")
    case True
    from Suc.hyps(1) [OF len run True] obtain evs where "set evs \<subseteq> range WsWrote"
      "bd_end (bridge_steps lib cfg evs ?b) \<noteq> None \<or> \<not> waits_to_write d (bridge_steps lib cfg evs ?b)" by blast
    then show ?thesis by (intro exI [of _ "?ev # evs"]) auto
  next
    case False
    then show ?thesis by (intro exI [of _ "[?ev]"]) auto
  qed
qed



subsection \<open>Keepalive\<close>

text \<open>The clock is never behind the last activity, and a sleep never outlasts the idle interval.\<close>

definition time_ok :: "bridge_config \<Rightarrow> 'w bridge \<Rightarrow> bool" where
  "time_ok cfg b \<longleftrightarrow> bd_last_activity b \<le> bd_now b
     \<and> (\<forall>ka u. bc_keepalive cfg = Some ka \<and> bd_keepalive b = KaSleeping u \<longrightarrow> u \<le> bd_last_activity b + ka_interval ka)"

lemma section_same_ka:
  assumes "sh_outbound (bd_shared b) = []"
  shows "bd_keepalive (ws_write_failed lib cfg b) = bd_keepalive b"
    "bd_keepalive (peer_read lib buf b) = bd_keepalive b" "bd_keepalive (peer_ended lib cf b) = bd_keepalive b"
    "bd_keepalive (control_poll lib b) = bd_keepalive b" "bd_keepalive (snd (ws_control_send cmd b)) = bd_keepalive b"
  using assms
  by (simp_all add: ws_write_failed_def peer_read_def peer_ended_def control_poll_def
    ws_control_send_def lock_write_def finish_def flush_section_eq split: list.split)

lemma ws_after_write_time:
  "bd_last_activity (ws_after_write cfg out closed evs b) = bd_last_activity b" "bd_now (ws_after_write cfg out closed evs b) = bd_now b"
  "bd_keepalive (ws_after_write cfg out closed evs b) = bd_keepalive b"
  by (simp_all add: ws_after_write_def ws_after_reply_def lock_write_def handle_events_snd case_prod_beta)

lemma ws_read_time:
  "bd_last_activity (ws_read lib cfg buf b) = bd_now b" "bd_now (ws_read lib cfg buf b) = bd_now b"
  "bd_keepalive (ws_read lib cfg buf b) = bd_keepalive b"
  by (simp_all add: ws_read_def Let_def case_prod_beta ws_after_write_time)

lemma ka_check_time:
  assumes "time_ok cfg b" "bc_keepalive cfg = Some ka" "sh_outbound (bd_shared b) = []"
  shows "time_ok cfg (ka_check lib ka b)"
  using assms by (simp add: time_ok_def ka_check_def Let_def flush_section_eq lock_write_def ka_await_def)

lemma ka_expired_time:
  assumes "time_ok cfg b" "bc_keepalive cfg = Some ka" "sh_outbound (bd_shared b) = []"
  shows "time_ok cfg (ka_expired lib ka b)"
  using assms by (simp add: time_ok_def ka_expired_def flush_section_eq lock_write_def finish_def)

lemma time_ok_same:
  "time_ok cfg b \<Longrightarrow> same_shared b b' \<Longrightarrow> bd_keepalive b' = bd_keepalive b \<Longrightarrow> time_ok cfg b'"
  by (simp add: time_ok_def same_shared_def)

lemma lock_done_time:
  assumes "time_ok cfg b" shows "time_ok cfg (lock_done cfg d b)"
  using assms
  by (cases d) (simp_all add: lock_done_def ws_after_reply_def finish_def ka_await_def time_ok_def
    split: ws_phase.split peer_phase.split keepalive_phase.split option.split)


text \<open>One step: time facts are kept, and the last activity never goes back.\<close>

lemma bridge_step_time:
  assumes ok: "bridge_ok b" and time: "time_ok cfg b"
  shows "time_ok cfg (bridge_step lib cfg ev b) \<and> bd_last_activity b \<le> bd_last_activity (bridge_step lib cfg ev b)"
proof (cases "bd_end b = None")
  case True
  note out = bridge_ok_outbound [OF ok]
  note shared = section_same_shared [OF out] and ka = section_same_ka [OF out]
  let ?ok = "\<lambda>b'. time_ok cfg b' \<and> bd_last_activity b \<le> bd_last_activity b'"
  have same: "?ok b'" if "same_shared b b'" "bd_keepalive b' = bd_keepalive b" for b'
    using that time_ok_same [OF time that] by (simp add: same_shared_def)
  have "?ok (ws_read lib cfg buf b)" for buf
    using time by (auto simp: time_ok_def ws_read_time)
  moreover have lock: "?ok (lock_done cfg d b')" if "bd_last_activity b' = bd_last_activity b" "bd_now b' = bd_now b"
      "bd_keepalive b' = bd_keepalive b" "sh_outbound (bd_shared b') = []" for d b'
    using lock_done_time [of cfg b' d] time that section_same_shared(11) [OF that(4), of cfg d]
    by (auto simp: time_ok_def same_shared_def)
  moreover have "?ok (lock_done cfg d (b\<lparr>bd_ws_written := w, bd_lock := q\<rparr>))" "?ok (lock_done cfg d (b\<lparr>bd_lock := q\<rparr>))" for d w q
    by (rule lock; simp add: out)+
  moreover have "?ok (ka_poll lib ka' b)" if "bc_keepalive cfg = Some ka'" for ka'
    using ka_check_time [OF time that out] ka_expired_time [OF time that out] shared(7,8) time
    by (auto simp: ka_poll_def same_shared_def split: keepalive_phase.split)
  ultimately have "?ok (bridge_event_step lib cfg ev b)"
    using out time same [OF shared(3) ka(1)] same [OF shared(4) ka(2)] same [OF shared(5) ka(3)] same [OF shared(6) ka(4)]
      same [OF shared(13) ka(5)]
    by (cases ev) (auto simp: bridge_event_step_def Let_def time_ok_def ws_after_write_time finish_def
      split: ws_phase.split list.split option.split)
  then show ?thesis using True by (simp add: bridge_step_def)
qed (use time in \<open>auto simp: bridge_step_def\<close>)

lemma bridge_run_time: "bridge_run lib cfg evs b \<Longrightarrow> time_ok cfg b"
proof (induction rule: bridge_run.induct)
  case (bridge_run_start now b)
  then show ?case by (auto simp: bridge_start_def time_ok_def split: option.splits if_splits)
qed (use bridge_step_time bridge_run_ok in blast)

lemma bridge_steps_activity:
  "bridge_run lib cfg pre b \<Longrightarrow> bd_last_activity b \<le> bd_last_activity (bridge_steps lib cfg evs b)"
proof (induction evs arbitrary: pre b)
  case (Cons ev evs)
  have "bridge_run lib cfg (pre @ [ev]) (bridge_step lib cfg ev b)" using Cons.prems by (rule bridge_run_step)
  from Cons.IH [OF this] show ?case
    using bridge_step_time [OF bridge_run_ok [OF Cons.prems] bridge_run_time [OF Cons.prems], of lib ev] by simp
qed simp


lemma ka_check_keeps:
  assumes "sh_outbound (bd_shared b) = []"
  shows "bd_end (ka_check lib ka b) = bd_end b" "bd_keepalive (ka_check lib ka b) \<noteq> KaClosing"
  using assms by (simp_all add: ka_check_def Let_def flush_section_eq lock_write_def ka_await_def)

text \<open>
  C22. Keepalive does not close a peer it has heard from: when a read after the ping (at a later instant
  than the ping was sent) brought bytes, then whatever else happens before the answer is due, the poll
  of the keepalive direction neither ends the bridge nor starts its close.
\<close>

theorem keepalive_spares_live_peer:
  assumes run: "bridge_run lib cfg pre b1" and "bd_end b1 = None" "bd_ws b1 = WsReading" "buf \<noteq> []" "length buf \<le> READ_CHUNK"
    and b: "b = bridge_steps lib cfg (WsBytes buf # post) b1" and "bd_end b = None"
    and ka: "bd_keepalive b = KaAwaiting pinged_at deadline" "pinged_at < bd_now b1"
  shows "bd_end (bridge_step lib cfg KeepalivePoll b) = None \<and> bd_keepalive (bridge_step lib cfg KeepalivePoll b) \<noteq> KaClosing"
proof -
  let ?b = "bridge_step lib cfg (WsBytes buf) b1"
  have run': "bridge_run lib cfg (pre @ [WsBytes buf]) ?b" using run by (rule bridge_run_step)
  have "bd_last_activity ?b = bd_now b1"
    using assms(2-5) by (simp add: bridge_step_def bridge_event_step_def ws_read_time)
  then have "pinged_at < bd_last_activity b"
    using bridge_steps_activity [OF run', of post] b ka(2) by simp
  moreover have "sh_outbound (bd_shared b) = []"
    using bridge_run_steps [OF run', of post] b by (auto intro: bridge_ok_outbound bridge_run_ok)
  ultimately show ?thesis using assms(7) ka(1)
    by (simp add: bridge_step_def bridge_event_step_def ka_poll_def ka_check_keeps split: option.split)
qed

theorem keepalive_spares_live_peer_witness:
  "let b1 = bridge_steps plain_wslay bridge_config_default [Tick 30, KeepalivePoll, WsWrote 9, Tick 14] fresh_bridge;
       b = bridge_steps plain_wslay bridge_config_default [WsBytes [1], Tick 1] b1 in
     bd_keepalive b = KaAwaiting 30 45 \<and> bd_now b = 45 \<and>
     bd_end (bridge_step plain_wslay bridge_config_default KeepalivePoll b) = None
     \<and> bd_keepalive (bridge_step plain_wslay bridge_config_default KeepalivePoll b) \<noteq> KaClosing"
proof -
  let ?evs = "[Tick 30, KeepalivePoll, WsWrote 9, Tick 14]"
  let ?b1 = "bridge_steps plain_wslay bridge_config_default ?evs fresh_bridge"
  let ?b = "bridge_steps plain_wslay bridge_config_default [WsBytes [1], Tick 1] ?b1"
  have b1: "bd_end ?b1 = None" "bd_ws ?b1 = WsReading" "bd_now ?b1 = 44" by (simp_all add: bridge_eval)
  have b: "bd_end ?b = None" "bd_keepalive ?b = KaAwaiting 30 45" "bd_now ?b = 45" by (simp_all add: bridge_eval)
  have "bd_end (bridge_step plain_wslay bridge_config_default KeepalivePoll ?b) = None
    \<and> bd_keepalive (bridge_step plain_wslay bridge_config_default KeepalivePoll ?b) \<noteq> KaClosing"
    by (rule keepalive_spares_live_peer [OF plain_run b1(1,2) _ _ _ b(1,2), of "[1]" "[Tick 1]"])
      (simp_all add: b1 READ_CHUNK_def del: bridge_steps.simps)
  then show ?thesis using b by (simp add: Let_def del: bridge_steps.simps)
qed



text \<open>
  Keepalive cannot tell a dead peer from a slow upstream: while a write to the peer is blocked the
  bridge does not read the WebSocket, so a client whose bytes (and answers to pings) keep arriving is
  not heard and is closed with the keepalive frame.  In the run below the client sends at second 31,
  after the ping at second 30, and the bridge still ends with 1001 at second 45.
\<close>

theorem keepalive_drops_backpressured_client:
  "let evs = [WsBytes [1, 2, 3], Tick 30, KeepalivePoll, WsWrote 9, Tick 1, WsBytes [4], Tick 14, KeepalivePoll, WsWrote 99];
       b = bridge_steps plain_wslay bridge_config_default evs fresh_bridge in
     bridge_run plain_wslay bridge_config_default evs b \<and> bd_peer_written b = []
     \<and> bd_end b = Some (Inr (LocalClose \<lparr>cf_code = 1001, cf_reason = ''keepalive timeout''\<rparr>))"
  using plain_run by (simp add: bridge_eval as_bytes_def Let_def)

end
