(* ===== verification/Downstream.thy ===== *)
theory Downstream
  imports Bridge_Inv
begin

text \<open>
  The other half of the bridge of \<open>wslay.rs\<close>: from the peer to the WebSocket.  What goes out on the socket is
  produced by wslay in sections of any of the four directions, may wait while a write to the peer is
  pending, and queues for the socket's lock.  The laws of the library that the statements need are the
  predicate \<open>sends_frames\<close>.
\<close>

subsection \<open>What the library promises\<close>

text \<open>
  \<open>queue\<close> lists the frames a context has yet to send, \<open>writable\<close> says that no Close has been queued, and
  \<open>enc\<close> is the encoding of a frame.  wslay sends what is queued, queues one frame per message unless a
  Close is queued already, and queues only control frames on its own.
\<close>

definition wire_of :: "(u8 \<Rightarrow> bytes \<Rightarrow> bytes) \<Rightarrow> (u8 \<times> bytes) list \<Rightarrow> bytes" where
  "wire_of enc fs = concat (map (\<lambda>(opcode, payload). enc opcode payload) fs)"

definition controls_only :: "(u8 \<times> bytes) list \<Rightarrow> bool" where
  "controls_only fs \<longleftrightarrow> list_all (\<lambda>f. \<not> is_data_frame f) fs"

definition data_of :: "(u8 \<times> bytes) list \<Rightarrow> bytes" where
  "data_of fs = concat (map snd (filter is_data_frame fs))"

definition sends_frames ::
  "'w wslay_lib \<Rightarrow> (u8 \<Rightarrow> bytes \<Rightarrow> bytes) \<Rightarrow> ('w \<Rightarrow> (u8 \<times> bytes) list) \<Rightarrow> ('w \<Rightarrow> bool) \<Rightarrow> bool" where
  "sends_frames lib enc queue writable \<longleftrightarrow>
     (\<forall>w. wl_server_init lib = Some w \<longrightarrow> queue w = [])
   \<and> (\<forall>w. concat (fst (wl_event_send lib w)) = wire_of enc (queue w) \<and> queue (snd (wl_event_send lib w)) = []
        \<and> (writable (snd (wl_event_send lib w)) \<longrightarrow> writable w))
   \<and> (\<forall>opcode payload w. queue w = [] \<longrightarrow>
        queue (wl_queue_msg lib opcode payload w) = (if writable w then [(opcode, payload)] else [])
        \<and> (writable (wl_queue_msg lib opcode payload w) \<longrightarrow> writable w))
   \<and> (\<forall>code reason w. queue w = [] \<longrightarrow> controls_only (queue (wl_queue_close lib code reason w))
        \<and> (writable (wl_queue_close lib code reason w) \<longrightarrow> writable w))
   \<and> (\<forall>w s rc w' s'. queue w = [] \<longrightarrow> run_call (wl_event_recv lib w) s = (rc, w', s') \<longrightarrow>
        controls_only (queue w') \<and> (writable w' \<longrightarrow> writable w))"

lemma sends_framesD:
  assumes "sends_frames lib enc queue writable"
  shows "wl_server_init lib = Some w \<Longrightarrow> queue w = []"
    and "concat (fst (wl_event_send lib w)) = wire_of enc (queue w)" "queue (snd (wl_event_send lib w)) = []"
      "writable (snd (wl_event_send lib w)) \<Longrightarrow> writable w"
    and "queue w = [] \<Longrightarrow> queue (wl_queue_msg lib opcode payload w) = (if writable w then [(opcode, payload)] else [])"
      "queue w = [] \<Longrightarrow> writable (wl_queue_msg lib opcode payload w) \<Longrightarrow> writable w"
    and "queue w = [] \<Longrightarrow> controls_only (queue (wl_queue_close lib code reason w))"
      "queue w = [] \<Longrightarrow> writable (wl_queue_close lib code reason w) \<Longrightarrow> writable w"
    and "queue w = [] \<Longrightarrow> run_call (wl_event_recv lib w) s = (rc, w', s') \<Longrightarrow> controls_only (queue w')"
      "queue w = [] \<Longrightarrow> run_call (wl_event_recv lib w) s = (rc, w', s') \<Longrightarrow> writable w' \<Longrightarrow> writable w"
  using assms unfolding sends_frames_def by blast+

lemma wire_of_simps [simp]: "wire_of enc [] = []" "wire_of enc (fs @ gs) = wire_of enc fs @ wire_of enc gs"
  by (simp_all add: wire_of_def)

lemma data_of_simps [simp]: "data_of [] = []" "data_of (fs @ gs) = data_of fs @ data_of gs"
  "controls_only fs \<Longrightarrow> data_of fs = []"
  by (simp_all add: data_of_def controls_only_def list_all_iff filter_empty_conv)

lemma controls_only_simps [simp]:
  "controls_only []" "controls_only [(0x9, p)]" "controls_only [(0xA, p)]"
  "controls_only (fs @ gs) \<longleftrightarrow> controls_only fs \<and> controls_only gs"
  by (simp_all add: controls_only_def is_data_frame_def)

subsection \<open>What is on its way to the socket\<close>

text \<open>Written already, or waiting for the lock; and the replies that wait for a write to the peer.\<close>

definition ws_total :: "'w bridge \<Rightarrow> bytes" where
  "ws_total b = bd_ws_written b @ concat (map snd (bd_lock b))"

definition held_replies :: "(u8 \<Rightarrow> bytes \<Rightarrow> bytes) \<Rightarrow> ws_phase \<Rightarrow> bool" where
  "held_replies enc ph \<longleftrightarrow>
     (case ph of WsPeerWriting _ outbound _ _ \<Rightarrow> \<exists>cs. outbound = wire_of enc cs \<and> controls_only cs | _ \<Rightarrow> True)"

text \<open>The section between \<open>b\<close> and \<open>b'\<close> sends the frames \<open>fs\<close>.\<close>

definition sends ::
  "(u8 \<Rightarrow> bytes \<Rightarrow> bytes) \<Rightarrow> ('w \<Rightarrow> (u8 \<times> bytes) list) \<Rightarrow> ('w \<Rightarrow> bool) \<Rightarrow> (u8 \<times> bytes) list \<Rightarrow> 'w bridge \<Rightarrow> 'w bridge \<Rightarrow> bool" where
  "sends enc queue writable fs b b' \<longleftrightarrow>
     ws_total b' = ws_total b @ wire_of enc fs \<and> queue (bd_wslay b') = [] \<and> (writable (bd_wslay b') \<longrightarrow> writable (bd_wslay b))
   \<and> prefix (bd_ws_written b) (bd_ws_written b')
   \<and> (held_replies enc (bd_ws b) \<longrightarrow> held_replies enc (bd_ws b'))"

lemma ws_total_lock [simp]:
  "ws_total (lock_write d out b) = ws_total b @ out" "ws_total (finish r b) = ws_total b"
  "ws_total (b\<lparr>bd_ws := ph\<rparr>) = ws_total b" "ws_total (b\<lparr>bd_peer := pp\<rparr>) = ws_total b"
  "ws_total (b\<lparr>bd_control := cp\<rparr>) = ws_total b" "ws_total (b\<lparr>bd_keepalive := kp\<rparr>) = ws_total b"
  "ws_total (b\<lparr>bd_commands := cs\<rparr>) = ws_total b" "ws_total (b\<lparr>bd_wslay := w\<rparr>) = ws_total b"
  "ws_total (b\<lparr>bd_pings := ps, bd_pongs := qs\<rparr>) = ws_total b"
  by (simp_all add: ws_total_def lock_write_def finish_def)

lemma lock_fields [simp]:
  "bd_wslay (lock_write d out b) = bd_wslay b" "bd_ws_written (lock_write d out b) = bd_ws_written b" "bd_ws (lock_write d out b) = bd_ws b"
  "bd_wslay (finish r b) = bd_wslay b" "bd_ws_written (finish r b) = bd_ws_written b" "bd_ws (finish r b) = bd_ws b"
  by (simp_all add: finish_def lock_write_def)

lemma sends_same:
  assumes "ws_total b' = ws_total b" "bd_wslay b' = bd_wslay b" "queue (bd_wslay b) = []" "bd_ws_written b' = bd_ws_written b"
    "bd_ws b' = bd_ws b \<or> held_replies enc (bd_ws b')"
  shows "sends enc queue writable [] b b'"
  using assms by (auto simp: sends_def)

text \<open>The section that every sender has, for a queueing \<open>f\<close> that keeps a Close final.\<close>

lemma flush_sends:
  assumes "sends_frames lib enc queue writable" "sh_outbound (bd_shared b) = []"
    "writable (f (bd_wslay b)) \<Longrightarrow> writable (bd_wslay b)"
  obtains w where "flush_section lib f b = (wire_of enc (queue (f (bd_wslay b))), b\<lparr>bd_wslay := w\<rparr>)" "queue w = []"
    "writable w \<longrightarrow> writable (bd_wslay b)"
proof (rule that)
  show "flush_section lib f b
      = (wire_of enc (queue (f (bd_wslay b))), b\<lparr>bd_wslay := snd (wl_event_send lib (f (bd_wslay b)))\<rparr>)"
    by (simp add: flush_section_eq [OF assms(2)] sent_def sends_framesD(2) [OF assms(1)])
qed (use sends_framesD(3,4) [OF assms(1)] assms(3) in auto)

lemma sends_flushed:
  assumes "queue w = []" "writable w \<longrightarrow> writable (bd_wslay b)" "ws_total b' = ws_total b @ wire_of enc fs"
    "bd_wslay b' = w" "bd_ws_written b' = bd_ws_written b" "bd_ws b' = bd_ws b \<or> held_replies enc (bd_ws b')"
  shows "sends enc queue writable fs b b'"
  using assms by (auto simp: sends_def)

text \<open>A section that queues with \<open>f\<close>, flushes and then writes what came out, or does \<open>k\<close> if nothing did.\<close>

lemma flush_then_sends:
  assumes "sends_frames lib enc queue writable" "sh_outbound (bd_shared b) = []"
    "writable (f (bd_wslay b)) \<Longrightarrow> writable (bd_wslay b)"
    "\<And>c. ws_total (k c) = ws_total c" "\<And>c. bd_wslay (k c) = bd_wslay c" "\<And>c. bd_ws_written (k c) = bd_ws_written c"
    "\<And>c. bd_ws (k c) = bd_ws c \<or> held_replies enc (bd_ws (k c))"
    "\<And>c. ws_total (g c) = ws_total c" "\<And>c. bd_wslay (g c) = bd_wslay c" "\<And>c. bd_ws_written (g c) = bd_ws_written c"
    "\<And>c. bd_ws (g c) = bd_ws c \<or> held_replies enc (bd_ws (g c))"
  shows "sends enc queue writable (queue (f (bd_wslay b))) b
    (case flush_section lib f b of (outbound, b) \<Rightarrow> if outbound \<noteq> [] then lock_write d outbound (g b) else k b)"
proof -
  obtain w where w: "flush_section lib f b = (wire_of enc (queue (f (bd_wslay b))), b\<lparr>bd_wslay := w\<rparr>)" "queue w = []"
      "writable w \<longrightarrow> writable (bd_wslay b)"
    by (rule flush_sends [OF assms(1,2,3)])
  have "bd_ws (g (b\<lparr>bd_wslay := w\<rparr>)) = bd_ws b \<or> held_replies enc (bd_ws (g (b\<lparr>bd_wslay := w\<rparr>)))"
      "bd_ws (k (b\<lparr>bd_wslay := w\<rparr>)) = bd_ws b \<or> held_replies enc (bd_ws (k (b\<lparr>bd_wslay := w\<rparr>)))"
    using assms(7,11) [of "b\<lparr>bd_wslay := w\<rparr>"] by simp_all
  then show ?thesis
    by (intro sends_flushed [where queue = queue and writable = writable, OF w(2,3)]) (auto simp: w(1) assms)
qed

lemma held_replies_simps [simp]:
  "held_replies enc WsReading" "held_replies enc (WsReplying closed pc)" "held_replies enc (WsShutdown r)" "held_replies enc WsErrorClosing"
  by (simp_all add: held_replies_def)

lemma peer_read_sends:
  assumes "sends_frames lib enc queue writable" "sh_outbound (bd_shared b) = []" "queue (bd_wslay b) = []"
  shows "sends enc queue writable (if writable (bd_wslay b) then [(0x2, buf)] else []) b (peer_read lib buf b)"
proof -
  have "sends enc queue writable (queue (queue_msg lib 0x2 buf (bd_wslay b))) b (peer_read lib buf b)"
    unfolding peer_read_def
    by (rule flush_then_sends [OF assms(1,2)]) (use sends_framesD(6) [OF assms(1,3)] in \<open>auto simp: queue_msg_def\<close>)
  then show ?thesis by (simp only: queue_msg_def sends_framesD(5) [OF assms(1,3)])
qed

text \<open>Every other section that flushes sends control frames only.\<close>

lemma closes_send:
  assumes "sends_frames lib enc queue writable" "sh_outbound (bd_shared b) = []" "queue (bd_wslay b) = []"
  shows "\<exists>cs. controls_only cs \<and> sends enc queue writable cs b (peer_ended lib cf b)"
    "\<exists>cs. controls_only cs \<and> sends enc queue writable cs b (ka_expired lib ka b)"
    "\<exists>cs. controls_only cs \<and> sends enc queue writable cs b (ws_write_failed lib cfg b)"
proof -
  note law = sends_framesD(7,8) [OF assms(1,3)]
  have "sends enc queue writable (queue (queue_close lib cf (bd_wslay b))) b (peer_ended lib cf b)"
    unfolding peer_ended_def by (rule flush_then_sends [OF assms(1,2)]) (use law in \<open>auto simp: queue_close_def\<close>)
  moreover have "sends enc queue writable (queue (queue_close lib (ka_close ka) (bd_wslay b))) b (ka_expired lib ka b)"
    unfolding ka_expired_def by (rule flush_then_sends [OF assms(1,2)]) (use law in \<open>auto simp: queue_close_def\<close>)
  moreover have "sends enc queue writable (queue (queue_close lib (bc_error_close cfg) (bd_wslay b))) b (ws_write_failed lib cfg b)"
    unfolding ws_write_failed_def by (rule flush_then_sends [OF assms(1,2)]) (use law in \<open>auto simp: queue_close_def\<close>)
  moreover have "controls_only (queue (queue_close lib cf (bd_wslay b)))" for cf using law by (simp add: queue_close_def)
  ultimately show "\<exists>cs. controls_only cs \<and> sends enc queue writable cs b (peer_ended lib cf b)"
    "\<exists>cs. controls_only cs \<and> sends enc queue writable cs b (ka_expired lib ka b)"
    "\<exists>cs. controls_only cs \<and> sends enc queue writable cs b (ws_write_failed lib cfg b)"
    by blast+
qed

lemma queue_cmd_controls:
  assumes "sends_frames lib enc queue writable" "queue w = []"
  shows "controls_only (queue (queue_cmd lib cmd w))" "writable (queue_cmd lib cmd w) \<Longrightarrow> writable w"
  using sends_framesD(5-8) [OF assms]
  by (cases cmd; simp add: queue_cmd_def queue_msg_def queue_close_def)+

lemma control_poll_sends:
  assumes "sends_frames lib enc queue writable" "sh_outbound (bd_shared b) = []" "queue (bd_wslay b) = []"
  shows "\<exists>cs. controls_only cs \<and> sends enc queue writable cs b (control_poll lib b)"
proof (cases "bd_commands b")
  case (Cons cmd cmds)
  let ?b = "b\<lparr>bd_commands := cmds\<rparr>"
  note law = queue_cmd_controls [OF assms(1,3), of cmd]
  have "sends enc queue writable (queue (queue_cmd lib cmd (bd_wslay ?b))) ?b (control_poll lib b)"
    unfolding control_poll_def Cons list.case
    by (rule flush_then_sends [OF assms(1)]) (use assms(2) law(2) in auto)
  then have "sends enc queue writable (queue (queue_cmd lib cmd (bd_wslay b))) b (control_poll lib b)"
    by (simp add: sends_def)
  then show ?thesis using law(1) by blast
next
  case Nil
  have "sends enc queue writable [] b (control_poll lib b)"
    unfolding control_poll_def Nil by (rule sends_same) (simp_all add: assms)
  then show ?thesis using controls_only_simps(1) by blast
qed

lemma ka_check_sends:
  assumes "sends_frames lib enc queue writable" "sh_outbound (bd_shared b) = []" "queue (bd_wslay b) = []"
  shows "\<exists>cs. controls_only cs \<and> sends enc queue writable cs b (ka_check lib ka b)"
proof (cases "bd_now b - bd_last_activity b < ka_interval ka")
  case True
  have "sends enc queue writable [] b (ka_check lib ka b)"
    unfolding ka_check_def Let_def if_P [OF True] by (rule sends_same) (simp_all add: assms)
  then show ?thesis using controls_only_simps(1) by blast
next
  case False
  have "sends enc queue writable (queue (queue_msg lib 0x9 [] (bd_wslay b))) b (ka_check lib ka b)"
    unfolding ka_check_def Let_def if_not_P [OF False] ka_await_def
    by (rule flush_then_sends [OF assms(1,2)]) (use sends_framesD(6) [OF assms(1,3)] in \<open>auto simp: queue_msg_def\<close>)
  moreover have "controls_only (queue (queue_msg lib 0x9 [] (bd_wslay b)))"
    by (simp add: queue_msg_def sends_framesD(5) [OF assms(1,3)])
  ultimately show ?thesis by blast
qed

lemma sends_none: "queue (bd_wslay b) = [] \<Longrightarrow> \<exists>cs. controls_only cs \<and> sends enc queue writable cs b b"
  by (intro exI [of _ "[]"]) (simp add: sends_same)

lemma ka_poll_sends:
  assumes "sends_frames lib enc queue writable" "sh_outbound (bd_shared b) = []" "queue (bd_wslay b) = []"
  shows "\<exists>cs. controls_only cs \<and> sends enc queue writable cs b (ka_poll lib ka b)"
  using ka_check_sends [OF assms] closes_send(2) [OF assms] sends_none [where queue = queue, OF assms(3)]
  by (simp add: ka_poll_def split: keepalive_phase.split)

lemma ws_after_write_sends:
  assumes "queue (bd_wslay b) = []"
  shows "sends enc queue writable fs b (ws_after_write cfg (wire_of enc fs) closed evs b)"
  using assms
  by (auto simp: sends_def ws_after_write_def ws_after_reply_def case_prod_beta handle_events_snd)

lemma ws_read_sends:
  assumes "sends_frames lib enc queue writable" "sh_outbound (bd_shared b) = []" "queue (bd_wslay b) = []"
  shows "\<exists>cs. controls_only cs \<and> sends enc queue writable cs b (ws_read lib cfg buf b)"
proof -
  let ?s0 = "(bd_shared b)\<lparr>sh_inbound := sh_inbound (bd_shared b) @ buf\<rparr>"
  obtain rc w s where call: "run_call (wl_event_recv lib (bd_wslay b)) ?s0 = (rc, w, s)" by (metis prod_cases3)
  let ?w = "snd (wl_event_send lib w)" and ?cs = "queue w"
  have "sh_outbound s = []" using outbound.P_run_call [of ?s0 "[]" "wl_event_recv lib (bd_wslay b)"] call assms(2) by simp
  then have out: "sh_outbound (run_send (fst (wl_event_send lib w)) s) = wire_of enc ?cs"
    by (simp add: run_send_eq sends_framesD(2) [OF assms(1)])
  have law: "controls_only ?cs" "writable ?w \<longrightarrow> writable (bd_wslay b)" "queue ?w = []"
    using sends_framesD(3,4) [OF assms(1)] sends_framesD(9,10) [OF assms(1,3) call] by auto
  let ?s = "run_send (fst (wl_event_send lib w)) s"
  define c where "c = b\<lparr>bd_last_activity := bd_now b, bd_wslay := ?w,
     bd_shared := ?s\<lparr>sh_inbound := drop (sh_inbound_pos ?s) (sh_inbound ?s), sh_inbound_pos := 0,
       sh_to_peer := [], sh_outbound := [], sh_control_events := []\<rparr>\<rparr>"
  have c: "ws_total c = ws_total b" "bd_wslay c = ?w" "bd_ws_written c = bd_ws_written b" "bd_ws c = bd_ws b"
    by (simp_all add: c_def ws_total_def)
  have eq: "ws_read lib cfg buf b =
      (if sh_to_peer ?s \<noteq> []
       then c\<lparr>bd_ws := WsPeerWriting (sh_to_peer ?s) (wire_of enc ?cs) (rc \<noteq> 0 \<or> wl_close_received lib ?w) (sh_control_events ?s)\<rparr>
       else ws_after_write cfg (wire_of enc ?cs) (rc \<noteq> 0 \<or> wl_close_received lib ?w) (sh_control_events ?s) c)"
    by (simp add: ws_read_def call Let_def case_prod_beta out c_def)
  show ?thesis
  proof (cases "sh_to_peer ?s = []")
    case True
    then have "sends enc queue writable ?cs c (ws_read lib cfg buf b)"
      unfolding eq using law(3) c(2) by (simp add: ws_after_write_sends)
    then have "sends enc queue writable ?cs b (ws_read lib cfg buf b)" using law(2) by (auto simp: sends_def c)
    then show ?thesis using law(1) by blast
  next
    case False
    then have "sends enc queue writable [] b (ws_read lib cfg buf b)"
      unfolding eq using law c by (auto simp: sends_def held_replies_def)
    then show ?thesis using controls_only_simps(1) by blast
  qed
qed

lemma lock_done_sends:
  assumes "queue (bd_wslay b) = []"
  shows "sends enc queue writable [] b (lock_done cfg d b)"
  by (rule sends_same)
    (use assms in \<open>auto simp: lock_done_def ws_after_reply_def ka_await_def
      split: direction.split ws_phase.split peer_phase.split keepalive_phase.split option.split\<close>)

lemma sends_trans:
  "sends enc queue writable fs b c \<Longrightarrow> sends enc queue writable gs c d \<Longrightarrow> sends enc queue writable (fs @ gs) b d"
  by (auto simp: sends_def intro: prefix_order.trans)

lemma ws_wrote_sends:
  assumes "queue (bd_wslay b) = []"
  shows "sends enc queue writable [] b (bridge_event_step lib cfg (WsWrote n) b)"
proof (cases "bd_lock b")
  case (Cons e q)
  obtain d out where e: "e = (d, out)" by (cases e)
  define c where "c = b\<lparr>bd_ws_written := bd_ws_written b @ take n out, bd_lock := if drop n out = [] then q else (d, drop n out) # q\<rparr>"
  have "ws_total c = ws_total b" using append_take_drop_id [of n out] by (auto simp: c_def ws_total_def Cons e)
  then have "sends enc queue writable [] b c" using assms by (simp add: sends_def c_def)
  moreover have "bridge_event_step lib cfg (WsWrote n) b = (if drop n out = [] then lock_done cfg d c else c)"
    by (simp add: bridge_event_step_def Cons e Let_def c_def)
  moreover have "sends enc queue writable [] c (lock_done cfg d c)" by (rule lock_done_sends) (simp add: assms c_def)
  ultimately show ?thesis using sends_trans [of enc queue writable "[]" b c "[]" "lock_done cfg d c"] by (simp split: if_split)
qed (use assms in \<open>simp add: bridge_event_step_def sends_same\<close>)

lemma peer_wrote_sends:
  assumes "queue (bd_wslay b) = []" "held_replies enc (bd_ws b)"
  shows "\<exists>cs. controls_only cs \<and> sends enc queue writable cs b (bridge_event_step lib cfg (PeerWrote n) b)"
proof (cases "bd_ws b")
  case (WsPeerWriting to_peer out closed events)
  obtain cs where cs: "out = wire_of enc cs" "controls_only cs" using assms(2) by (auto simp: WsPeerWriting held_replies_def)
  let ?b = "b\<lparr>bd_peer_written := bd_peer_written b @ take n to_peer\<rparr>"
  have "sends enc queue writable cs ?b (ws_after_write cfg out closed events ?b)"
    unfolding cs(1) by (rule ws_after_write_sends) (simp add: assms)
  then have "sends enc queue writable cs b (ws_after_write cfg out closed events ?b)" by (simp add: sends_def ws_total_def)
  moreover have "sends enc queue writable [] b (?b\<lparr>bd_ws := WsPeerWriting (drop n to_peer) out closed events\<rparr>)"
    by (rule sends_same) (use assms cs in \<open>auto simp: ws_total_def held_replies_def\<close>)
  moreover have "bridge_event_step lib cfg (PeerWrote n) b = (if drop n to_peer = [] then ws_after_write cfg out closed events ?b
      else ?b\<lparr>bd_ws := WsPeerWriting (drop n to_peer) out closed events\<rparr>)"
    by (simp only: bridge_event_step_def WsPeerWriting Let_def bridge_event.case ws_phase.case)
  ultimately show ?thesis using cs(2) controls_only_simps(1) by (cases "drop n to_peer = []") (simp_all only: if_True if_False simp_thms, blast+)
qed (use sends_none [where queue = queue, OF assms(1)] in \<open>simp_all add: bridge_event_step_def\<close>)

subsection \<open>What the bridge read from the peer\<close>

definition taken :: "bridge_event \<Rightarrow> 'w bridge \<Rightarrow> bytes" where
  "taken ev b =
     (case ev of
        PeerBytes buf \<Rightarrow> if bd_end b = None \<and> bd_peer b = PeerReading \<and> length buf \<le> READ_CHUNK then buf else []
      | _ \<Rightarrow> [])"

fun peer_sent :: "'w wslay_lib \<Rightarrow> bridge_config \<Rightarrow> bridge_event list \<Rightarrow> 'w bridge \<Rightarrow> bytes" where
  "peer_sent lib cfg [] b = []"
| "peer_sent lib cfg (ev # evs) b = taken ev b @ peer_sent lib cfg evs (bridge_step lib cfg ev b)"

text \<open>Every event but a read from the peer, and a failed write, sends control frames only.\<close>

lemma other_event_sends:
  assumes laws: "sends_frames lib enc queue writable" and out: "sh_outbound (bd_shared b) = []" and q: "queue (bd_wslay b) = []"
    and held: "held_replies enc (bd_ws b)" and "\<And>e. ev \<noteq> WsWriteError e" "\<And>buf. ev \<noteq> PeerBytes buf"
  shows "\<exists>cs. controls_only cs \<and> sends enc queue writable cs b (bridge_event_step lib cfg ev b)"
proof -
  note none = sends_none [where queue = queue, OF q]
  have same: "\<exists>cs. controls_only cs \<and> sends enc queue writable cs b b'"
    if "ws_total b' = ws_total b" "bd_wslay b' = bd_wslay b" "bd_ws_written b' = bd_ws_written b"
      "bd_ws b' = bd_ws b \<or> held_replies enc (bd_ws b')" for b'
    using sends_same [where queue = queue, OF that(1,2) q that(3,4)] controls_only_simps(1) by blast
  have kept: "\<exists>cs. controls_only cs \<and> sends enc queue writable cs b (b\<lparr>bd_now := n\<rparr>)"
    "\<exists>cs. controls_only cs \<and> sends enc queue writable cs b (b\<lparr>bd_senders := False\<rparr>)"
    "\<exists>cs. controls_only cs \<and> sends enc queue writable cs b (snd (ws_control_send cmd b))"
    "\<exists>cs. controls_only cs \<and> sends enc queue writable cs b (finish r b)"
    "\<exists>cs. controls_only cs \<and> sends enc queue writable cs b (b\<lparr>bd_ws := WsShutdown Abnormal\<rparr>)" for n cmd r
    by (rule same; simp add: ws_total_def ws_control_send_def finish_def)+
  have flushed: "\<exists>cs. controls_only cs \<and> sends enc queue writable cs b (ws_read lib cfg buf b)"
    "\<exists>cs. controls_only cs \<and> sends enc queue writable cs b (ws_write_failed lib cfg b)"
    "\<exists>cs. controls_only cs \<and> sends enc queue writable cs b (peer_ended lib cf b)"
    "\<exists>cs. controls_only cs \<and> sends enc queue writable cs b (control_poll lib b)"
    "\<exists>cs. controls_only cs \<and> sends enc queue writable cs b (ka_poll lib ka b)" for buf cf ka
    by (rule ws_read_sends [OF laws out q] closes_send(1,3) [OF laws out q] control_poll_sends [OF laws out q] ka_poll_sends [OF laws out q])+
  show ?thesis
  proof (cases ev)
    case (PeerWrote n)
    then show ?thesis using peer_wrote_sends [where queue = queue, OF q held] by simp
  next
    case (WsWrote n)
    then show ?thesis using ws_wrote_sends [where queue = queue, OF q] controls_only_simps(1) by blast
  qed (use assms(5,6) none kept flushed in \<open>simp_all add: bridge_event_step_def split: ws_phase.split option.split\<close>)
qed

lemma peer_bytes_sends:
  assumes laws: "sends_frames lib enc queue writable" and out: "sh_outbound (bd_shared b) = []" and q: "queue (bd_wslay b) = []"
    and "bd_end b = None"
  shows "\<exists>fs. data_of fs = (if writable (bd_wslay b) then taken (PeerBytes buf) b else [])
    \<and> sends enc queue writable fs b (bridge_event_step lib cfg (PeerBytes buf) b)"
proof (cases "bd_peer b = PeerReading \<and> length buf \<le> READ_CHUNK \<and> buf \<noteq> []")
  case True
  then have "bridge_event_step lib cfg (PeerBytes buf) b = peer_read lib buf b" "taken (PeerBytes buf) b = buf"
    using assms(4) by (simp_all add: bridge_event_step_def taken_def)
  then show ?thesis using peer_read_sends [OF laws out q, of buf]
    by (intro exI [of _ "if writable (bd_wslay b) then [(0x2, buf)] else []"]) (simp add: data_of_def is_data_frame_def)
next
  case False
  then have "\<exists>cs. controls_only cs \<and> sends enc queue writable cs b (bridge_event_step lib cfg (PeerBytes buf) b)"
    using sends_none [where queue = queue, OF q] closes_send(1) [OF laws out q] by (auto simp: bridge_event_step_def)
  moreover have "taken (PeerBytes buf) b = []" using False by (auto simp: taken_def)
  ultimately show ?thesis by (metis data_of_simps(3))
qed

lemma event_sends:
  assumes "sends_frames lib enc queue writable" "sh_outbound (bd_shared b) = []" "queue (bd_wslay b) = []"
    "held_replies enc (bd_ws b)" "bd_end b = None" "\<And>e. ev \<noteq> WsWriteError e"
  shows "\<exists>fs. data_of fs = (if writable (bd_wslay b) then taken ev b else [])
    \<and> sends enc queue writable fs b (bridge_event_step lib cfg ev b)"
proof (cases "\<exists>buf. ev = PeerBytes buf")
  case True
  then show ?thesis using peer_bytes_sends [OF assms(1-3,5)] by blast
next
  case False
  then have "taken ev b = []" by (auto simp: taken_def split: bridge_event.split)
  then show ?thesis using other_event_sends [OF assms(1-4,6)] False by (metis data_of_simps(3))
qed

subsection \<open>The peer's bytes reach the socket\<close>

definition relays ::
  "(u8 \<Rightarrow> bytes \<Rightarrow> bytes) \<Rightarrow> ('w \<Rightarrow> (u8 \<times> bytes) list) \<Rightarrow> ('w \<Rightarrow> bool) \<Rightarrow> bytes \<Rightarrow> 'w bridge \<Rightarrow> bool" where
  "relays enc queue writable x b \<longleftrightarrow> (\<exists>fs. prefix (bd_ws_written b) (wire_of enc fs) \<and> prefix (data_of fs) x
     \<and> (bd_end b = None \<longrightarrow> ws_total b = wire_of enc fs \<and> queue (bd_wslay b) = [] \<and> held_replies enc (bd_ws b)
          \<and> (writable (bd_wslay b) \<longrightarrow> data_of fs = x)))"

lemma relays_sends:
  assumes "relays enc queue writable x b" "bd_end b = None" "sends enc queue writable gs b b'"
    "data_of gs = (if writable (bd_wslay b) then y else [])"
  shows "relays enc queue writable (x @ y) b'"
proof -
  obtain fs where fs: "prefix (data_of fs) x" "ws_total b = wire_of enc fs" "held_replies enc (bd_ws b)"
      "writable (bd_wslay b) \<longrightarrow> data_of fs = x"
    using assms(1,2) by (auto simp: relays_def)
  have "ws_total b' = wire_of enc (fs @ gs)" using assms(3) fs(2) by (simp add: sends_def)
  moreover from this have "prefix (bd_ws_written b') (wire_of enc (fs @ gs))" unfolding ws_total_def by (metis prefixI)
  moreover have "prefix (data_of (fs @ gs)) (x @ y)" "writable (bd_wslay b) \<longrightarrow> data_of (fs @ gs) = x @ y"
    using fs(1,4) assms(4) by (auto simp: prefix_def)
  ultimately show ?thesis
    unfolding relays_def using assms(3) fs(3) by (intro exI [of _ "fs @ gs"]) (auto simp only: sends_def)
qed

text \<open>A failed write ends the bridge.\<close>

lemma write_error_ends:
  assumes "bd_lock b \<noteq> []" "bc_keepalive cfg = None \<Longrightarrow> bd_keepalive b = KaParked"
  shows "bd_end (bridge_event_step lib cfg (WsWriteError e) b) \<noteq> None
    \<and> bd_ws_written (bridge_event_step lib cfg (WsWriteError e) b) = bd_ws_written b"
proof -
  obtain d out q where l: "bd_lock b = (d, out) # q" using assms(1) by (metis list.exhaust surj_pair)
  show ?thesis
    using assms(2)
    by (cases d) (auto simp: bridge_event_step_def l ignores_write_error_def lock_done_def finish_def
      split: peer_phase.splits option.split)
qed

lemma bridge_step_relays:
  assumes "sends_frames lib enc queue writable" "bridge_ok b" "lock_inv cfg b" "relays enc queue writable x b"
  shows "relays enc queue writable (x @ taken ev b) (bridge_step lib cfg ev b)"
proof (cases "bd_end b = None")
  case True
  have inv: "queue (bd_wslay b) = []" "held_replies enc (bd_ws b)" using assms(4) True by (auto simp: relays_def)
  show ?thesis
  proof (cases "\<exists>e. ev = WsWriteError e")
    case False
    then obtain fs where fs: "data_of fs = (if writable (bd_wslay b) then taken ev b else [])"
        "sends enc queue writable fs b (bridge_event_step lib cfg ev b)"
      using event_sends [OF assms(1) bridge_ok_outbound [OF assms(2)] inv True, of ev] by auto
    from relays_sends [OF assms(4) True fs(2,1)] show ?thesis using True by (simp add: bridge_step_def)
  next
    case err: True
    then obtain e where e: "ev = WsWriteError e" by blast
    show ?thesis
    proof (cases "bd_lock b = []")
      case True
      then show ?thesis using assms(4) by (simp add: e taken_def bridge_step_def bridge_event_step_def)
    next
      case nonempty: False
      have "lock_ok cfg b" using assms(3) True by (simp add: lock_inv_def)
      then have "bd_end (bridge_event_step lib cfg ev b) \<noteq> None" "bd_ws_written (bridge_event_step lib cfg ev b) = bd_ws_written b"
        using write_error_ends [OF nonempty, of cfg lib e] unfolding e lock_ok_def by simp_all
      then show ?thesis using assms(4) True by (auto simp: relays_def taken_def e bridge_step_def)
    qed
  qed
next
  case False
  then show ?thesis using assms(4) by (auto simp: bridge_step_def taken_def split: bridge_event.split)
qed

lemma bridge_steps_relays:
  assumes "sends_frames lib enc queue writable"
  shows "bridge_ok b \<Longrightarrow> lock_inv cfg b \<Longrightarrow> relays enc queue writable x b \<Longrightarrow>
    relays enc queue writable (x @ peer_sent lib cfg evs b) (bridge_steps lib cfg evs b)"
proof (induction evs arbitrary: b x)
  case (Cons ev evs)
  from Cons.IH [OF bridge_step_ok bridge_step_lock bridge_step_relays [OF assms Cons.prems]] Cons.prems
  show ?case by simp
qed simp

lemma bridge_relays:
  assumes "sends_frames lib enc queue writable" and "bridge_start lib cfg now = Ok b0"
  shows "relays enc queue writable (peer_sent lib cfg evs b0) (bridge_steps lib cfg evs b0)"
proof -
  have run: "bridge_run lib cfg [] b0" by (rule bridge_run_start [OF assms(2)])
  have "queue (bd_wslay b0) = []" "bd_lock b0 = []" "bd_ws_written b0 = []" "bd_ws b0 = WsReading"
    using assms(2) sends_framesD(1) [OF assms(1)] by (auto simp: bridge_start_def split: option.splits)
  then have "relays enc queue writable [] b0"
    unfolding relays_def by (intro exI [of _ "[]"]) (simp add: ws_total_def)
  from bridge_steps_relays [OF assms(1) bridge_run_ok [OF run] bridge_run_lock [OF run] this, of evs] show ?thesis by simp
qed

lemma relays_upstream:
  assumes "sends_frames lib enc queue writable" and "bridge_start lib cfg now = Ok b0" and "b = bridge_steps lib cfg evs b0"
  shows "\<exists>fs. prefix (bd_ws_written b) (wire_of enc fs) \<and> prefix (data_of fs) (peer_sent lib cfg evs b0)
    \<and> (bd_end b = None \<longrightarrow> bd_ws_written b @ concat (map snd (bd_lock b)) = wire_of enc fs
         \<and> (writable (bd_wslay b) \<longrightarrow> data_of fs = peer_sent lib cfg evs b0))"
  using bridge_relays [OF assms(1,2), of evs] unfolding assms(3) relays_def ws_total_def by auto


text \<open>
  An instance of the library: a context is its queue and whether it is writable, a frame is its opcode and its
  payload with every byte escaped and a terminator.
\<close>

definition escaped_frame :: "u8 \<Rightarrow> bytes \<Rightarrow> bytes" where
  "escaped_frame opcode payload = opcode # concat (map (\<lambda>x. [1, x]) payload) @ [0]"

definition framing_wslay :: "((u8 \<times> bytes) list \<times> bool) wslay_lib" where
  "framing_wslay =
     \<lparr>wl_server_init = Some ([], True),
      wl_event_recv = (\<lambda>w. CallRecv 4096 (\<lambda>r. case r of None \<Rightarrow> Return 0 w | Some data \<Rightarrow> FrameStart 2 (FrameChunk data (Return 0 w)))),
      wl_event_send = (\<lambda>(q, on). ([wire_of escaped_frame q], ([], on))),
      wl_queue_msg = (\<lambda>opcode payload (q, on). if on then (q @ [(opcode, payload)], on) else (q, on)),
      wl_queue_close = (\<lambda>code reason (q, on). if on then (q @ [(8, reason)], False) else (q, on)),
      wl_close_received = (\<lambda>w. False)\<rparr>"

lemma framing_sends: "sends_frames framing_wslay escaped_frame fst snd"
  by (auto simp: sends_frames_def framing_wslay_def recv_cb_def Let_def controls_only_def is_data_frame_def split: option.splits if_splits)

definition framing_bridge :: "((u8 \<times> bytes) list \<times> bool) bridge" where
  "framing_bridge = \<lparr>bd_wslay = ([], True), bd_shared = shared_default, bd_last_activity = 0, bd_now = 0,
     bd_ws = WsReading, bd_peer = PeerReading, bd_control = ControlParked, bd_keepalive = KaChecking,
     bd_commands = [], bd_senders = True, bd_lock = [], bd_peer_written = [], bd_ws_written = [],
     bd_pings = [], bd_pongs = [], bd_end = None\<rparr>"

lemma framing_start: "bridge_start framing_wslay bridge_config_default 0 = Ok framing_bridge"
  by (simp add: bridge_start_def framing_wslay_def framing_bridge_def bridge_config_default_def)

text \<open>A chunk of the peer, written to the socket in one piece.\<close>

lemma framing_sections:
  assumes "buf \<noteq> []" "length buf \<le> READ_CHUNK"
  shows "bridge_step framing_wslay bridge_config_default (PeerBytes buf) framing_bridge
      = framing_bridge\<lparr>bd_peer := PeerSending, bd_lock := [(PeerToWs, escaped_frame 2 buf)]\<rparr>"
    and "bridge_step framing_wslay bridge_config_default (WsWrote (2 * length buf + 2))
        (framing_bridge\<lparr>bd_peer := PeerSending, bd_lock := [(PeerToWs, escaped_frame 2 buf)]\<rparr>)
      = framing_bridge\<lparr>bd_ws_written := escaped_frame 2 buf\<rparr>"
proof -
  have "length (concat (map (\<lambda>x. [1, x]) buf)) = 2 * length buf" for buf :: bytes by (induction buf) simp_all
  then have all: "length (escaped_frame 2 buf) = Suc (Suc (2 * length buf))" by (simp add: escaped_frame_def)
  show "bridge_step framing_wslay bridge_config_default (PeerBytes buf) framing_bridge
      = framing_bridge\<lparr>bd_peer := PeerSending, bd_lock := [(PeerToWs, escaped_frame 2 buf)]\<rparr>"
    using assms
    by (simp add: bridge_step_def bridge_event_step_def peer_read_def flush_section_def queue_msg_def framing_wslay_def framing_bridge_def
        run_send_def send_cb_def shared_default_def lock_write_def wire_of_def escaped_frame_def)
  show "bridge_step framing_wslay bridge_config_default (WsWrote (2 * length buf + 2))
        (framing_bridge\<lparr>bd_peer := PeerSending, bd_lock := [(PeerToWs, escaped_frame 2 buf)]\<rparr>)
      = framing_bridge\<lparr>bd_ws_written := escaped_frame 2 buf\<rparr>"
    by (simp add: bridge_step_def bridge_event_step_def Let_def all lock_done_def) (simp add: framing_bridge_def)
qed

lemma framing_relays:
  assumes "buf \<noteq> []" "length buf \<le> READ_CHUNK"
  shows "bridge_steps framing_wslay bridge_config_default [PeerBytes buf, WsWrote (2 * length buf + 2)] framing_bridge
    = framing_bridge\<lparr>bd_ws_written := escaped_frame 2 buf\<rparr>"
    and "peer_sent framing_wslay bridge_config_default [PeerBytes buf, WsWrote (2 * length buf + 2)] framing_bridge = buf"
  using framing_sections [OF assms] assms by (simp_all add: taken_def) (simp add: framing_bridge_def)


text \<open>The receiver of these frames.\<close>

fun unescape :: "bytes \<Rightarrow> bytes \<times> bytes" where
  "unescape (h # x # bs) = (if h = 1 then (case unescape bs of (p, rest) \<Rightarrow> (x # p, rest)) else ([], x # bs))"
| "unescape bs = ([], [])"

lemma unescape_length: "length (snd (unescape bs)) \<le> length bs"
  by (induction bs rule: unescape.induct) (auto split: prod.splits)

function unframe :: "bytes \<Rightarrow> (u8 \<times> bytes) list" where
  "unframe [] = []"
| "unframe (opcode # bs) = (opcode, fst (unescape bs)) # unframe (snd (unescape bs))"
  by pat_completeness auto

termination unframe
  by (relation "measure length") (simp_all add: unescape_length le_imp_less_Suc)

lemma unescape_escaped: "unescape (concat (map (\<lambda>x. [1, x]) p) @ 0 # rest) = (p, rest)"
  by (induction p) (cases rest; simp)+

lemma unframe_wire: "unframe (wire_of escaped_frame fs) = fs"
  by (induction fs) (auto simp: wire_of_def escaped_frame_def unescape_escaped)

end
