(* ===== verification/Idle.thy ===== *)
theory Idle
  imports Prelude
begin

text \<open>
  \<open>h2ts-server/src/idle.rs\<close> and the idle branch of \<open>serve_h2_with_config\<close>: counting open streams
  and reaping an idle connection.

  The count lives in a tokio watch channel: the model keeps the value, a version that every
  \<open>send_modify\<close> raises, and the version the receiver has seen; \<open>changed\<close> is ready when the two
  differ and fails when the sender is gone.  The guard of a stream is held by its pending response
  or by the response body; an event moves or drops it.  When both branches of a \<open>select!\<close> are ready
  the macro picks one at random, so a poll takes the pick as an argument.
\<close>

subsection \<open>Counting streams\<close>

record stream_counter =
  sk_open :: nat
  sk_version :: nat

definition counter_new :: stream_counter where
  "counter_new = \<lparr>sk_open = 0, sk_version = 0\<rparr>"

definition enter :: "stream_counter \<Rightarrow> stream_counter" where
  "enter k = k\<lparr>sk_open := sk_open k + 1, sk_version := sk_version k + 1\<rparr>"

definition guard_drop :: "stream_counter \<Rightarrow> stream_counter" where
  "guard_drop k = k\<lparr>sk_open := sk_open k - 1, sk_version := sk_version k + 1\<rparr>"

text \<open>Where the guard of a stream is: with the pending response future, with the body, or dropped.\<close>

datatype tracked = InFuture | InBody | Finished

subsection \<open>Waiting for idleness\<close>

datatype wait_phase = Checking | Busy | Waiting_idle instant | Returned

record idle_system =
  id_counter :: stream_counter
  id_streams :: "tracked list"
  id_sender :: bool
  id_seen :: nat
  id_phase :: wait_phase
  id_now :: instant

definition has_changed :: "idle_system \<Rightarrow> bool" where
  "has_changed sy \<longleftrightarrow> sk_version (id_counter sy) \<noteq> id_seen sy"

definition mark_seen :: "idle_system \<Rightarrow> idle_system" where
  "mark_seen sy = sy\<lparr>id_seen := sk_version (id_counter sy)\<rparr>"

text \<open>One pass of the loop of \<open>wait_idle\<close> up to the next suspension.\<close>

definition wait_check :: "nat \<Rightarrow> idle_system \<Rightarrow> idle_system" where
  "wait_check idle sy =
     (mark_seen sy)\<lparr>id_phase := (if sk_open (id_counter sy) \<noteq> 0 then Busy else Waiting_idle (id_now sy + idle))\<rparr>"

definition wait_poll :: "nat \<Rightarrow> bool \<Rightarrow> idle_system \<Rightarrow> idle_system" where
  "wait_poll idle pick_sleep sy =
     (case id_phase sy of
        Checking \<Rightarrow> wait_check idle sy
      | Busy \<Rightarrow>
          if has_changed sy then wait_check idle sy
          else if \<not> id_sender sy then sy\<lparr>id_phase := Returned\<rparr> else sy
      | Waiting_idle deadline \<Rightarrow>
          let slept = deadline \<le> id_now sy in
          if slept \<and> (pick_sleep \<or> \<not> has_changed sy \<and> id_sender sy) then sy\<lparr>id_phase := Returned\<rparr>
          else if has_changed sy then wait_check idle sy
          else if \<not> id_sender sy then sy\<lparr>id_phase := Returned\<rparr> else sy
      | Returned \<Rightarrow> sy)"

subsection \<open>Steps\<close>

datatype idle_event =
    Call
  | Respond nat
  | FutureFailed nat
  | BodyDropped nat
  | SenderGone
  | Advance nat
  | PollWait bool

definition drop_guard_of :: "nat \<Rightarrow> idle_system \<Rightarrow> idle_system" where
  "drop_guard_of i sy = sy\<lparr>id_counter := guard_drop (id_counter sy), id_streams := (id_streams sy)[i := Finished]\<rparr>"

fun idle_step :: "nat \<Rightarrow> idle_event \<Rightarrow> idle_system \<Rightarrow> idle_system" where
  "idle_step idle Call sy = sy\<lparr>id_counter := enter (id_counter sy), id_streams := id_streams sy @ [InFuture]\<rparr>"
| "idle_step idle (Respond i) sy =
     (if i < length (id_streams sy) \<and> id_streams sy ! i = InFuture
      then sy\<lparr>id_streams := (id_streams sy)[i := InBody]\<rparr> else sy)"
| "idle_step idle (FutureFailed i) sy =
     (if i < length (id_streams sy) \<and> id_streams sy ! i = InFuture then drop_guard_of i sy else sy)"
| "idle_step idle (BodyDropped i) sy =
     (if i < length (id_streams sy) \<and> id_streams sy ! i = InBody then drop_guard_of i sy else sy)"
| "idle_step idle SenderGone sy = sy\<lparr>id_sender := False\<rparr>"
| "idle_step idle (Advance n) sy = sy\<lparr>id_now := id_now sy + n\<rparr>"
| "idle_step idle (PollWait pick) sy = wait_poll idle pick sy"

definition idle_init :: idle_system where
  "idle_init = \<lparr>id_counter = counter_new, id_streams = [], id_sender = True, id_seen = 0, id_phase = Checking, id_now = 0\<rparr>"

inductive idle_run :: "nat \<Rightarrow> idle_event list \<Rightarrow> idle_system \<Rightarrow> bool" for idle where
  idle_run_init: "idle_run idle [] idle_init"
| idle_run_step: "idle_run idle evs sy \<Longrightarrow> idle_run idle (evs @ [ev]) (idle_step idle ev sy)"

subsection \<open>Invariants\<close>

definition open_streams :: "idle_system \<Rightarrow> nat" where
  "open_streams sy = length (filter (\<lambda>s. s \<noteq> Finished) (id_streams sy))"

definition idle_inv :: "idle_system \<Rightarrow> bool" where
  "idle_inv sy \<longleftrightarrow> sk_open (id_counter sy) = open_streams sy \<and> id_seen sy \<le> sk_version (id_counter sy)"

lemma filter_update_finish:
  "i < length xs \<Longrightarrow> xs ! i \<noteq> Finished \<Longrightarrow>
   Suc (length (filter (\<lambda>s. s \<noteq> Finished) (xs[i := Finished]))) = length (filter (\<lambda>s. s \<noteq> Finished) xs)"
proof (induction xs arbitrary: i)
  case (Cons x xs)
  then show ?case by (cases i) auto
qed simp

lemma filter_update_keep:
  "i < length xs \<Longrightarrow> xs ! i \<noteq> Finished \<Longrightarrow> y \<noteq> Finished \<Longrightarrow>
   length (filter (\<lambda>s. s \<noteq> Finished) (xs[i := y])) = length (filter (\<lambda>s. s \<noteq> Finished) xs)"
proof (induction xs arbitrary: i)
  case (Cons x xs)
  then show ?case by (cases i) auto
qed simp

lemma wait_poll_fields [simp]:
  "id_counter (wait_poll idle pick sy) = id_counter sy" "id_streams (wait_poll idle pick sy) = id_streams sy"
  "id_now (wait_poll idle pick sy) = id_now sy" "id_sender (wait_poll idle pick sy) = id_sender sy"
  by (simp_all add: wait_poll_def wait_check_def mark_seen_def Let_def split: wait_phase.split)

lemma idle_step_inv: "idle_inv sy \<Longrightarrow> idle_inv (idle_step idle ev sy)"
proof (cases ev)
  case (FutureFailed i)
  assume "idle_inv sy"
  then show ?thesis using FutureFailed filter_update_finish [of i "id_streams sy"]
    by (auto simp: idle_inv_def open_streams_def drop_guard_of_def guard_drop_def)
next
  case (BodyDropped i)
  assume "idle_inv sy"
  then show ?thesis using BodyDropped filter_update_finish [of i "id_streams sy"]
    by (auto simp: idle_inv_def open_streams_def drop_guard_of_def guard_drop_def)
next
  case (PollWait pick)
  assume inv: "idle_inv sy"
  then have "id_seen (wait_poll idle pick sy) \<le> sk_version (id_counter sy)"
    by (simp add: idle_inv_def wait_poll_def wait_check_def mark_seen_def Let_def split: wait_phase.split)
  then show ?thesis using inv PollWait by (simp add: idle_inv_def open_streams_def)
qed (auto simp: idle_inv_def open_streams_def enter_def filter_update_keep)

lemma idle_run_inv: "idle_run idle evs sy \<Longrightarrow> idle_inv sy"
  by (induction rule: idle_run.induct)
    (simp_all add: idle_step_inv, simp add: idle_inv_def idle_init_def counter_new_def open_streams_def)

text \<open>
  No stream was open when the timer started, and none was opened or closed since: every opening and
  closing raises the version.
\<close>

definition quiet_since :: "nat \<Rightarrow> idle_event list \<Rightarrow> idle_system \<Rightarrow> instant \<Rightarrow> bool" where
  "quiet_since idle evs sy start \<longleftrightarrow> (\<exists>pre post sy0. evs = pre @ post \<and> idle_run idle pre sy0
     \<and> id_now sy0 = start \<and> open_streams sy0 = 0 \<and> sk_version (id_counter sy) = sk_version (id_counter sy0))"

lemma quiet_since_snoc:
  "quiet_since idle evs sy start \<Longrightarrow> sk_version (id_counter sy') = sk_version (id_counter sy) \<Longrightarrow>
   quiet_since idle (evs @ [ev]) sy' start"
  unfolding quiet_since_def by (metis append_assoc)

lemma version_mono: "sk_version (id_counter sy) \<le> sk_version (id_counter (idle_step idle ev sy))"
  by (cases ev) (simp_all add: enter_def drop_guard_of_def guard_drop_def)

lemma seen_step: "ev \<notin> range PollWait \<Longrightarrow> id_phase (idle_step idle ev sy) = id_phase sy \<and> id_seen (idle_step idle ev sy) = id_seen sy"
  by (cases ev) (auto simp: drop_guard_of_def)

lemma wait_poll_waiting:
  "id_phase (wait_poll idle pick sy) = Waiting_idle d \<Longrightarrow> wait_poll idle pick sy = sy \<or> wait_poll idle pick sy = wait_check idle sy"
  by (auto simp: wait_poll_def Let_def split: wait_phase.splits if_splits)

lemma version_streams:
  "sk_version (id_counter (idle_step idle ev sy)) = sk_version (id_counter sy) \<Longrightarrow> open_streams (idle_step idle ev sy) = open_streams sy"
  by (cases ev) (auto simp: open_streams_def enter_def drop_guard_of_def guard_drop_def filter_update_keep)

lemma idle_run_waiting:
  "idle_run idle evs sy \<Longrightarrow> id_phase sy = Waiting_idle d \<Longrightarrow> \<not> has_changed sy \<Longrightarrow>
   open_streams sy = 0 \<and> (\<exists>start. quiet_since idle evs sy start \<and> start + idle = d)"
proof (induction arbitrary: d rule: idle_run.induct)
  case (idle_run_step evs sy ev)
  note inv = idle_run_inv [OF idle_run_step(1)]
  let ?sy = "idle_step idle ev sy"
  consider (keep) "id_phase sy = Waiting_idle d" "\<not> has_changed sy" "sk_version (id_counter ?sy) = sk_version (id_counter sy)"
    | (check) "?sy = wait_check idle sy"
  proof (cases "ev \<in> range PollWait")
    case True
    then obtain pick where "ev = PollWait pick" by blast
    then show ?thesis using wait_poll_waiting [of idle pick sy d] idle_run_step(3,4) that by auto
  next
    case False
    then have "id_phase sy = Waiting_idle d" "sk_version (id_counter ?sy) = id_seen sy"
      using seen_step [OF False, of idle sy] idle_run_step(3,4) by (simp_all add: has_changed_def)
    then show ?thesis using version_mono [of sy idle ev] inv that(1) by (simp add: idle_inv_def has_changed_def)
  qed
  then show ?case
  proof cases
    case keep
    then show ?thesis using idle_run_step.IH quiet_since_snoc version_streams [OF keep(3)] by metis
  next
    case check
    then have "sk_open (id_counter sy) = 0" "id_now ?sy + idle = d"
      using idle_run_step(3) by (auto simp: wait_check_def mark_seen_def split: if_splits)
    then have "open_streams ?sy = 0" using inv check by (simp add: idle_inv_def open_streams_def wait_check_def mark_seen_def)
    moreover have "idle_run idle (evs @ [ev]) ?sy" by (rule idle_run.idle_run_step [OF idle_run_step(1)])
    ultimately have "open_streams ?sy = 0 \<and> quiet_since idle (evs @ [ev]) ?sy (id_now ?sy)"
      unfolding quiet_since_def by (intro conjI exI [of _ "evs @ [ev]"] exI [of _ "[]"] exI [of _ ?sy]) simp_all
    then show ?thesis using \<open>id_now ?sy + idle = d\<close> by blast
  qed
qed (simp add: idle_init_def)

subsection \<open>Main theorems\<close>

text \<open>
  The count of open streams is exact.  Whatever the order in which requests arrive, services
  answer or fail and bodies are dropped, the published count is the number of streams whose guard is
  still held, so the saturating subtraction never saturates.
\<close>

theorem stream_count_exact:
  assumes "idle_run idle evs sy"
  shows "sk_open (id_counter sy) = open_streams sy"
  using idle_run_inv [OF assms] by (simp add: idle_inv_def)

theorem stream_count_exact_witness:
  "sk_open (id_counter (idle_step 30 (BodyDropped 0) (idle_step 30 (Respond 0) (idle_step 30 Call idle_init)))) = 0"
proof -
  have "idle_run 30 ((([] @ [Call]) @ [Respond 0]) @ [BodyDropped 0])
      (idle_step 30 (BodyDropped 0) (idle_step 30 (Respond 0) (idle_step 30 Call idle_init)))"
    by (intro idle_run.intros)
  from stream_count_exact [OF this] show ?thesis
    by (simp add: open_streams_def drop_guard_of_def idle_init_def)
qed

text \<open>
  Only an idle connection is reaped.  When \<open>wait_idle\<close> returns although the counter is still
  there, and no change of the count is waiting to be seen, then no stream is open and none was
  opened or closed for the whole idle time before.
\<close>

theorem wait_idle_only_when_idle:
  assumes "idle_run idle evs sy" and "id_phase sy \<noteq> Returned" and "id_phase (wait_poll idle pick sy) = Returned"
    and "id_sender sy" and "\<not> has_changed sy"
  shows "open_streams sy = 0 \<and> (\<exists>start. quiet_since idle evs sy start \<and> start + idle \<le> id_now sy)"
proof -
  obtain d where d: "id_phase sy = Waiting_idle d" "d \<le> id_now sy"
    using assms(2-5) by (auto simp: wait_poll_def wait_check_def Let_def split: wait_phase.splits if_splits)
  then show ?thesis using idle_run_waiting [OF assms(1) d(1) assms(5)] by auto
qed

theorem wait_idle_only_when_idle_witness:
  "\<exists>sy. idle_run 30 [PollWait False, Advance 30] sy \<and> id_phase (wait_poll 30 False sy) = Returned \<and> open_streams sy = 0"
proof -
  let ?sy = "idle_step 30 (Advance 30) (idle_step 30 (PollWait False) idle_init)"
  have run: "idle_run 30 (([] @ [PollWait False]) @ [Advance 30]) ?sy" by (intro idle_run.intros)
  have sy: "id_phase ?sy = Waiting_idle 30" "id_phase (wait_poll 30 False ?sy) = Returned" "id_sender ?sy" "\<not> has_changed ?sy"
    by (simp_all add: idle_init_def wait_poll_def wait_check_def mark_seen_def counter_new_def has_changed_def)
  have "id_phase ?sy \<noteq> Returned" unfolding sy(1) by simp
  from wait_idle_only_when_idle [OF run this sy(2-4)] run sy(2) show ?thesis by auto
qed

text \<open>
  The race at the deadline can go against a new stream.  If a stream opens between the end
  of the idle time and the next poll, both branches of the \<open>select!\<close> are ready; when it picks the
  timer, the connection is reaped with the stream open.
\<close>

theorem wait_idle_race_reaps_open_stream:
  "\<exists>sy. idle_run idle [PollWait False, Advance idle, Call] sy \<and> open_streams sy = 1
     \<and> id_phase (wait_poll idle True sy) = Returned"
proof -
  let ?sy = "idle_step idle Call (idle_step idle (Advance idle) (idle_step idle (PollWait False) idle_init))"
  have "idle_run idle ((([] @ [PollWait False]) @ [Advance idle]) @ [Call]) ?sy" by (intro idle_run.intros)
  moreover have "open_streams ?sy = 1" "id_phase (wait_poll idle True ?sy) = Returned"
    by (simp_all add: idle_init_def wait_poll_def wait_check_def mark_seen_def counter_new_def open_streams_def)
  ultimately show ?thesis by auto
qed

end
