(* ===== verification/Serve.thy ===== *)
theory Serve
  imports Idle Bridge
begin

text \<open>
  \<open>h2ts-server/src/lib.rs\<close>: serving HTTP/2 over the tunnel.  hyper's connection future is outside
  the model: an event says when it is done; the stream it reads and writes is in \<open>Byte_Stream\<close>.  What is modelled here is how the configuration reaches the bridge and the idle timer, and the \<open>select!\<close> between
  the connection and the timer.  The counter is held for as long as the function runs, so the watch
  channel's sender is never gone there.
\<close>

subsection \<open>Configuration\<close>

record serve_config =
  sv_bridge :: bridge_config
  sv_idle_timeout :: "nat option"

definition serve_config_default :: serve_config where
  "serve_config_default = \<lparr>sv_bridge = bridge_config_default, sv_idle_timeout = None\<rparr>"

text \<open>The configuration with which the short entry points call \<open>serve_h2_with_config\<close>.\<close>

definition serve_h2_with :: "bridge_config \<Rightarrow> serve_config" where
  "serve_h2_with config = \<lparr>sv_bridge = config, sv_idle_timeout = None\<rparr>"

definition serve_h2 :: serve_config where
  "serve_h2 = serve_h2_with bridge_config_default"

subsection \<open>The connection against the idle timer\<close>

datatype serve_phase = Serving | Draining | Served "(string, unit) result"

record server =
  sr_phase :: serve_phase
  sr_idle :: idle_system
  sr_goaways :: nat

definition serve_start :: server where
  "serve_start = \<lparr>sr_phase = Serving, sr_idle = idle_init, sr_goaways = 0\<rparr>"

datatype serve_event =
    ConnDone "(string, unit) result"
  | Traffic idle_event

fun is_poll :: "idle_event \<Rightarrow> bool" where
  "is_poll (PollWait _) = True"
| "is_poll _ = False"

text \<open>
  Streams open and close in every phase; the timer is polled only while it is one of the branches of
  the \<open>select!\<close>, and when it is done the connection is shut down gracefully and driven to its end.
\<close>

definition serve_traffic :: "serve_config \<Rightarrow> idle_event \<Rightarrow> server \<Rightarrow> server" where
  "serve_traffic config ev s =
     (if is_poll ev then
        (case (sr_phase s, sv_idle_timeout config) of
           (Serving, Some idle) \<Rightarrow>
             let i = idle_step idle ev (sr_idle s) in
             if id_phase i = Returned then s\<lparr>sr_phase := Draining, sr_idle := i, sr_goaways := sr_goaways s + 1\<rparr>
             else s\<lparr>sr_idle := i\<rparr>
         | _ \<Rightarrow> s)
      else s\<lparr>sr_idle := idle_step 0 ev (sr_idle s)\<rparr>)"

definition serve_step :: "serve_config \<Rightarrow> serve_event \<Rightarrow> server \<Rightarrow> server" where
  "serve_step config ev s =
     (case sr_phase s of
        Served r \<Rightarrow> s
      | _ \<Rightarrow> (case ev of
                ConnDone r \<Rightarrow> s\<lparr>sr_phase := Served r\<rparr>
              | Traffic e \<Rightarrow> if e = SenderGone then s else serve_traffic config e s))"

inductive serve_run :: "serve_config \<Rightarrow> serve_event list \<Rightarrow> server \<Rightarrow> bool" for config where
  serve_run_start: "serve_run config [] serve_start"
| serve_run_step: "serve_run config evs s \<Longrightarrow> serve_run config (evs @ [ev]) (serve_step config ev s)"

subsection \<open>When a connection is shut down\<close>

lemma idle_step_sender: "ev \<noteq> SenderGone \<Longrightarrow> id_sender (idle_step idle ev sy) = id_sender sy"
  by (cases ev) (simp_all add: drop_guard_of_def)

lemma idle_step_any: "\<not> is_poll ev \<Longrightarrow> idle_step 0 ev sy = idle_step idle ev sy"
  by (cases ev) simp_all

text \<open>The timer's part of the state is a run of the idle model; its phase tells how often it fired.\<close>

definition serve_ok :: "serve_config \<Rightarrow> server \<Rightarrow> bool" where
  "serve_ok config s \<longleftrightarrow> id_sender (sr_idle s) \<and> (\<forall>idle. sv_idle_timeout config = Some idle \<longrightarrow> (\<exists>ievs. idle_run idle ievs (sr_idle s)))
     \<and> (sv_idle_timeout config = None \<longrightarrow> sr_goaways s = 0) \<and> sr_goaways s \<le> 1
     \<and> (sr_phase s = Serving \<longrightarrow> sr_goaways s = 0 \<and> id_phase (sr_idle s) \<noteq> Returned) \<and> (sr_phase s = Draining \<longrightarrow> sr_goaways s = 1)"

lemma traffic_run:
  assumes "\<exists>ievs. idle_run idle ievs sy" shows "\<exists>ievs. idle_run idle ievs (idle_step idle ev sy)"
  using assms by (auto intro: idle_run_step)

lemma serve_traffic_ok:
  assumes "serve_ok config s" "e \<noteq> SenderGone" "\<And>r. sr_phase s \<noteq> Served r"
  shows "serve_ok config (serve_traffic config e s)"
proof (cases "is_poll e")
  case True
  show ?thesis
  proof (cases "sr_phase s = Serving \<and> (\<exists>idle. sv_idle_timeout config = Some idle)")
    case True
    then obtain idle where i: "sr_phase s = Serving" "sv_idle_timeout config = Some idle" by blast
    have "\<exists>ievs. idle_run idle ievs (idle_step idle e (sr_idle s))"
      using assms(1) i by (intro traffic_run) (simp add: serve_ok_def)
    moreover have "id_sender (idle_step idle e (sr_idle s))"
      using assms(1,2) by (simp add: serve_ok_def idle_step_sender)
    ultimately show ?thesis using assms(1) i \<open>is_poll e\<close> by (simp add: serve_traffic_def serve_ok_def Let_def)
  next
    case False
    then have "serve_traffic config e s = s"
      using \<open>is_poll e\<close> by (auto simp: serve_traffic_def split: serve_phase.split option.split)
    then show ?thesis using assms(1) by simp
  qed
next
  case False
  have "id_phase (idle_step 0 e (sr_idle s)) = id_phase (sr_idle s)"
    using False by (cases e) (simp_all add: drop_guard_of_def)
  moreover have "\<exists>ievs. idle_run idle ievs (idle_step 0 e (sr_idle s))" if "sv_idle_timeout config = Some idle" for idle
    unfolding idle_step_any [OF False, of _ idle] using assms(1) that by (intro traffic_run) (simp add: serve_ok_def)
  moreover have "id_sender (idle_step 0 e (sr_idle s))" using assms(1,2) by (simp add: serve_ok_def idle_step_sender)
  ultimately show ?thesis using assms(1) False by (auto simp: serve_traffic_def serve_ok_def)
qed

lemma serve_run_ok: "serve_run config evs s \<Longrightarrow> serve_ok config s"
proof (induction rule: serve_run.induct)
  case serve_run_start
  have "idle_run idle [] idle_init" for idle by (rule idle_run_init)
  then show ?case by (auto simp: serve_ok_def serve_start_def idle_init_def)
next
  case (serve_run_step evs s ev)
  show ?case
  proof (cases ev)
    case (ConnDone r)
    then show ?thesis using serve_run_step.IH by (cases "sr_phase s") (auto simp: serve_step_def serve_ok_def)
  next
    case (Traffic e)
    then show ?thesis using serve_run_step.IH serve_traffic_ok [of config s e]
      by (cases "sr_phase s") (simp_all add: serve_step_def)
  qed
qed



end
