(* ===== verification/Byte_Stream.thy ===== *)
theory Byte_Stream
  imports Downstream Serve Stream_State
begin

text \<open>
  \<open>WsByteStream\<close> of \<open>h2ts-server/src/lib.rs\<close> and the connection served on it: the bridge runs on a task of its
  own between the WebSocket and one end of an in-memory duplex, and the application has the other end.
  tokio's duplex is a parameter, a record of the operations the code calls; what is assumed of it is the
  predicate \<open>duplex_laws\<close>.  The bridge is the model of \<open>Bridge\<close>, whose peer is now the duplex.
\<close>

subsection \<open>The duplex\<close>

datatype side = AppSide | WsSide

fun other :: "side \<Rightarrow> side" where
  "other AppSide = WsSide"
| "other WsSide = AppSide"

record 'd duplex_lib =
  dx_duplex :: "nat \<Rightarrow> 'd"
  dx_poll_read :: "side \<Rightarrow> nat \<Rightarrow> 'd \<Rightarrow> (string, bytes) result poll \<times> 'd"
  dx_poll_write :: "side \<Rightarrow> bytes \<Rightarrow> 'd \<Rightarrow> (string, nat) result poll \<times> 'd"
  dx_poll_flush :: "side \<Rightarrow> 'd \<Rightarrow> (string, unit) result poll \<times> 'd"
  dx_poll_shutdown :: "side \<Rightarrow> 'd \<Rightarrow> (string, unit) result poll \<times> 'd"
  dx_drop :: "side \<Rightarrow> 'd \<Rightarrow> 'd"

definition DUPLEX_BUF :: nat where
  "DUPLEX_BUF = 64 * 1024"

subsection \<open>The stream\<close>

text \<open>
  \<open>bs_bridge\<close> is the bridge of the spawned task, or its error if the library could not be set up.
  \<open>bs_app_read\<close> and \<open>bs_app_written\<close> record what the application has read and what its writes were accepted for;
  \<open>bs_app_shut\<close> and \<open>bs_app_dropped\<close> that it has shut the stream down and let go of the handle.
\<close>

record ('d, 'w) ws_byte_stream =
  bs_inner :: 'd
  bs_bridge :: "(string, 'w bridge) result"
  bs_app_read :: bytes
  bs_app_written :: bytes
  bs_app_shut :: bool
  bs_app_dropped :: bool

text \<open>A task that has ended has dropped its end of the duplex.\<close>

definition with_config ::
  "'d duplex_lib \<Rightarrow> 'w wslay_lib \<Rightarrow> bridge_config \<Rightarrow> instant \<Rightarrow> ('d, 'w) ws_byte_stream" where
  "with_config dx lib config now =
     (let d = dx_duplex dx DUPLEX_BUF; b = bridge_start lib config now in
      \<lparr>bs_inner = (case b of Ok _ \<Rightarrow> d | _ \<Rightarrow> dx_drop dx WsSide d), bs_bridge = b,
       bs_app_read = [], bs_app_written = [], bs_app_shut = False, bs_app_dropped = False\<rparr>)"

definition ws_byte_stream_new :: "'d duplex_lib \<Rightarrow> 'w wslay_lib \<Rightarrow> instant \<Rightarrow> ('d, 'w) ws_byte_stream" where
  "ws_byte_stream_new dx lib now = with_config dx lib bridge_config_default now"

definition poll_read ::
  "'d duplex_lib \<Rightarrow> nat \<Rightarrow> ('d, 'w) ws_byte_stream \<Rightarrow> (string, bytes) result poll \<times> ('d, 'w) ws_byte_stream" where
  "poll_read dx buf s =
     (case dx_poll_read dx AppSide buf (bs_inner s) of (r, d) \<Rightarrow>
        (r, s\<lparr>bs_inner := d, bs_app_read := bs_app_read s @ (case r of Ready (Ok bytes) \<Rightarrow> bytes | _ \<Rightarrow> [])\<rparr>))"

definition poll_write ::
  "'d duplex_lib \<Rightarrow> bytes \<Rightarrow> ('d, 'w) ws_byte_stream \<Rightarrow> (string, nat) result poll \<times> ('d, 'w) ws_byte_stream" where
  "poll_write dx buf s =
     (case dx_poll_write dx AppSide buf (bs_inner s) of (r, d) \<Rightarrow>
        (r, s\<lparr>bs_inner := d, bs_app_written := bs_app_written s @ (case r of Ready (Ok n) \<Rightarrow> take n buf | _ \<Rightarrow> [])\<rparr>))"

definition poll_flush ::
  "'d duplex_lib \<Rightarrow> ('d, 'w) ws_byte_stream \<Rightarrow> (string, unit) result poll \<times> ('d, 'w) ws_byte_stream" where
  "poll_flush dx s = (case dx_poll_flush dx AppSide (bs_inner s) of (r, d) \<Rightarrow> (r, s\<lparr>bs_inner := d\<rparr>))"

definition poll_shutdown ::
  "'d duplex_lib \<Rightarrow> ('d, 'w) ws_byte_stream \<Rightarrow> (string, unit) result poll \<times> ('d, 'w) ws_byte_stream" where
  "poll_shutdown dx s = (case dx_poll_shutdown dx AppSide (bs_inner s) of (r, d) \<Rightarrow> (r, s\<lparr>bs_inner := d, bs_app_shut := True\<rparr>))"

definition stream_drop :: "'d duplex_lib \<Rightarrow> ('d, 'w) ws_byte_stream \<Rightarrow> ('d, 'w) ws_byte_stream" where
  "stream_drop dx s = s\<lparr>bs_inner := dx_drop dx AppSide (bs_inner s), bs_app_shut := True, bs_app_dropped := True\<rparr>"

subsection \<open>The bridge's task\<close>

text \<open>
  An await of the bridge on its peer is a poll of the duplex: the read of \<open>peer_to_ws\<close>, a turn of the
  \<open>write_all\<close> of \<open>ws_to_peer\<close>, where a write of nothing is an error, and the final \<open>shutdown\<close>, whose result is
  ignored.  What the poll gives is the event of the bridge; all else that happens to the bridge comes from its
  WebSocket, its control channel and the clock.
\<close>

datatype task_poll = PollRead | PollWrite | PollShutdown | Own bridge_event

fun peer_event :: "bridge_event \<Rightarrow> bool" where
  "peer_event (PeerBytes _) = True"
| "peer_event (PeerWrote _) = True"
| "peer_event PeerReadError = True"
| "peer_event PeerWriteError = True"
| "peer_event ShutdownDone = True"
| "peer_event _ = False"

definition peer_read_poll :: "'d duplex_lib \<Rightarrow> 'w bridge \<Rightarrow> 'd \<Rightarrow> bridge_event option \<times> 'd" where
  "peer_read_poll dx b d =
     (if bd_peer b = PeerReading then
        (case dx_poll_read dx WsSide READ_CHUNK d of
           (Ready (Ok buf), d) \<Rightarrow> (Some (PeerBytes buf), d)
         | (Ready _, d) \<Rightarrow> (Some PeerReadError, d)
         | (Pending, d) \<Rightarrow> (None, d))
      else (None, d))"

definition peer_write_poll :: "'d duplex_lib \<Rightarrow> 'w bridge \<Rightarrow> 'd \<Rightarrow> bridge_event option \<times> 'd" where
  "peer_write_poll dx b d =
     (case bd_ws b of
        WsPeerWriting to_peer _ _ _ \<Rightarrow>
          (case dx_poll_write dx WsSide to_peer d of
             (Ready (Ok n), d) \<Rightarrow> (Some (if n = 0 then PeerWriteError else PeerWrote n), d)
           | (Ready _, d) \<Rightarrow> (Some PeerWriteError, d)
           | (Pending, d) \<Rightarrow> (None, d))
      | _ \<Rightarrow> (None, d))"

definition peer_shutdown_poll :: "'d duplex_lib \<Rightarrow> 'w bridge \<Rightarrow> 'd \<Rightarrow> bridge_event option \<times> 'd" where
  "peer_shutdown_poll dx b d =
     (case bd_ws b of
        WsShutdown _ \<Rightarrow>
          (case dx_poll_shutdown dx WsSide d of (Ready _, d) \<Rightarrow> (Some ShutdownDone, d) | (Pending, d) \<Rightarrow> (None, d))
      | _ \<Rightarrow> (None, d))"

fun peer_polled :: "'d duplex_lib \<Rightarrow> task_poll \<Rightarrow> 'w bridge \<Rightarrow> 'd \<Rightarrow> bridge_event option \<times> 'd" where
  "peer_polled dx PollRead b d = peer_read_poll dx b d"
| "peer_polled dx PollWrite b d = peer_write_poll dx b d"
| "peer_polled dx PollShutdown b d = peer_shutdown_poll dx b d"
| "peer_polled dx (Own ev) b d = (if peer_event ev then None else Some ev, d)"

lemmas peer_poll_defs [simp] = peer_read_poll_def peer_write_poll_def peer_shutdown_poll_def

definition task_step ::
  "'d duplex_lib \<Rightarrow> 'w wslay_lib \<Rightarrow> bridge_config \<Rightarrow> task_poll \<Rightarrow> ('d, 'w) ws_byte_stream \<Rightarrow> ('d, 'w) ws_byte_stream" where
  "task_step dx lib config p s =
     (case bs_bridge s of
        Ok b \<Rightarrow>
          if bd_end b \<noteq> None then s
          else (case peer_polled dx p b (bs_inner s) of
                  (None, d) \<Rightarrow> s\<lparr>bs_inner := d\<rparr>
                | (Some ev, d) \<Rightarrow>
                    let b = bridge_step lib config ev b in
                    s\<lparr>bs_inner := (if bd_end b = None then d else dx_drop dx WsSide d), bs_bridge := Ok b\<rparr>)
      | _ \<Rightarrow> s)"

datatype stream_event = AppRead nat | AppWrite bytes | AppFlush | AppShutdown | AppDrop | Task task_poll

text \<open>Whoever has dropped the handle can no longer call it.\<close>

definition stream_step ::
  "'d duplex_lib \<Rightarrow> 'w wslay_lib \<Rightarrow> bridge_config \<Rightarrow> stream_event \<Rightarrow> ('d, 'w) ws_byte_stream \<Rightarrow> ('d, 'w) ws_byte_stream" where
  "stream_step dx lib config ev s =
     (case ev of
        Task p \<Rightarrow> task_step dx lib config p s
      | AppRead n \<Rightarrow> if bs_app_dropped s then s else snd (poll_read dx n s)
      | AppWrite buf \<Rightarrow> if bs_app_dropped s then s else snd (poll_write dx buf s)
      | AppFlush \<Rightarrow> if bs_app_dropped s then s else snd (poll_flush dx s)
      | AppShutdown \<Rightarrow> if bs_app_dropped s then s else snd (poll_shutdown dx s)
      | AppDrop \<Rightarrow> if bs_app_dropped s then s else stream_drop dx s)"

inductive stream_run ::
  "'d duplex_lib \<Rightarrow> 'w wslay_lib \<Rightarrow> bridge_config \<Rightarrow> stream_event list \<Rightarrow> ('d, 'w) ws_byte_stream \<Rightarrow> bool"
  for dx lib config where
  stream_run_start: "stream_run dx lib config [] (with_config dx lib config now)"
| stream_run_step: "stream_run dx lib config evs s \<Longrightarrow> stream_run dx lib config (evs @ [ev]) (stream_step dx lib config ev s)"

subsection \<open>What the duplex promises\<close>

text \<open>
  \<open>transit d x\<close> is what end \<open>x\<close> has written and the other has not read, and \<open>shut d x\<close> that end \<open>x\<close> was shut down or
  dropped.  A read hands out a beginning of what is in transit; it is empty, unless no room was asked for, only
  if there is nothing more and the other end is shut.  A write appends a beginning of its argument, and no
  more than \<open>room\<close> is in transit.  Nothing else touches the bytes.
\<close>

definition duplex_laws :: "'d duplex_lib \<Rightarrow> nat \<Rightarrow> ('d \<Rightarrow> side \<Rightarrow> bytes) \<Rightarrow> ('d \<Rightarrow> side \<Rightarrow> bool) \<Rightarrow> bool" where
  "duplex_laws dx room transit shut \<longleftrightarrow>
     (\<forall>x. transit (dx_duplex dx room) x = [] \<and> \<not> shut (dx_duplex dx room) x)
   \<and> (\<forall>x n d r d'. dx_poll_read dx x n d = (r, d') \<longrightarrow> shut d' = shut d
        \<and> (case r of
             Ready (Ok buf) \<Rightarrow> transit d (other x) = buf @ transit d' (other x) \<and> transit d' x = transit d x \<and> length buf \<le> n
               \<and> (buf = [] \<and> 0 < n \<longrightarrow> transit d (other x) = [] \<and> shut d (other x))
           | _ \<Rightarrow> transit d' = transit d))
   \<and> (\<forall>x buf d r d'. dx_poll_write dx x buf d = (r, d') \<longrightarrow> shut d' = shut d
        \<and> (case r of
             Ready (Ok n) \<Rightarrow> transit d' x = transit d x @ take n buf \<and> transit d' (other x) = transit d (other x)
               \<and> (n = 0 \<or> length (transit d' x) \<le> room)
           | _ \<Rightarrow> transit d' = transit d))
   \<and> (\<forall>x d. transit (snd (dx_poll_flush dx x d)) = transit d \<and> shut (snd (dx_poll_flush dx x d)) = shut d)
   \<and> (\<forall>x d. transit (snd (dx_poll_shutdown dx x d)) = transit d
        \<and> (\<forall>y. shut (snd (dx_poll_shutdown dx x d)) y \<longrightarrow> y = x \<or> shut d y))
   \<and> (\<forall>x d. transit (dx_drop dx x d) = transit d \<and> (\<forall>y. shut (dx_drop dx x d) y \<longrightarrow> y = x \<or> shut d y))"

lemma duplex_lawsD:
  assumes "duplex_laws dx room transit shut"
  shows "transit (dx_duplex dx room) x = []" "\<not> shut (dx_duplex dx room) x"
    and "dx_poll_read dx x n d = (Ready (Ok buf), d') \<Longrightarrow> transit d (other x) = buf @ transit d' (other x) \<and> transit d' x = transit d x
      \<and> length buf \<le> n \<and> shut d' = shut d \<and> (buf = [] \<and> 0 < n \<longrightarrow> transit d (other x) = [] \<and> shut d (other x))"
    and "dx_poll_read dx x n d = (r, d') \<Longrightarrow> (\<And>buf. r \<noteq> Ready (Ok buf)) \<Longrightarrow> transit d' = transit d \<and> shut d' = shut d"
    and "dx_poll_write dx x buf d = (Ready (Ok k), d') \<Longrightarrow> transit d' x = transit d x @ take k buf
      \<and> transit d' (other x) = transit d (other x) \<and> shut d' = shut d \<and> (k = 0 \<or> length (transit d' x) \<le> room)"
    and "dx_poll_write dx x buf d = (w, d') \<Longrightarrow> (\<And>n. w \<noteq> Ready (Ok n)) \<Longrightarrow> transit d' = transit d \<and> shut d' = shut d"
    and "transit (snd (dx_poll_flush dx x d)) = transit d" "shut (snd (dx_poll_flush dx x d)) = shut d"
    and "transit (snd (dx_poll_shutdown dx x d)) = transit d" "shut (snd (dx_poll_shutdown dx x d)) y \<Longrightarrow> y = x \<or> shut d y"
    and "transit (dx_drop dx x d) = transit d" "shut (dx_drop dx x d) y \<Longrightarrow> y = x \<or> shut d y"
proof -
  have rd: "dx_poll_read dx x n d = (r, d') \<Longrightarrow> shut d' = shut d
        \<and> (case r of
             Ready (Ok buf) \<Rightarrow> transit d (other x) = buf @ transit d' (other x) \<and> transit d' x = transit d x \<and> length buf \<le> n
               \<and> (buf = [] \<and> 0 < n \<longrightarrow> transit d (other x) = [] \<and> shut d (other x))
           | _ \<Rightarrow> transit d' = transit d)" for r
    using assms unfolding duplex_laws_def by blast
  have wr: "dx_poll_write dx x buf d = (r, d') \<Longrightarrow> shut d' = shut d
        \<and> (case r of
             Ready (Ok n) \<Rightarrow> transit d' x = transit d x @ take n buf \<and> transit d' (other x) = transit d (other x)
               \<and> (n = 0 \<or> length (transit d' x) \<le> room)
           | _ \<Rightarrow> transit d' = transit d)" for r
    using assms unfolding duplex_laws_def by blast
  show "transit d (other x) = buf @ transit d' (other x) \<and> transit d' x = transit d x
      \<and> length buf \<le> n \<and> shut d' = shut d \<and> (buf = [] \<and> 0 < n \<longrightarrow> transit d (other x) = [] \<and> shut d (other x))"
    if "dx_poll_read dx x n d = (Ready (Ok buf), d')" using rd [OF that] unfolding poll.case result.case by blast
  show "transit d' = transit d \<and> shut d' = shut d" if "dx_poll_read dx x n d = (r, d')" "\<And>buf. r \<noteq> Ready (Ok buf)"
    using rd [OF that(1)] that(2) by (auto split: poll.splits result.splits)
  show "transit d' x = transit d x @ take k buf
      \<and> transit d' (other x) = transit d (other x) \<and> shut d' = shut d \<and> (k = 0 \<or> length (transit d' x) \<le> room)"
    if "dx_poll_write dx x buf d = (Ready (Ok k), d')" using wr [OF that] unfolding poll.case result.case by blast
  show "transit d' = transit d \<and> shut d' = shut d" if "dx_poll_write dx x buf d = (w, d')" "\<And>n. w \<noteq> Ready (Ok n)"
    using wr [OF that(1)] that(2) by (auto split: poll.splits result.splits)
qed (use assms in \<open>unfold duplex_laws_def, blast\<close>)+

subsection \<open>The stream as a run of the bridge\<close>

text \<open>What an event of the bridge hands to the peer.\<close>

definition handed :: "bridge_event \<Rightarrow> 'w bridge \<Rightarrow> bytes" where
  "handed ev b = (case ev of PeerWrote n \<Rightarrow> (case bd_ws b of WsPeerWriting to_peer _ _ _ \<Rightarrow> take n to_peer | _ \<Rightarrow> []) | _ \<Rightarrow> [])"

lemma flush_peer_written [simp]: "bd_peer_written (snd (flush_section lib f b)) = bd_peer_written b"
  by (simp add: flush_section_def Let_def case_prod_beta)

lemma finish_peer_written [simp]:
  "bd_peer_written (finish r b) = bd_peer_written b" "bd_peer_written (lock_write d out b) = bd_peer_written b"
  "bd_peer_written (ws_after_reply closed pc b) = bd_peer_written b" "bd_peer_written (ka_await ka b) = bd_peer_written b"
  by (simp_all add: finish_def lock_write_def ws_after_reply_def ka_await_def)

lemma after_write_peer_written [simp]: "bd_peer_written (ws_after_write cfg out closed events b) = bd_peer_written b"
proof -
  have "bd_peer_written (snd (handle_events cfg evs pc b)) = bd_peer_written b" for evs pc
    by (induction cfg evs pc b rule: handle_events.induct) simp_all
  then show ?thesis by (simp add: ws_after_write_def case_prod_beta)
qed

lemma sections_peer_written [simp]:
  "bd_peer_written (ws_read lib cfg buf b) = bd_peer_written b" "bd_peer_written (ws_write_failed lib cfg b) = bd_peer_written b"
  "bd_peer_written (peer_read lib buf b) = bd_peer_written b" "bd_peer_written (peer_ended lib cf b) = bd_peer_written b"
  "bd_peer_written (control_poll lib b) = bd_peer_written b" "bd_peer_written (ka_poll lib ka b) = bd_peer_written b"
  "bd_peer_written (lock_done cfg d b) = bd_peer_written b"
  by (simp_all add: ws_read_def ws_write_failed_def peer_read_def peer_ended_def control_poll_def ka_poll_def ka_check_def ka_expired_def
      lock_done_def Let_def case_prod_beta
      split: list.split keepalive_phase.split direction.split ws_phase.split peer_phase.split option.split)

lemma event_peer_written: "bd_peer_written (bridge_event_step lib cfg ev b) = bd_peer_written b @ handed ev b"
  by (cases ev) (auto simp: bridge_event_step_def handed_def ws_control_send_def Let_def
      split: ws_phase.split list.split option.split)

lemma bridge_steps_snoc: "bridge_steps lib cfg (evs @ [ev]) b = bridge_step lib cfg ev (bridge_steps lib cfg evs b)"
  by (induction evs arbitrary: b) simp_all

lemma peer_sent_snoc: "peer_sent lib cfg (evs @ [ev]) b = peer_sent lib cfg evs b @ taken ev (bridge_steps lib cfg evs b)"
  by (induction evs arbitrary: b) simp_all

definition stream_ok ::
  "('d \<Rightarrow> side \<Rightarrow> bytes) \<Rightarrow> ('d \<Rightarrow> side \<Rightarrow> bool) \<Rightarrow> 'w wslay_lib \<Rightarrow> bridge_config \<Rightarrow> ('d, 'w) ws_byte_stream \<Rightarrow> bool" where
  "stream_ok transit shut lib config s \<longleftrightarrow>
     (\<forall>x. length (transit (bs_inner s) x) \<le> DUPLEX_BUF) \<and> (shut (bs_inner s) AppSide \<longrightarrow> bs_app_shut s)
   \<and> (case bs_bridge s of
        Ok b \<Rightarrow> bs_app_read s @ transit (bs_inner s) WsSide = bd_peer_written b
          \<and> (\<exists>now b0 evs. bridge_start lib config now = Ok b0 \<and> b = bridge_steps lib config evs b0
               \<and> bs_app_written s = peer_sent lib config evs b0 @ transit (bs_inner s) AppSide)
      | _ \<Rightarrow> bs_app_read s = [] \<and> transit (bs_inner s) WsSide = [])"

text \<open>A poll of the duplex moves exactly the bytes that the event of the bridge takes or hands over.\<close>

lemma peer_polled_moves:
  assumes laws: "duplex_laws dx room transit shut" and "bd_end b = None" "peer_polled dx p b d = (ev, d')"
    and "\<forall>x. length (transit d x) \<le> room"
  shows "transit d AppSide = (case ev of Some ev \<Rightarrow> taken ev b | None \<Rightarrow> []) @ transit d' AppSide
    \<and> transit d' WsSide = transit d WsSide @ (case ev of Some ev \<Rightarrow> handed ev b | None \<Rightarrow> [])
    \<and> (\<forall>x. length (transit d' x) \<le> room) \<and> (shut d' AppSide \<longrightarrow> shut d AppSide)"
proof (cases p)
  case PollRead
  obtain r d1 where r: "dx_poll_read dx WsSide READ_CHUNK d = (r, d1)" by force
  show ?thesis
  proof (cases "bd_peer b = PeerReading \<and> (\<exists>buf. r = Ready (Ok buf))")
    case True
    then obtain buf where buf: "r = Ready (Ok buf)" "bd_peer b = PeerReading" by blast
    note l = duplex_lawsD(3) [OF laws r [unfolded buf(1)]]
    have "length (transit d1 x) \<le> room" for x using assms(4)[rule_format, of x] l by (cases x) simp_all
    then show ?thesis using assms(2,3) r buf PollRead l by (auto simp: taken_def handed_def)
  next
    case False
    then have "transit d' = transit d \<and> shut d' = shut d \<and> (ev = None \<or> ev = Some PeerReadError)"
      using assms(3) r PollRead duplex_lawsD(4) [OF laws r] by (auto split: if_splits poll.splits result.splits)
    then show ?thesis using assms(4) by (auto simp: taken_def handed_def)
  qed
next
  case PollWrite
  show ?thesis
  proof (cases "\<exists>to_peer out closed events. bd_ws b = WsPeerWriting to_peer out closed events")
    case True
    then obtain to_peer out closed events where ws: "bd_ws b = WsPeerWriting to_peer out closed events" by blast
    obtain r d1 where r: "dx_poll_write dx WsSide to_peer d = (r, d1)" by force
    show ?thesis
    proof (cases "\<exists>n. r = Ready (Ok n)")
      case True
      then obtain n where n: "r = Ready (Ok n)" by blast
      note l = duplex_lawsD(5) [OF laws r [unfolded n]]
      have "length (transit d1 x) \<le> room" for x using assms(4)[rule_format, of x] l by (cases x) auto
      then show ?thesis using assms(3) r n ws PollWrite l by (auto simp: taken_def handed_def)
    next
      case False
      then have "transit d' = transit d \<and> shut d' = shut d \<and> (ev = None \<or> ev = Some PeerWriteError)"
        using assms(3) r ws PollWrite duplex_lawsD(6) [OF laws r] by (auto split: poll.splits result.splits)
      then show ?thesis using assms(4) by (auto simp: taken_def handed_def)
    qed
  qed (use assms(3,4) PollWrite in \<open>auto split: ws_phase.splits\<close>)
next
  case PollShutdown
  have "transit d' = transit d" "shut d' AppSide \<Longrightarrow> shut d AppSide" "ev = None \<or> ev = Some ShutdownDone"
    using assms(3) PollShutdown duplex_lawsD(9) [OF laws, of WsSide d] duplex_lawsD(10) [OF laws, of WsSide d AppSide]
    by (auto split: ws_phase.splits prod.splits poll.splits)
  then show ?thesis using assms(4) by (auto simp: taken_def handed_def)
next
  case (Own e)
  then have "ev = None \<or> ev = Some e \<and> \<not> peer_event e" "d' = d" using assms(3) by (auto split: if_splits)
  then show ?thesis using assms(4) by (cases e) (auto simp: taken_def handed_def)
qed

lemma task_step_ok:
  assumes laws: "duplex_laws dx DUPLEX_BUF transit shut" and ok: "stream_ok transit shut lib config s"
  shows "stream_ok transit shut lib config (task_step dx lib config p s)"
proof (cases "\<exists>b. bs_bridge s = Ok b \<and> bd_end b = None")
  case True
  then obtain b where b: "bs_bridge s = Ok b" "bd_end b = None" by blast
  obtain now b0 evs where run: "bridge_start lib config now = Ok b0" "b = bridge_steps lib config evs b0"
      "bs_app_written s = peer_sent lib config evs b0 @ transit (bs_inner s) AppSide"
    and inv: "bs_app_read s @ transit (bs_inner s) WsSide = bd_peer_written b"
      "\<forall>x. length (transit (bs_inner s) x) \<le> DUPLEX_BUF" "shut (bs_inner s) AppSide \<longrightarrow> bs_app_shut s"
    using ok by (auto simp: stream_ok_def b)
  obtain ev d where ev: "peer_polled dx p b (bs_inner s) = (ev, d)" by force
  note moves = peer_polled_moves [OF laws b(2) ev inv(2)]
  show ?thesis
  proof (cases ev)
    case None
    then show ?thesis using ok moves by (simp add: stream_ok_def task_step_def b ev)
  next
    case (Some e)
    define b' where "b' = bridge_step lib config e b"
    define d' where "d' = (if bd_end b' = None then d else dx_drop dx WsSide d)"
    have d': "transit d' = transit d" "shut d' AppSide \<Longrightarrow> shut d AppSide"
      using duplex_lawsD(11,12) [OF laws, of WsSide d] by (auto simp: d'_def split: if_splits)
    have "b' = bridge_steps lib config (evs @ [e]) b0" by (simp only: b'_def bridge_steps_snoc run(2))
    moreover have "bs_app_written s = peer_sent lib config (evs @ [e]) b0 @ transit d' AppSide"
      using run(2,3) moves d'(1) Some by (simp add: peer_sent_snoc)
    moreover have "bd_peer_written b' = bs_app_read s @ transit d' WsSide"
      using moves d'(1) Some inv(1) b(2) event_peer_written [of lib config e b] by (simp add: b'_def bridge_step_def)
    moreover have "task_step dx lib config p s = s\<lparr>bs_inner := d', bs_bridge := Ok b'\<rparr>"
      by (simp add: task_step_def b ev Some Let_def b'_def d'_def)
    ultimately show ?thesis using run(1) moves inv(3) d' by (auto simp: stream_ok_def)
  qed
next
  case False
  then have "task_step dx lib config p s = s" by (auto simp: task_step_def split: result.split)
  then show ?thesis using ok by simp
qed

lemma app_io_ok:
  assumes laws: "duplex_laws dx DUPLEX_BUF transit shut" and ok: "stream_ok transit shut lib config s"
  shows "stream_ok transit shut lib config (snd (poll_read dx n s))"
    and "stream_ok transit shut lib config (snd (poll_write dx buf s))"
proof -
  obtain r d where r: "dx_poll_read dx AppSide n (bs_inner s) = (r, d)" by force
  show "stream_ok transit shut lib config (snd (poll_read dx n s))"
  proof (cases "\<exists>bytes. r = Ready (Ok bytes)")
    case True
    then obtain bytes where b: "r = Ready (Ok bytes)" by blast
    note l = duplex_lawsD(3) [OF laws r [unfolded b], simplified]
    have old: "length (transit (bs_inner s) x) \<le> DUPLEX_BUF" for x using ok by (simp add: stream_ok_def)
    have "length (transit d x) \<le> DUPLEX_BUF" for x using l old [of x] by (cases x) auto
    then show ?thesis using ok l by (auto simp: stream_ok_def poll_read_def r b split: result.splits)
  next
    case False
    then have "transit d = transit (bs_inner s)" "shut d = shut (bs_inner s)" "(case r of Ready (Ok bytes) \<Rightarrow> bytes | _ \<Rightarrow> []) = []"
      using duplex_lawsD(4) [OF laws r] by (auto split: poll.split result.split)
    then show ?thesis using ok by (cases "bs_bridge s") (simp_all add: stream_ok_def poll_read_def r)
  qed
next
  obtain r d where r: "dx_poll_write dx AppSide buf (bs_inner s) = (r, d)" by force
  show "stream_ok transit shut lib config (snd (poll_write dx buf s))"
  proof (cases "\<exists>n. r = Ready (Ok n)")
    case True
    then obtain k where k: "r = Ready (Ok k)" by blast
    note l = duplex_lawsD(5) [OF laws r [unfolded k], simplified]
    have old: "length (transit (bs_inner s) x) \<le> DUPLEX_BUF" for x using ok by (simp add: stream_ok_def)
    have "length (transit d x) \<le> DUPLEX_BUF" for x using l old [of x] by (cases x) auto
    then show ?thesis using ok l by (auto simp: stream_ok_def poll_write_def r k split: result.splits)
  next
    case False
    then have "transit d = transit (bs_inner s)" "shut d = shut (bs_inner s)" "(case r of Ready (Ok n) \<Rightarrow> take n buf | _ \<Rightarrow> []) = []"
      using duplex_lawsD(6) [OF laws r] by (auto split: poll.split result.split)
    then show ?thesis using ok by (cases "bs_bridge s") (simp_all add: stream_ok_def poll_write_def r)
  qed
qed

lemma stream_step_ok:
  assumes laws: "duplex_laws dx DUPLEX_BUF transit shut" and ok: "stream_ok transit shut lib config s"
  shows "stream_ok transit shut lib config (stream_step dx lib config ev s)"
proof (cases ev)
  case (Task p)
  then show ?thesis using task_step_ok [OF assms] by (simp add: stream_step_def)
next
  case AppFlush
  then show ?thesis using ok duplex_lawsD(7,8) [OF laws, of AppSide "bs_inner s"]
    by (cases "bs_bridge s") (simp_all add: stream_step_def poll_flush_def case_prod_beta stream_ok_def)
next
  case AppShutdown
  then show ?thesis using ok duplex_lawsD(9) [OF laws, of AppSide "bs_inner s"]
    by (cases "bs_bridge s") (simp_all add: stream_step_def poll_shutdown_def case_prod_beta stream_ok_def)
next
  case AppDrop
  then show ?thesis using ok duplex_lawsD(11) [OF laws, of AppSide "bs_inner s"]
    by (cases "bs_bridge s") (simp_all add: stream_step_def stream_drop_def stream_ok_def)
qed (use app_io_ok [OF assms] ok in \<open>simp_all add: stream_step_def\<close>)

lemma with_config_ok:
  assumes laws: "duplex_laws dx DUPLEX_BUF transit shut"
  shows "stream_ok transit shut lib config (with_config dx lib config now)"
proof (cases "bridge_start lib config now")
  case (Ok b)
  then have "bd_peer_written b = []" by (auto simp: bridge_start_def split: option.splits)
  moreover have "bridge_start lib config now = Ok b \<and> b = bridge_steps lib config [] b" using Ok by simp
  ultimately show ?thesis using duplex_lawsD(1,2) [OF laws]
    by (simp add: stream_ok_def with_config_def Let_def Ok) (metis Ok peer_sent.simps(1) bridge_steps.simps(1))
qed (use duplex_lawsD(1,2,11) [OF laws] duplex_lawsD(12) [OF laws, of WsSide "dx_duplex dx DUPLEX_BUF" AppSide] in
  \<open>auto simp: stream_ok_def with_config_def Let_def\<close>)

lemma stream_run_ok:
  assumes "duplex_laws dx DUPLEX_BUF transit shut"
  shows "stream_run dx lib config evs s \<Longrightarrow> stream_ok transit shut lib config s"
  by (induction rule: stream_run.induct) (auto intro: with_config_ok stream_step_ok assms)

lemma app_reads_payload:
  assumes duplex: "duplex_laws dx DUPLEX_BUF transit shut" and run: "stream_run dx lib config evs s" and b: "bs_bridge s = Ok b"
  shows "prefix (bs_app_read s) (payload_of (sh_log (bd_shared b)))"
proof -
  obtain now b0 bevs where start: "bridge_start lib config now = Ok b0" "b = bridge_steps lib config bevs b0"
      and r: "bd_peer_written b = bs_app_read s @ transit (bs_inner s) WsSide"
    using stream_run_ok [OF duplex run] by (auto simp: stream_ok_def b)
  have "bridge_ok b"
    using bridge_run_ok [OF bridge_run_steps [OF bridge_run_start [OF start(1)], of bevs]] by (simp add: start(2))
  then have "prefix (bd_peer_written b) (payload_of (sh_log (bd_shared b)))" by (auto simp: bridge_ok_def clean_def delivers_def)
  then show ?thesis using append_prefixD [of "bs_app_read s" "transit (bs_inner s) WsSide"] unfolding r by blast
qed


text \<open>An instance of the duplex: two bounded queues.\<close>

record pipes =
  pi_data :: "side \<Rightarrow> bytes"
  pi_shut :: "side \<Rightarrow> bool"

definition shut_pipe :: "side \<Rightarrow> pipes \<Rightarrow> pipes" where
  "shut_pipe x p = p\<lparr>pi_shut := (pi_shut p)(x := True)\<rparr>"

definition pipe_read :: "side \<Rightarrow> nat \<Rightarrow> pipes \<Rightarrow> (string, bytes) result poll \<times> pipes" where
  "pipe_read x n p =
     (let data = pi_data p (other x) in
      if data \<noteq> [] then (Ready (Ok (take n data)), p\<lparr>pi_data := (pi_data p)(other x := drop n data)\<rparr>)
      else if pi_shut p (other x) then (Ready (Ok []), p) else (Pending, p))"

definition pipe_write :: "side \<Rightarrow> bytes \<Rightarrow> pipes \<Rightarrow> (string, nat) result poll \<times> pipes" where
  "pipe_write x buf p =
     (let n = min (length buf) (DUPLEX_BUF - length (pi_data p x)) in
      if pi_shut p x \<or> pi_shut p (other x) then (Ready (Err ''broken pipe''), p)
      else if n = 0 then (Pending, p)
      else (Ready (Ok n), p\<lparr>pi_data := (pi_data p)(x := pi_data p x @ take n buf)\<rparr>))"

definition pipe_lib :: "pipes duplex_lib" where
  "pipe_lib = \<lparr>dx_duplex = (\<lambda>room. \<lparr>pi_data = (\<lambda>x. []), pi_shut = (\<lambda>x. False)\<rparr>),
     dx_poll_read = pipe_read, dx_poll_write = pipe_write, dx_poll_flush = (\<lambda>x p. (Ready (Ok ()), p)),
     dx_poll_shutdown = (\<lambda>x p. (Ready (Ok ()), shut_pipe x p)), dx_drop = shut_pipe\<rparr>"

lemma other_neq [simp]: "other x \<noteq> x" "x \<noteq> other x" by (cases x; simp)+

lemma pipe_laws: "duplex_laws pipe_lib DUPLEX_BUF pi_data pi_shut"
  unfolding duplex_laws_def
proof (intro conjI allI impI, goal_cases)
  case (3 x n d r d')
  then show ?case by (auto simp: pipe_lib_def pipe_read_def Let_def split: if_splits)
next
  case (4 x n d r d')
  then show ?case by (auto simp: pipe_lib_def pipe_read_def Let_def fun_eq_iff split: if_splits)
next
  case (5 x buf d r d')
  then show ?case by (auto simp: pipe_lib_def pipe_write_def Let_def split: if_splits)
next
  case (6 x buf d r d')
  then show ?case by (auto simp: pipe_lib_def pipe_write_def Let_def split: if_splits)
qed (auto simp: pipe_lib_def shut_pipe_def split: if_splits)

definition piped :: "stream_event list \<Rightarrow> (pipes, (u8 \<times> bytes) list \<times> bool) ws_byte_stream" where
  "piped evs = foldl (\<lambda>s ev. stream_step pipe_lib framing_wslay bridge_config_default ev s)
     (with_config pipe_lib framing_wslay bridge_config_default 0) evs"

lemma piped_run: "stream_run pipe_lib framing_wslay bridge_config_default evs (piped evs)"
  by (induction evs rule: rev_induct) (auto simp: piped_def intro: stream_run.intros)

text \<open>A chunk of the application, relayed in one piece.\<close>

definition relayed :: "bytes \<Rightarrow> (pipes, (u8 \<times> bytes) list \<times> bool) ws_byte_stream" where
  "relayed buf = \<lparr>bs_inner = \<lparr>pi_data = (\<lambda>x. []), pi_shut = (\<lambda>x. False)\<rparr>,
     bs_bridge = Ok (framing_bridge\<lparr>bd_ws_written := escaped_frame 2 buf\<rparr>), bs_app_read = [], bs_app_written = buf,
     bs_app_shut = False, bs_app_dropped = False\<rparr>"

lemma piped_relayed:
  assumes "buf \<noteq> []" "length buf \<le> READ_CHUNK"
  shows "piped [AppWrite buf, Task PollRead, Task (Own (WsWrote (2 * length buf + 2)))] = relayed buf"
proof -
  let ?step = "stream_step pipe_lib framing_wslay bridge_config_default"
  define s1 where "s1 = (relayed buf)\<lparr>bs_inner := \<lparr>pi_data = (\<lambda>x. [])(AppSide := buf), pi_shut = (\<lambda>x. False)\<rparr>, bs_bridge := Ok framing_bridge\<rparr>"
  define s2 where "s2 = (relayed buf)\<lparr>bs_bridge := Ok (framing_bridge\<lparr>bd_peer := PeerSending, bd_lock := [(PeerToWs, escaped_frame 2 buf)]\<rparr>)\<rparr>"
  have "min (length buf) DUPLEX_BUF = length buf" using assms(2) by (simp add: READ_CHUNK_def DUPLEX_BUF_def)
  moreover have "DUPLEX_BUF \<noteq> 0" by (simp add: DUPLEX_BUF_def)
  ultimately have 1: "?step (AppWrite buf) (with_config pipe_lib framing_wslay bridge_config_default 0) = s1"
    using assms(1) by (simp add: s1_def relayed_def with_config_def framing_start stream_step_def poll_write_def pipe_lib_def pipe_write_def Let_def)
  have fb: "bd_end framing_bridge = None" "bd_peer framing_bridge = PeerReading" by (simp_all add: framing_bridge_def)
  have "(\<lambda>x. [])(AppSide := buf, AppSide := []) = (\<lambda>x. [] :: bytes)" by auto
  then have 2: "?step (Task PollRead) s1 = s2"
    using assms by (simp add: s1_def s2_def relayed_def stream_step_def task_step_def fb pipe_lib_def pipe_read_def Let_def framing_sections(1))
  have "?step (Task (Own (WsWrote (2 * length buf + 2)))) s2 = relayed buf"
    using framing_sections(2) [OF assms] by (simp add: s2_def relayed_def stream_step_def task_step_def fb Let_def)
  with 1 2 show ?thesis by (simp add: piped_def)
qed


subsection \<open>Serving HTTP/2 on the stream\<close>

text \<open>
  \<open>serve_h2_with_config\<close>: hyper's connection owns the stream, reads and writes it while it runs, and drops it when it is done; the
  idle timer of \<open>Serve\<close> runs beside it.
\<close>

record ('d, 'w) h2_server =
  hs_serve :: server
  hs_io :: "('d, 'w) ws_byte_stream"

definition serve_h2_with_config ::
  "'d duplex_lib \<Rightarrow> 'w wslay_lib \<Rightarrow> serve_config \<Rightarrow> instant \<Rightarrow> ('d, 'w) h2_server" where
  "serve_h2_with_config dx lib config now =
     \<lparr>hs_serve = serve_start, hs_io = with_config dx lib (sv_bridge config) now\<rparr>"

datatype h2_event = HsServe serve_event | HsIo stream_event

fun is_served :: "serve_phase \<Rightarrow> bool" where
  "is_served (Served _) = True"
| "is_served _ = False"

definition h2_step ::
  "'d duplex_lib \<Rightarrow> 'w wslay_lib \<Rightarrow> serve_config \<Rightarrow> h2_event \<Rightarrow> ('d, 'w) h2_server \<Rightarrow> ('d, 'w) h2_server" where
  "h2_step dx lib config ev h =
     (case ev of
        HsServe e \<Rightarrow>
          let sr = serve_step config e (hs_serve h) in
          h\<lparr>hs_serve := sr, hs_io := (if is_served (sr_phase sr) then stream_step dx lib (sv_bridge config) AppDrop (hs_io h) else hs_io h)\<rparr>
      | HsIo e \<Rightarrow> if e = AppDrop then h else h\<lparr>hs_io := stream_step dx lib (sv_bridge config) e (hs_io h)\<rparr>)"

inductive h2_run ::
  "'d duplex_lib \<Rightarrow> 'w wslay_lib \<Rightarrow> serve_config \<Rightarrow> h2_event list \<Rightarrow> ('d, 'w) h2_server \<Rightarrow> bool" for dx lib config where
  h2_run_start: "h2_run dx lib config [] (serve_h2_with_config dx lib config now)"
| h2_run_step: "h2_run dx lib config evs h \<Longrightarrow> h2_run dx lib config (evs @ [ev]) (h2_step dx lib config ev h)"

text \<open>A run of the server is a run of the timer and a run of the stream.\<close>

lemma h2_run_parts:
  "h2_run dx lib config evs h \<Longrightarrow>
   (\<exists>sevs. serve_run config sevs (hs_serve h)) \<and> (\<exists>ievs. stream_run dx lib (sv_bridge config) ievs (hs_io h))"
proof (induction rule: h2_run.induct)
  case (h2_run_start now)
  then show ?case by (auto simp: serve_h2_with_config_def intro: serve_run_start stream_run_start)
next
  case (h2_run_step evs h ev)
  then show ?case by (auto simp: h2_step_def Let_def split: h2_event.split intro: serve_run_step stream_run_step)
qed



end
