(* ===== verification/Lifecycle.thy ===== *)
theory Lifecycle
  imports Silence
begin

text \<open>
  The life of a stream.  The connection keeps two flags per stream and a counter; the protocol
  (RFC 7540, section 5.1) describes a stream by its phase.  The phases of \<open>phase\<close> abstract the state of the
  connection, and every event of the driver moves each stream along the edges of the protocol's diagram.
\<close>

subsection \<open>The protocol's state machine\<close>

datatype stream_phase = PhIdle | PhOpen | PhHalfLocal | PhHalfRemote | PhClosed

text \<open>The edges for a stream that the client opens; a client that accepts no push has no reserved streams.\<close>

inductive rfc_step :: "stream_phase \<Rightarrow> stream_phase \<Rightarrow> bool" where
  send_headers_open: "rfc_step PhIdle PhOpen"
| send_headers_end: "rfc_step PhIdle PhHalfLocal"
| send_end: "rfc_step PhOpen PhHalfLocal"
| recv_end: "rfc_step PhOpen PhHalfRemote"
| half_local_end: "rfc_step PhHalfLocal PhClosed"
| half_remote_end: "rfc_step PhHalfRemote PhClosed"
| reset_open: "rfc_step PhOpen PhClosed"

inductive_cases rfc_closedE [elim!]: "rfc_step PhClosed p"
inductive_cases rfc_to_idleE [elim!]: "rfc_step p PhIdle"

text \<open>A closed stream is closed for good, and no stream becomes idle again.\<close>

lemma rfc_closed_final: "rfc_step\<^sup>*\<^sup>* PhClosed p \<Longrightarrow> p = PhClosed"
  by (induction rule: rtranclp_induct) auto

lemma rfc_idle_initial: "rfc_step\<^sup>*\<^sup>* p PhIdle \<Longrightarrow> p = PhIdle"
  by (induction rule: converse_rtranclp_induct) auto

subsection \<open>The phase of a stream\<close>

definition phase :: "u32 \<Rightarrow> conn \<Rightarrow> stream_phase" where
  "phase sid c =
     (case get_stream sid c of
        Some s \<Rightarrow>
          if ss_local_closed s then (if ss_remote_closed s then PhClosed else PhHalfLocal)
          else (if ss_remote_closed s then PhHalfRemote else PhOpen)
      | None \<Rightarrow> if sid < cn_next_stream_id c then PhClosed else PhIdle)"

text \<open>A step that opens no stream: streams may go, and their flags are only ever set.\<close>

definition ages :: "conn \<Rightarrow> conn \<Rightarrow> bool" where
  "ages c c' \<longleftrightarrow> cn_next_stream_id c' = cn_next_stream_id c
     \<and> (\<forall>sid s'. get_stream sid c' = Some s' \<longrightarrow> (\<exists>s. get_stream sid c = Some s
          \<and> (ss_local_closed s \<longrightarrow> ss_local_closed s') \<and> (ss_remote_closed s \<longrightarrow> ss_remote_closed s')))"

lemma ages_same: "cn_next_stream_id c' = cn_next_stream_id c \<Longrightarrow> cn_streams c' = cn_streams c \<Longrightarrow> ages c c'"
  by (simp add: ages_def get_stream_def)

lemma ages_refl [simp]: "ages c c"
  by (simp add: ages_same)

lemma ages_trans: "ages c c' \<Longrightarrow> ages c' c'' \<Longrightarrow> ages c c''"
  unfolding ages_def by metis

text \<open>A method that clears no flag.\<close>

definition sets_flags :: "stream_method \<Rightarrow> bool" where
  "sets_flags f \<longleftrightarrow> (\<forall>s cl. (ss_local_closed s \<longrightarrow> ss_local_closed (fst (f s cl))) \<and> (ss_remote_closed s \<longrightarrow> ss_remote_closed (fst (f s cl))))"

lemma ages_with_stream: "sets_flags f \<Longrightarrow> ages c (with_stream sid f c)"
  by (auto simp: ages_def sets_flags_def with_stream_def get_stream_def put_stream_def update_conv case_prod_beta
      split: option.splits if_splits)

lemma get_take_stream: "get_stream sid (take_stream sid' f c) = (if sid = sid' then None else get_stream sid c)"
proof -
  have "map_of (filter (\<lambda>x. sid' \<noteq> fst x) xs) sid = (if sid = sid' then None else map_of xs sid)" for xs :: "(u32 \<times> stream_state) list"
    by (induction xs) auto
  then show ?thesis by (simp add: get_stream_def take_stream_streams)
qed

lemma ages_take_stream [simp]: "ages c (take_stream sid f c)"
  by (simp add: ages_def get_take_stream)

lemma sets_flags_methods [simp]:
  "sets_flags (receive_headers hs es)" "sets_flags (update_stream_window n)" "sets_flags (receive_data d es)"
  "sets_flags (consume_stream n)" "sets_flags (\<lambda>s cl. (s\<lparr>ss_remote_closed := True\<rparr>, cl, []))"
  "sets_flags (\<lambda>s cl. (s\<lparr>ss_local_closed := True\<rparr>, cl, []))"
  by (auto simp: sets_flags_def receive_headers_def update_stream_window_def receive_data_def consume_stream_def send_head_def
      end_body_def Let_def case_prod_beta)

lemma ages_basic [simp]:
  "ages c (send_frame f c)" "ages c (wake_slot_waiters c)" "ages c (wake ts c)" "ages c (set_cell a cl c)"
  "ages c (replenish_recv_window sid n c)" "ages c (set_remote_closed sid c)"
  by (simp_all add: ages_same set_remote_closed_def ages_with_stream)

lemma ages_reset [simp]: "ages c (reset_stream sid code c)"
  unfolding reset_stream_def by (rule ages_trans [OF ages_trans [OF ages_basic(1) ages_take_stream] ages_basic(2)])

lemma ages_retire [simp]: "ages c (retire_if_fully_closed sid c)"
  using ages_trans [OF ages_take_stream ages_basic(2)] by (simp add: retire_if_fully_closed_def split: option.split)

lemma ages_fail_streams [simp]: "ages c (fail_streams sids err c)"
  by (induction sids err c rule: fail_streams.induct) (auto intro: ages_trans [OF ages_take_stream])

lemma ages_destroy [simp]: "ages c (destroy err c)"
proof -
  let ?c = "close_conn_window (c\<lparr>cn_closed := True, cn_close_error := Some err\<rparr>)"
  have "ages c ?c" by (rule ages_same) simp_all
  from ages_trans [OF this ages_fail_streams] have "ages c (fail_streams (map fst (cn_streams ?c)) err ?c)" .
  then show ?thesis by (simp add: destroy_def Let_def ages_def get_stream_def)
qed

lemma ages_data [simp]: "ages c (on_data sid d es c)"
proof -
  have r: "ages c (with_stream sid (receive_data d es) c)" for es by (simp add: ages_with_stream)
  show ?thesis
    using r ages_trans [OF ages_trans [OF r ages_basic(6)] ages_retire] ages_trans [OF ages_basic(1) ages_retire]
    by (simp add: on_data_def Let_def)
qed

lemma ages_goaway [simp]: "ages c (on_goaway lsid rc c)"
proof -
  have s: "ages c (c\<lparr>cn_goaway_received := True\<rparr>)" by (simp add: ages_same)
  show ?thesis
    using ages_trans [OF s ages_trans [OF ages_fail_streams ages_basic(2)]]
      ages_trans [OF ages_trans [OF s ages_trans [OF ages_fail_streams ages_basic(2)]] ages_destroy]
    by (simp add: on_goaway_def Let_def)
qed

lemma ages_adjust: "ages c (adjust_streams n c)"
proof -
  have "map_of (map (\<lambda>(sid, s). (sid, s\<lparr>ss_send_window := g s\<rparr>)) xs) sid = map_option (\<lambda>s. s\<lparr>ss_send_window := g s\<rparr>) (map_of xs sid)"
    for g and xs :: "(u32 \<times> stream_state) list" and sid
    by (induction xs) auto
  then show ?thesis by (auto simp: ages_def adjust_streams_def get_stream_def wake_def)
qed

lemma ages_settings [simp]: "ages c (snd (apply_remote_settings s c))"
proof -
  have "ages c (snd (apply_initial_window iw c))" for iw c
    using ages_trans [OF ages_same [of "c\<lparr>cn_remote := r\<rparr>" c for r] ages_adjust]
    by (simp add: apply_initial_window_def proto_err_def Let_def split: option.split)
  moreover have "ages c (snd (apply_max_frame_size mf c))" for mf c
    by (simp add: apply_max_frame_size_def proto_err_def ages_same split: option.split)
  moreover have "ages c (apply_other_settings s c)" for c
    by (rule ages_same) (simp_all add: apply_other_settings_def Let_def split: option.split)
  moreover have "ages c (snd (and_then m f))" if "ages c (snd m)" "\<And>c'. ages c' (snd (f c'))" for m f c
    using that by (cases m; cases "fst m") (auto simp: and_then_def intro: ages_trans)
  ultimately show ?thesis unfolding apply_remote_settings_def by simp
qed

interpretation age_steps: conn_steps "\<lambda>_. ages" "\<lambda>_. 0" "\<lambda>_. True"
  by unfold_locales (auto simp: on_rst_stream_def internal_def ages_with_stream intro: ages_trans ages_same)

lemma ages_read_chunk: "ages c (snd (read_chunk W now chunk c))"
  by (rule age_steps.R_read_chunk) (simp add: list_all_iff)

lemma ages_calls [simp]: "ages c (snd (ping now c))" "ages c (close c)" "ages c (body_drop sid cell c)"
proof -
  show "ages c (snd (ping now c))" by (simp add: ping_def Let_def ages_same)
  show "ages c (close c)" using ages_trans [OF ages_basic(1) ages_destroy] by (simp add: close_def)
  show "ages c (body_drop sid cell c)"
    using ages_trans [OF ages_basic(5) ages_reset] by (simp add: body_drop_def Let_def)
qed

lemma ages_body_poll: "body_poll t sid cell c = Ok (res, c') \<Longrightarrow> ages c c'"
  by (auto simp: body_poll_def intro: ages_trans [OF ages_basic(4) ages_basic(5)])

lemma ages_pump: "pump_step t sid p c = (p', parked, c') \<Longrightarrow> ages c c'"
proof -
  have fin: "ages c (pump_finish sid c)"
    using ages_trans [OF ages_trans [OF ages_basic(1) ages_with_stream] ages_retire] by (simp add: pump_finish_def)
  have "ages c (send_frame f (with_stream sid (consume_stream n) (c\<lparr>cn_send_window := w\<rparr>)))" for f n w
    by (rule ages_trans [OF ages_trans [OF ages_same ages_with_stream] ages_basic(1)]) simp_all
  moreover have "ages c (park_pump t sid c)"
    unfolding park_pump_def Let_def
    by (rule ages_trans [OF ages_same ages_with_stream]) (simp_all add: sets_flags_def)
  moreover assume "pump_step t sid p c = (p', parked, c')"
  ultimately show ?thesis
    using fin by (cases "(t, sid, p, c)" rule: pump_step.cases) (auto simp: Let_def split: if_splits option.splits)
qed

subsection \<open>Steps of the driver\<close>

text \<open>The step that opens a stream.\<close>

definition opens :: "conn \<Rightarrow> conn \<Rightarrow> bool" where
  "opens c c' \<longleftrightarrow> cn_next_stream_id c' = cn_next_stream_id c + 2
     \<and> (\<exists>s. get_stream (cn_next_stream_id c) c' = Some s \<and> \<not> ss_remote_closed s)
     \<and> (\<forall>sid. sid \<noteq> cn_next_stream_id c \<longrightarrow> get_stream sid c' = get_stream sid c)"

lemma open_request_opens:
  assumes "refuse_request c = None"
  shows "\<exists>cell c'. open_request up init c = (ReqOpened (cn_next_stream_id c) cell, c') \<and> opens c c'"
proof -
  have get: "get_stream sid (insert_stream n s d) = (if sid = n then Some s else get_stream sid d)" for sid n s and d :: conn
    by (simp add: insert_stream_def get_stream_def put_stream_def update_conv) (simp add: get_take_stream [unfolded get_stream_def])
  have same: "get_stream sid (send_headers n block es d) = get_stream sid d" "get_stream sid (d\<lparr>cn_task_q := q\<rparr>) = get_stream sid d"
      "get_stream sid (d\<lparr>cn_next_stream_id := n, cn_cells := cs\<rparr>) = get_stream sid d" for sid n block es q cs and d :: conn
    by (simp_all add: get_stream_def)
  have nxt: "cn_next_stream_id (insert_stream n s d) = cn_next_stream_id d" for n s and d :: conn by (simp add: insert_stream_def)
  show ?thesis
    using assms by (simp add: open_request_def opens_def Let_def hpack_encode_bytes get same nxt ss_new_def)
qed

lemma request_opens:
  assumes "request up t init c = (out, c')"
  shows "ages c c' \<or> opens c c'"
proof -
  have "ages c (c\<lparr>cn_slot_waiters := ws\<rparr>)" for ws by (simp add: ages_same)
  then show ?thesis
    using assms open_request_opens [of c up init] by (auto simp: request_def split: option.splits if_splits)
qed

lemma sys_step_phases:
  assumes "sys_step W up ev sy = Ok sy'"
  shows "ages (sy_conn sy) (sy_conn sy') \<or> opens (sy_conn sy) (sy_conn sy') \<and> (\<exists>t init. ev = EvRequest t init)"
proof (cases ev)
  case (EvRead now chunk)
  then show ?thesis using assms ages_read_chunk [of "sy_conn sy" W now chunk]
    by (auto split: if_splits prod.splits result.splits)
next
  case (EvRequest t init)
  then show ?thesis using assms request_opens [of up t init "sy_conn sy"] by (auto split: prod.splits request_outcome.splits)
next
  case (EvPump t)
  then show ?thesis using assms ages_pump by (auto split: if_splits prod.splits)
next
  case (EvBodyPoll t i)
  then show ?thesis using assms ages_body_poll by (auto split: if_splits prod.splits result.splits)
next
  case EvWriteFailed
  have "ages c (destroy e (c\<lparr>cn_outq := ms\<rparr>))" for c e ms
    by (rule ages_trans [OF ages_same ages_destroy]) simp_all
  then show ?thesis using assms EvWriteFailed by (auto split: if_splits list.splits)
qed (use assms in \<open>auto intro: ages_same split: if_splits prod.splits poll.splits result.splits list.splits\<close>)

text \<open>Streams are numbered below the counter.\<close>

definition ids_ok :: "conn \<Rightarrow> bool" where
  "ids_ok c \<longleftrightarrow> (\<forall>sid s. get_stream sid c = Some s \<longrightarrow> sid < cn_next_stream_id c)"

lemma ages_phase:
  assumes "ages c c'" "ids_ok c"
  shows "rfc_step\<^sup>*\<^sup>* (phase sid c) (phase sid c')"
proof -
  have open_closed: "rfc_step\<^sup>*\<^sup>* PhOpen PhClosed" "rfc_step\<^sup>*\<^sup>* PhOpen PhHalfLocal" "rfc_step\<^sup>*\<^sup>* PhOpen PhHalfRemote"
      "rfc_step\<^sup>*\<^sup>* PhHalfLocal PhClosed" "rfc_step\<^sup>*\<^sup>* PhHalfRemote PhClosed"
    by (auto intro!: r_into_rtranclp intro: rfc_step.intros)
  show ?thesis
  proof (cases "get_stream sid c")
    case (Some s)
    then have lt: "sid < cn_next_stream_id c'" using assms by (auto simp: ids_ok_def ages_def)
    show ?thesis
    proof (cases "get_stream sid c'")
      case None
      then show ?thesis using Some lt open_closed by (auto simp: phase_def)
    next
      case s': (Some s')
      then have "ss_local_closed s \<longrightarrow> ss_local_closed s'" "ss_remote_closed s \<longrightarrow> ss_remote_closed s'"
        using assms(1) Some unfolding ages_def by fastforce+
      then show ?thesis using Some s' open_closed by (auto simp: phase_def)
    qed
  next
    case None
    then have "get_stream sid c' = None" using assms(1) unfolding ages_def by (metis not_Some_eq option.distinct(1))
    then show ?thesis using None assms(1) by (simp add: phase_def ages_def)
  qed
qed

text \<open>Odd numbers below a counter and below the next one.\<close>

lemma odd_below:
  fixes n sid :: u32
  assumes "n mod 2 = 1" "sid mod 2 = 1" "unat n < 2 ^ 31" "sid \<noteq> n"
  shows "sid < n + 2 \<longleftrightarrow> sid < n"
proof -
  have "unat (n + 2) = unat n + 2" using assms(3) by (simp add: unat_word_ariths)
  moreover have "unat n mod 2 = 1" "unat sid mod 2 = 1" using assms(1,2) by (simp_all add: word_unat_eq_iff unat_mod)
  moreover have "unat sid \<noteq> unat n" using assms(4) by (simp add: word_unat_eq_iff)
  ultimately show ?thesis unfolding word_less_nat_alt by presburger
qed

lemma opens_phase:
  assumes "opens c c'" "ids_ok c" "cn_next_stream_id c mod 2 = 1" "unat (cn_next_stream_id c) < 2 ^ 31" "sid mod 2 = 1"
  shows "rfc_step\<^sup>*\<^sup>* (phase sid c) (phase sid c')"
proof (cases "sid = cn_next_stream_id c")
  case True
  then have "get_stream sid c = None" using assms(2) by (cases "get_stream sid c") (auto simp: ids_ok_def)
  then have "phase sid c = PhIdle" using True by (simp add: phase_def)
  moreover have "phase sid c' \<in> {PhOpen, PhHalfLocal}" using assms(1) True by (auto simp: opens_def phase_def)
  ultimately show ?thesis by (auto intro!: r_into_rtranclp intro: rfc_step.intros)
next
  case False
  then have "phase sid c' = phase sid c"
    using assms(1) odd_below [OF assms(3,5,4)] by (simp add: opens_def phase_def)
  then show ?thesis by simp
qed

lemma ids_ok_step:
  assumes "ids_ok c" "ages c c' \<or> opens c c' \<and> unat (cn_next_stream_id c) < 2 ^ 31"
  shows "ids_ok c'"
  using assms(2)
proof
  assume "ages c c'"
  then show ?thesis using assms(1) unfolding ids_ok_def ages_def by metis
next
  assume o: "opens c c' \<and> unat (cn_next_stream_id c) < 2 ^ 31"
  have "cn_next_stream_id c < cn_next_stream_id c + 2" using o by (simp add: word_less_nat_alt unat_word_ariths)
  then show ?thesis using assms(1) o unfolding ids_ok_def opens_def by (metis order.strict_trans)
qed

fun is_request :: "event \<Rightarrow> bool" where
  "is_request (EvRequest t init) = True"
| "is_request _ = False"

text \<open>Fewer than \<open>2 ^ 30\<close> calls of \<open>request\<close> keep the counter within 31 bits.\<close>

lemma reachable_ids:
  assumes "reachable W up options evs sy" "length (filter is_request evs) < 2 ^ 30"
  shows "ids_ok (sy_conn sy) \<and> unat (cn_next_stream_id (sy_conn sy)) \<le> 2 * length (filter is_request evs) + 1"
  using assms
proof (induction rule: reachable.induct)
  case reach_init
  have "cn_streams (connect options) = []" "cn_next_stream_id (connect options) = 1"
    by (simp_all add: connect_def Let_def conn_new_def)
  then show ?case by (simp add: sys_init_def ids_ok_def get_stream_def)
next
  case (reach_step evs sy ev sy')
  then have IH: "ids_ok (sy_conn sy)" "unat (cn_next_stream_id (sy_conn sy)) \<le> 2 * length (filter is_request evs) + 1"
    by auto
  then have n: "unat (cn_next_stream_id (sy_conn sy)) < 2 ^ 31" using reach_step.prems by (auto split: if_splits)
  consider "ages (sy_conn sy) (sy_conn sy')" | "opens (sy_conn sy) (sy_conn sy')" "is_request ev"
    using sys_step_phases [OF reach_step.hyps(2)] by auto
  then show ?case
  proof cases
    case 1
    then show ?thesis using IH ids_ok_step [OF IH(1)] by (auto simp: ages_def)
  next
    case 2
    have "unat (cn_next_stream_id (sy_conn sy) + 2) = unat (cn_next_stream_id (sy_conn sy)) + 2"
      using n by (simp add: unat_word_ariths)
    then show ?thesis using 2 IH n ids_ok_step [OF IH(1)] by (auto simp: opens_def)
  qed
qed



end
