(* ===== verification/Handshake.thy ===== *)
theory Handshake
  imports Prelude
begin

text \<open>
  \<open>h2ts-server/src/handshake.rs\<close>: the server side of the WebSocket handshake.

  A request is the first value of each header, what \<open>HeaderMap::get\<close> returns for a lower-case
  name.  The crates \<open>http\<close>, \<open>sha1\<close> and \<open>base64\<close> are parameters: whether a header value is text
  (\<open>to_str\<close>), whether a text is a header value (\<open>from_str\<close>), the digest and the encoding.  The
  future that waits for hyper's upgrade is outside the model.
\<close>

subsection \<open>Strings\<close>

fun split_on :: "char \<Rightarrow> string \<Rightarrow> string list" where
  "split_on d [] = [[]]"
| "split_on d (c # cs) =
     (if c = d then [] # split_on d cs
      else case split_on d cs of [] \<Rightarrow> [[c]] | w # ws \<Rightarrow> (c # w) # ws)"

text \<open>The header values that are text are ASCII, so only ASCII white space can be trimmed.\<close>

definition is_space :: "char \<Rightarrow> bool" where
  "is_space c = (let n = (of_char c :: nat) in n = 32 \<or> 9 \<le> n \<and> n \<le> 13)"

definition trim :: "string \<Rightarrow> string" where
  "trim s = rev (dropWhile is_space (rev (dropWhile is_space s)))"

subsection \<open>Requests, responses and errors\<close>

record http_request =
  hq_get :: "string \<Rightarrow> bytes option"

record http_response =
  hr_status :: nat
  hr_headers :: "(string \<times> string) list"

record http_lib =
  hl_to_str :: "bytes \<Rightarrow> string option"
  hl_value_ok :: "string \<Rightarrow> bool"
  hl_sha1 :: "bytes \<Rightarrow> bytes"
  hl_base64 :: "bytes \<Rightarrow> string"

definition WS_GUID :: bytes where
  "WS_GUID = as_bytes ''258EAFA5-E914-47DA-95CA-C5AB0DC85B11''"

definition DEFAULT_SUBPROTOCOL :: string where
  "DEFAULT_SUBPROTOCOL = ''h2ts''"

record accept_options =
  ao_allow_implicit_codec :: bool
  ao_allowed_origins :: "string list option"

definition accept_options_default :: accept_options where
  "accept_options_default = \<lparr>ao_allow_implicit_codec = False, ao_allowed_origins = None\<rparr>"

datatype websocket_error = NotUpgradeRequest | UnsupportedSubprotocol | ForbiddenOrigin | UpgradeError string

fun rejection_response :: "websocket_error \<Rightarrow> http_response" where
  "rejection_response NotUpgradeRequest = \<lparr>hr_status = 426, hr_headers = []\<rparr>"
| "rejection_response UnsupportedSubprotocol = \<lparr>hr_status = 400, hr_headers = []\<rparr>"
| "rejection_response ForbiddenOrigin = \<lparr>hr_status = 403, hr_headers = []\<rparr>"
| "rejection_response (UpgradeError e) = \<lparr>hr_status = 500, hr_headers = []\<rparr>"

fun websocket_error_display :: "websocket_error \<Rightarrow> string" where
  "websocket_error_display NotUpgradeRequest = ''not a WebSocket upgrade request''"
| "websocket_error_display UnsupportedSubprotocol = ''client offered no supported subprotocol''"
| "websocket_error_display ForbiddenOrigin = ''origin not allowed''"
| "websocket_error_display (UpgradeError e) = ''WebSocket upgrade failed: '' @ e"

fun websocket_error_source :: "websocket_error \<Rightarrow> string option" where
  "websocket_error_source (UpgradeError e) = Some e"
| "websocket_error_source _ = None"

subsection \<open>Parsing the request\<close>

definition header_lists :: "http_lib \<Rightarrow> http_request \<Rightarrow> string \<Rightarrow> string \<Rightarrow> bool" where
  "header_lists lib rq header needle =
     (case Option.bind (hq_get rq header) (hl_to_str lib) of
        Some list \<Rightarrow> list_ex (\<lambda>t. eq_ignore_ascii_case (trim t) needle) (split_on (CHR '','') list)
      | None \<Rightarrow> False)"

definition is_upgrade_request :: "http_lib \<Rightarrow> http_request \<Rightarrow> bool" where
  "is_upgrade_request lib rq \<longleftrightarrow> header_lists lib rq ''upgrade'' ''websocket'' \<and> header_lists lib rq ''connection'' ''upgrade''
     \<and> hq_get rq ''sec-websocket-key'' \<noteq> None"

definition offered_protocols :: "http_lib \<Rightarrow> http_request \<Rightarrow> string list" where
  "offered_protocols lib rq =
     (case Option.bind (hq_get rq ''sec-websocket-protocol'') (hl_to_str lib) of
        Some list \<Rightarrow> filter (\<lambda>s. s \<noteq> []) (map trim (split_on (CHR '','') list))
      | None \<Rightarrow> [])"

datatype fallback = FbAccept "string option" | FbReject

definition fallback_subprotocol :: "string list \<Rightarrow> bool \<Rightarrow> fallback" where
  "fallback_subprotocol offered allow_implicit_codec =
     (case find (\<lambda>p. eq_ignore_ascii_case p DEFAULT_SUBPROTOCOL) offered of
        Some p \<Rightarrow> FbAccept (Some p)
      | None \<Rightarrow>
          if allow_implicit_codec then FbAccept (case offered of p # _ \<Rightarrow> Some p | [] \<Rightarrow> None) else FbReject)"

definition accept_key :: "http_lib \<Rightarrow> bytes \<Rightarrow> string" where
  "accept_key lib key = hl_base64 lib (hl_sha1 lib (key @ WS_GUID))"

subsection \<open>Accepting\<close>

definition origin_allowed :: "http_lib \<Rightarrow> http_request \<Rightarrow> string list \<Rightarrow> bool" where
  "origin_allowed lib rq allowed =
     (case Option.bind (hq_get rq ''origin'') (hl_to_str lib) of
        Some o' \<Rightarrow> list_ex (\<lambda>a. eq_ignore_ascii_case a o') allowed
      | None \<Rightarrow> False)"

definition subprotocol_decision :: "(string list \<Rightarrow> string option) \<Rightarrow> string list \<Rightarrow> bool \<Rightarrow> fallback" where
  "subprotocol_decision select offered allow_implicit_codec =
     (case select offered of
        Some proto \<Rightarrow>
          if list_ex (\<lambda>o'. eq_ignore_ascii_case o' proto) offered then FbAccept (Some proto)
          else fallback_subprotocol offered allow_implicit_codec
      | None \<Rightarrow> fallback_subprotocol offered allow_implicit_codec)"

definition switching_response :: "http_lib \<Rightarrow> string \<Rightarrow> string option \<Rightarrow> http_response" where
  "switching_response lib accept_value chosen =
     \<lparr>hr_status = 101,
      hr_headers = [(''connection'', ''Upgrade''), (''upgrade'', ''websocket''), (''sec-websocket-accept'', accept_value)]
        @ (case chosen of Some proto \<Rightarrow> if hl_value_ok lib proto then [(''sec-websocket-protocol'', proto)] else [] | None \<Rightarrow> [])\<rparr>"

definition accept_with_options :: "http_lib \<Rightarrow> http_request \<Rightarrow> (string list \<Rightarrow> string option) \<Rightarrow> accept_options
    \<Rightarrow> (websocket_error, http_response) result" where
  "accept_with_options lib rq select options =
     (if \<not> is_upgrade_request lib rq then Err NotUpgradeRequest
      else if (case ao_allowed_origins options of Some allowed \<Rightarrow> \<not> origin_allowed lib rq allowed | None \<Rightarrow> False)
      then Err ForbiddenOrigin
      else case hq_get rq ''sec-websocket-key'' of
             None \<Rightarrow> Err NotUpgradeRequest
           | Some key \<Rightarrow>
               let accept_value = accept_key lib key in
               (case subprotocol_decision select (offered_protocols lib rq) (ao_allow_implicit_codec options) of
                  FbReject \<Rightarrow> Err UnsupportedSubprotocol
                | FbAccept chosen \<Rightarrow>
                    if hl_value_ok lib accept_value then Ok (switching_response lib accept_value chosen) else Panic))"

definition accept_with :: "http_lib \<Rightarrow> http_request \<Rightarrow> (string list \<Rightarrow> string option) \<Rightarrow> (websocket_error, http_response) result" where
  "accept_with lib rq select = accept_with_options lib rq select accept_options_default"

definition accept :: "http_lib \<Rightarrow> http_request \<Rightarrow> (websocket_error, http_response) result" where
  "accept lib rq = accept_with lib rq (\<lambda>_. None)"

subsection \<open>Comma-separated lists\<close>

lemma split_on_nonempty [simp]: "split_on d s \<noteq> []"
  by (induction s) (auto split: list.split)

lemma split_on_no_delim: "d \<notin> set s \<Longrightarrow> split_on d s = [s]"
  by (induction s) auto

lemma split_on_append: "d \<notin> set s \<Longrightarrow> split_on d (s @ d # t) = s # split_on d t"
  by (induction s) auto

text \<open>A token of a list: not empty, no comma, no white space at its ends.\<close>

definition token :: "string \<Rightarrow> bool" where
  "token s \<longleftrightarrow> s \<noteq> [] \<and> CHR '','' \<notin> set s \<and> \<not> is_space (hd s) \<and> \<not> is_space (last s)"

lemma dropWhile_spaces: "list_all is_space pre \<Longrightarrow> s \<noteq> [] \<Longrightarrow> \<not> is_space (hd s) \<Longrightarrow> dropWhile is_space (pre @ s) = s"
  by (induction pre) (auto simp: neq_Nil_conv)

lemma trim_spaces:
  assumes "list_all is_space pre" and "list_all is_space post" and "token s"
  shows "trim (pre @ s @ post) = s"
proof -
  have "dropWhile is_space (pre @ s @ post) = s @ post"
    using dropWhile_spaces [OF assms(1), of "s @ post"] assms(3) by (simp add: token_def)
  moreover have "dropWhile is_space (rev post @ rev s) = rev s"
    using dropWhile_spaces [of "rev post" "rev s"] assms(2,3) by (simp add: token_def list_all_rev hd_rev)
  ultimately show ?thesis by (simp add: trim_def)
qed

text \<open>How clients write a list: the tokens separated by a comma and any number of blanks.\<close>

fun render_list :: "nat \<Rightarrow> string list \<Rightarrow> string" where
  "render_list n [] = []"
| "render_list n [s] = s"
| "render_list n (s # ss) = s @ CHR '','' # replicate n (CHR '' '') @ render_list n ss"

lemma split_render:
  "list_all token ss \<Longrightarrow> ss \<noteq> [] \<Longrightarrow>
   map trim (split_on (CHR '','') (replicate m (CHR '' '') @ render_list n ss)) = ss"
proof (induction n ss arbitrary: m rule: render_list.induct)
  case (2 n s)
  then have no: "CHR '','' \<notin> set (replicate m (CHR '' '') @ s)" by (auto simp: token_def)
  have "trim (replicate m (CHR '' '') @ s @ []) = s"
    using 2 by (intro trim_spaces) (auto simp: list_all_iff is_space_def)
  then show ?case using split_on_no_delim [OF no] by simp
next
  case (3 n s s' ss)
  let ?rest = "replicate n (CHR '' '') @ render_list n (s' # ss)"
  have no: "CHR '','' \<notin> set (replicate m (CHR '' '') @ s)" using 3 by (auto simp: token_def)
  have t: "trim (replicate m (CHR '' '') @ s @ []) = s"
    using 3 by (intro trim_spaces) (auto simp: list_all_iff is_space_def)
  have "split_on (CHR '','') (replicate m (CHR '' '') @ render_list n (s # s' # ss)) =
      (replicate m (CHR '' '') @ s) # split_on (CHR '','') ?rest"
    using split_on_append [OF no, of ?rest] by simp
  then show ?case using 3 t by simp
qed simp

text \<open>
  The server reads the client's offer as the client wrote it: for a header that lists
  tokens separated by commas, with any number of blanks after each, \<open>offered_protocols\<close> returns
  exactly the tokens in order, and \<open>header_lists\<close> finds exactly them, whatever their case.
\<close>

theorem offered_protocols_roundtrip:
  assumes "list_all token ps" and "ps \<noteq> []"
    and "Option.bind (hq_get rq ''sec-websocket-protocol'') (hl_to_str lib) = Some (render_list n ps)"
  shows "offered_protocols lib rq = ps
    \<and> (\<forall>needle. header_lists lib rq ''sec-websocket-protocol'' needle = list_ex (\<lambda>p. eq_ignore_ascii_case p needle) ps)"
proof -
  have sp: "map trim (split_on (CHR '','') (render_list n ps)) = ps" using split_render [OF assms(1,2), of 0 n] by simp
  have "filter (\<lambda>s. s \<noteq> []) ps = ps" using assms(1) by (auto simp: filter_id_conv list_all_iff token_def)
  moreover have ex: "list_ex (\<lambda>t. P (trim t)) ts = list_ex P (map trim ts)" for P ts by (induction ts) simp_all
  have "list_ex (\<lambda>t. eq_ignore_ascii_case (trim t) needle) (split_on (CHR '','') (render_list n ps)) =
      list_ex (\<lambda>p. eq_ignore_ascii_case p needle) ps" for needle
    unfolding ex [of "\<lambda>p. eq_ignore_ascii_case p needle"] sp ..
  ultimately show ?thesis using assms(3) sp by (simp add: offered_protocols_def header_lists_def)
qed

text \<open>An instance of the external functions, for concrete requests.\<close>

definition plain_lib :: http_lib where
  "plain_lib = \<lparr>hl_to_str = (\<lambda>b. Some (of_bytes b)), hl_value_ok = (\<lambda>_. True), hl_sha1 = (\<lambda>b. b), hl_base64 = of_bytes\<rparr>"

definition sample_upgrade :: http_request where
  "sample_upgrade = \<lparr>hq_get = map_of [(''upgrade'', as_bytes ''websocket''), (''connection'', as_bytes ''Upgrade''),
     (''sec-websocket-key'', as_bytes ''abc''), (''sec-websocket-protocol'', as_bytes ''chat, H2TS''),
     (''origin'', as_bytes ''https://a.example'')]\<rparr>"

theorem offered_protocols_roundtrip_witness: "offered_protocols plain_lib sample_upgrade = [''chat'', ''H2TS'']"
proof -
  have "list_all token [''chat'', ''H2TS'']" by (simp add: token_def is_space_def)
  moreover have "Option.bind (hq_get sample_upgrade ''sec-websocket-protocol'') (hl_to_str plain_lib) =
      Some (render_list 1 [''chat'', ''H2TS''])"
    by (simp add: sample_upgrade_def plain_lib_def)
  ultimately show ?thesis using offered_protocols_roundtrip [of "[''chat'', ''H2TS'']" sample_upgrade plain_lib 1] by simp
qed

subsection \<open>What is accepted\<close>

lemma eq_ignore_refl [simp]: "eq_ignore_ascii_case s s"
  by (simp add: eq_ignore_ascii_case_def)

lemma find_offered: "find P xs = Some x \<Longrightarrow> P x \<and> x \<in> set xs"
  by (induction xs) (auto split: if_splits)

lemma fallback_offered: "fallback_subprotocol offered implicit = FbAccept (Some p) \<Longrightarrow> p \<in> set offered"
  by (auto simp: fallback_subprotocol_def dest: find_offered split: option.splits if_splits list.splits)

lemma decision_offered:
  "subprotocol_decision select offered implicit = FbAccept (Some p) \<Longrightarrow> list_ex (\<lambda>o'. eq_ignore_ascii_case o' p) offered"
proof -
  assume d: "subprotocol_decision select offered implicit = FbAccept (Some p)"
  have "list_ex (\<lambda>o'. eq_ignore_ascii_case o' p) offered" if "fallback_subprotocol offered implicit = FbAccept (Some p)"
    using fallback_offered [OF that] by (auto simp: list_ex_iff intro: bexI [of _ p])
  with d show ?thesis by (auto simp: subprotocol_decision_def split: option.splits if_splits)
qed

lemma accept_OkD:
  assumes "accept_with_options lib rq select options = Ok resp"
  obtains key chosen where "is_upgrade_request lib rq" "hq_get rq ''sec-websocket-key'' = Some key"
    "subprotocol_decision select (offered_protocols lib rq) (ao_allow_implicit_codec options) = FbAccept chosen"
    "resp = switching_response lib (accept_key lib key) chosen"
    "\<And>l. ao_allowed_origins options = Some l \<Longrightarrow> origin_allowed lib rq l"
  using assms by (auto simp: accept_with_options_def Let_def split: if_splits option.splits fallback.splits)

text \<open>
  The handshake answers a valid upgrade correctly, whatever the handler selects: a 101 is
  sent only for an upgrade request, it carries the digest of the client's key and the fixed GUID,
  and any subprotocol it names was offered by the client (up to letter case).
\<close>

theorem accept_echoes_offered:
  assumes "accept_with_options lib rq select options = Ok resp"
  shows "is_upgrade_request lib rq \<and> hr_status resp = 101
    \<and> (\<exists>key. hq_get rq ''sec-websocket-key'' = Some key
         \<and> map_of (hr_headers resp) ''sec-websocket-accept'' = Some (hl_base64 lib (hl_sha1 lib (key @ WS_GUID))))
    \<and> (\<forall>p. map_of (hr_headers resp) ''sec-websocket-protocol'' = Some p \<longrightarrow>
         (\<exists>o' \<in> set (offered_protocols lib rq). eq_ignore_ascii_case o' p))"
proof -
  obtain key chosen where k: "is_upgrade_request lib rq" "hq_get rq ''sec-websocket-key'' = Some key"
      "subprotocol_decision select (offered_protocols lib rq) (ao_allow_implicit_codec options) = FbAccept chosen"
      "resp = switching_response lib (accept_key lib key) chosen"
    by (rule accept_OkD [OF assms])
  have "\<exists>o' \<in> set (offered_protocols lib rq). eq_ignore_ascii_case o' p" if "chosen = Some p" for p
    using decision_offered k(3) that by (auto simp: list_ex_iff)
  then show ?thesis
    using k by (auto simp: switching_response_def accept_key_def split: option.splits if_splits)
qed

lemma sample_upgrade_facts:
  "is_upgrade_request plain_lib sample_upgrade" "offered_protocols plain_lib sample_upgrade = [''chat'', ''H2TS'']"
  by (simp_all add: is_upgrade_request_def offered_protocols_def header_lists_def sample_upgrade_def plain_lib_def trim_def
      is_space_def eq_ignore_ascii_case_def to_ascii_lowercase_def ascii_lower_def char_of_def bit_0)

lemma accept_sample: "accept plain_lib sample_upgrade =
    Ok (switching_response plain_lib (accept_key plain_lib (as_bytes ''abc'')) (Some ''H2TS''))"
  using sample_upgrade_facts
  by (simp add: accept_def accept_with_def accept_with_options_def accept_options_default_def subprotocol_decision_def
      fallback_subprotocol_def DEFAULT_SUBPROTOCOL_def eq_ignore_ascii_case_def to_ascii_lowercase_def ascii_lower_def
      char_of_def bit_0 plain_lib_def sample_upgrade_def Let_def)

theorem accept_echoes_offered_witness:
  "\<exists>resp. accept plain_lib sample_upgrade = Ok resp \<and> hr_status resp = 101
     \<and> map_of (hr_headers resp) ''sec-websocket-protocol'' = Some ''H2TS''"
proof -
  let ?resp = "switching_response plain_lib (accept_key plain_lib (as_bytes ''abc'')) (Some ''H2TS'')"
  have "accept_with_options plain_lib sample_upgrade (\<lambda>_. None) accept_options_default = Ok ?resp"
    using accept_sample by (simp add: accept_def accept_with_def)
  from accept_echoes_offered [OF this] accept_sample show ?thesis
    by (simp add: switching_response_def plain_lib_def)
qed

text \<open>
  The origin allowlist holds.  With an allowlist configured no handshake succeeds unless
  the request names an origin that is on the list, and an upgrade request without such an origin,
  or without any, is refused as forbidden, which is a 403.
\<close>

theorem accept_enforces_origin:
  assumes "ao_allowed_origins options = Some allowed"
  shows "(accept_with_options lib rq select options = Ok resp \<longrightarrow>
      (\<exists>v o'. hq_get rq ''origin'' = Some v \<and> hl_to_str lib v = Some o' \<and> list_ex (\<lambda>a. eq_ignore_ascii_case a o') allowed))
    \<and> (is_upgrade_request lib rq \<longrightarrow> \<not> origin_allowed lib rq allowed \<longrightarrow>
        accept_with_options lib rq select options = Err ForbiddenOrigin)
    \<and> hr_status (rejection_response ForbiddenOrigin) = 403"
proof -
  have "origin_allowed lib rq allowed" if "accept_with_options lib rq select options = Ok resp"
    using that assms by (elim accept_OkD) simp
  moreover have "\<exists>v o'. hq_get rq ''origin'' = Some v \<and> hl_to_str lib v = Some o' \<and> list_ex (\<lambda>a. eq_ignore_ascii_case a o') allowed"
    if "origin_allowed lib rq allowed"
    using that by (cases "hq_get rq ''origin''") (auto simp: origin_allowed_def split: option.splits)
  moreover have "accept_with_options lib rq select options = Err ForbiddenOrigin"
    if "is_upgrade_request lib rq" "\<not> origin_allowed lib rq allowed"
    using that assms by (simp add: accept_with_options_def)
  ultimately show ?thesis by simp
qed

theorem accept_enforces_origin_witness:
  "accept_with_options plain_lib sample_upgrade (\<lambda>_. None)
     (accept_options_default\<lparr>ao_allowed_origins := Some [''https://b.example'']\<rparr>) = Err ForbiddenOrigin"
proof -
  let ?o = "accept_options_default\<lparr>ao_allowed_origins := Some [''https://b.example'']\<rparr>"
  have "\<not> origin_allowed plain_lib sample_upgrade [''https://b.example'']"
    by (simp add: origin_allowed_def sample_upgrade_def plain_lib_def eq_ignore_ascii_case_def to_ascii_lowercase_def
        ascii_lower_def char_of_def bit_0)
  with accept_enforces_origin [of ?o "[''https://b.example'']" plain_lib sample_upgrade "\<lambda>_. None"] sample_upgrade_facts(1)
  show ?thesis by simp
qed



text \<open>
  The echoed subprotocol may differ from the offer in letter case.  A selector that answers
  \<open>chat\<close> to an offer of \<open>Chat\<close> passes the check, and the 101 names \<open>chat\<close>, which the client did
  not offer.
\<close>

theorem accept_echoes_selected_case:
  "subprotocol_decision (\<lambda>_. Some ''chat'') [''Chat''] False = FbAccept (Some ''chat'')
     \<and> \<not> list_ex (\<lambda>o'. o' = ''chat'') [''Chat'']"
  by (simp add: subprotocol_decision_def eq_ignore_ascii_case_def to_ascii_lowercase_def ascii_lower_def char_of_def bit_0)

end
