(* ===== verification/Proxy.thy ===== *)
theory Proxy
  imports Handshake Bridge_Inv
begin

text \<open>
  \<open>h2ts-server/src/bin/h2ts-proxy.rs\<close>: the command line, the handling of one request, and the tunnel
  that a successful handshake starts.

  The listener, hyper's HTTP/1 connection and the upstream's socket are outside the model: whether the
  upgrade and the connect succeed are arguments.  So is whether the listen address is well formed.
\<close>

subsection \<open>Command line\<close>

record proxy_config =
  px_listen :: string
  px_upstream :: string
  px_keepalive :: "keep_alive option"
  px_allow_implicit_codec :: bool
  px_allowed_origins :: "string list option"

text \<open>The loop over the arguments: the values of \<open>--allowed-origin\<close> and the positional ones.\<close>

fun scan_args :: "string list \<Rightarrow> string list \<times> string list" where
  "scan_args [] = ([], [])"
| "scan_args (a # rest) =
     (if a = ''--allow-implicit-codec'' \<or> a = ''--no-keepalive'' then scan_args rest
      else if a = ''--allowed-origin'' then
        (case rest of v # rest' \<Rightarrow> (case scan_args rest' of (origins, positional) \<Rightarrow> (v # origins, positional))
         | [] \<Rightarrow> ([], []))
      else case scan_args rest of (origins, positional) \<Rightarrow> (origins, a # positional))"

definition u64_max :: nat where
  "u64_max = 18446744073709551615"

definition proxy_keepalive :: "bool \<Rightarrow> string option \<Rightarrow> keep_alive option" where
  "proxy_keepalive no_keepalive arg =
     (if no_keepalive then None
      else case arg of
             Some s \<Rightarrow> (case parse_unsigned u64_max s of
                          Some n \<Rightarrow> if n > 0 then Some (keep_alive_new n n) else None
                        | None \<Rightarrow> None)
           | None \<Rightarrow> Some keep_alive_default)"

definition nth_arg :: "string list \<Rightarrow> nat \<Rightarrow> string option" where
  "nth_arg args i = (if i < length args then Some (args ! i) else None)"

definition parse_args :: "(string \<Rightarrow> bool) \<Rightarrow> string list \<Rightarrow> proxy_config option" where
  "parse_args addr_ok raw =
     (let allow_implicit_codec = list_ex (\<lambda>a. a = ''--allow-implicit-codec'') raw;
          no_keepalive = list_ex (\<lambda>a. a = ''--no-keepalive'') raw
      in case scan_args raw of (allowed_origins, args) \<Rightarrow>
         let listen = (case nth_arg args 0 of Some a \<Rightarrow> a | None \<Rightarrow> ''127.0.0.1:8091'') in
         if \<not> addr_ok listen then None
         else Some \<lparr>px_listen = listen,
           px_upstream = (case nth_arg args 1 of Some a \<Rightarrow> a | None \<Rightarrow> ''127.0.0.1:8000''),
           px_keepalive = proxy_keepalive no_keepalive (nth_arg args 2),
           px_allow_implicit_codec = allow_implicit_codec,
           px_allowed_origins = (if allowed_origins \<noteq> [] then Some allowed_origins else None)\<rparr>)"

fun join :: "string \<Rightarrow> string list \<Rightarrow> string" where
  "join sep [] = []"
| "join sep [s] = s"
| "join sep (s # ss) = s @ sep @ join sep ss"

definition proxy_banner :: "proxy_config \<Rightarrow> string" where
  "proxy_banner px =
     (let ka = (case px_keepalive px of Some k \<Rightarrow> ''keepalive '' @ show_nat (ka_interval k) @ ''s'' | None \<Rightarrow> ''keepalive off'');
          codec = (if px_allow_implicit_codec px then ''any subprotocol'' else ''h2ts only'');
          origins = (case px_allowed_origins px of Some os \<Rightarrow> ''origins ['' @ join '', '' os @ '']'' | None \<Rightarrow> ''any origin'')
      in ''[h2ts-proxy] listening ws://'' @ px_listen px @ ''  ->  tcp://'' @ px_upstream px @ '' (h2c, '' @ ka @ '', '' @ codec
         @ '', '' @ origins @ '')'')"

subsection \<open>The listener\<close>

text \<open>
  The loop over \<open>listener.accept()\<close>: the connections that are spawned, and the milliseconds slept
  after errors.
\<close>

fun listen_loop :: "(string + 'socket) list \<Rightarrow> 'socket list \<times> nat" where
  "listen_loop [] = ([], 0)"
| "listen_loop (Inr socket # rs) = (case listen_loop rs of (spawned, slept) \<Rightarrow> (socket # spawned, slept))"
| "listen_loop (Inl err # rs) = (case listen_loop rs of (spawned, slept) \<Rightarrow> (spawned, slept + 50))"

lemma listen_loop_spawns:
  "listen_loop rs = (concat (map (\<lambda>r. case r of Inr s \<Rightarrow> [s] | Inl _ \<Rightarrow> []) rs),
     50 * length (filter (\<lambda>r. case r of Inl _ \<Rightarrow> True | Inr _ \<Rightarrow> False) rs))"
  by (induction rs rule: listen_loop.induct) simp_all

subsection \<open>One request\<close>

text \<open>The response, and whether a tunnel was spawned for it.\<close>

definition handle :: "http_lib \<Rightarrow> http_request \<Rightarrow> proxy_config \<Rightarrow> (websocket_error, http_response \<times> bool) result" where
  "handle lib rq px =
     (case accept_with_options lib rq (\<lambda>_. None)
        \<lparr>ao_allow_implicit_codec = px_allow_implicit_codec px, ao_allowed_origins = px_allowed_origins px\<rparr> of
        Ok response \<Rightarrow> Ok (response, True)
      | Err err \<Rightarrow> Ok (rejection_response err, False)
      | Panic \<Rightarrow> Panic)"

datatype tunnel =
    UpgradeFailed
  | BadGateway bridge_config
  | Bridging bridge_config

definition bad_gateway :: close_frame where
  "bad_gateway = \<lparr>cf_code = 1014, cf_reason = ''bad gateway''\<rparr>"

definition bad_gateway_config :: bridge_config where
  "bad_gateway_config = bridge_config_default\<lparr>bc_close := bad_gateway, bc_keepalive := None\<rparr>"

definition tunnel_config :: "keep_alive option \<Rightarrow> bridge_config" where
  "tunnel_config keepalive =
     bridge_config_default\<lparr>bc_keepalive := keepalive, bc_error_close := bad_gateway, bc_on_close := True\<rparr>"

definition open_tunnel :: "bool \<Rightarrow> bool \<Rightarrow> proxy_config \<Rightarrow> tunnel" where
  "open_tunnel upgraded connected px =
     (if \<not> upgraded then UpgradeFailed
      else if \<not> connected then BadGateway bad_gateway_config
      else Bridging (tunnel_config (px_keepalive px)))"

subsection \<open>Flags and values\<close>

text \<open>Whether the arguments end in an \<open>--allowed-origin\<close> whose value is still to come.\<close>

fun dangling :: "string list \<Rightarrow> bool" where
  "dangling [] = False"
| "dangling (a # rest) =
     (if a = ''--allowed-origin'' then (case rest of v # rest' \<Rightarrow> dangling rest' | [] \<Rightarrow> True) else dangling rest)"

lemma scan_append:
  "\<not> dangling xs \<Longrightarrow> scan_args (xs @ ys) =
     (fst (scan_args xs) @ fst (scan_args ys), snd (scan_args xs) @ snd (scan_args ys))"
proof (induction xs rule: dangling.induct)
  case (2 a rest)
  show ?case
  proof (cases "a = ''--allowed-origin''")
    case True
    then obtain v rest' where "rest = v # rest'" "\<not> dangling rest'" using 2(3) by (cases rest) auto
    then show ?thesis using True 2(1) [OF True, of v rest'] by (simp add: case_prod_beta)
  next
    case False
    then have "scan_args (rest @ ys) = (fst (scan_args rest) @ fst (scan_args ys), snd (scan_args rest) @ snd (scan_args ys))"
      using 2(2,3) by simp
    then show ?thesis using False by (simp add: case_prod_beta)
  qed
qed simp

text \<open>
  Flags may stand anywhere: as long as it is not in the place of a value, a
  \<open>--no-keepalive\<close> or \<open>--allow-implicit-codec\<close> between other arguments has the effect it has in front
  of them.
\<close>

theorem proxy_flags_anywhere:
  assumes "\<not> dangling xs" "flag = ''--no-keepalive'' \<or> flag = ''--allow-implicit-codec''"
  shows "parse_args addr_ok (xs @ flag # ys) = parse_args addr_ok (flag # xs @ ys)"
proof -
  have "scan_args (xs @ flag # ys) = scan_args (flag # xs @ ys)"
    using assms(2) scan_append [OF assms(1), of "flag # ys"] scan_append [OF assms(1), of ys] by auto
  moreover have "list_ex P (xs @ flag # ys) = list_ex P (flag # xs @ ys)" for P by auto
  ultimately show ?thesis unfolding parse_args_def by (simp only:)
qed

theorem proxy_flags_anywhere_witness:
  "parse_args (\<lambda>_. True) [''127.0.0.1:1'', ''--no-keepalive'', ''up:2''] = parse_args (\<lambda>_. True) [''--no-keepalive'', ''127.0.0.1:1'', ''up:2'']"
  using proxy_flags_anywhere [of "[''127.0.0.1:1'']" "''--no-keepalive''" "\<lambda>_. True" "[''up:2'']"] by simp

subsection \<open>The allowlist from the command line to the handshake\<close>

lemma scan_origin: "\<not> dangling xs \<Longrightarrow> v \<in> set (fst (scan_args (xs @ ''--allowed-origin'' # v # ys)))"
  by (simp add: scan_append case_prod_beta)


lemma sample_origin:
  "origin_allowed plain_lib sample_upgrade [''https://a.example'']" "\<not> origin_allowed plain_lib sample_upgrade [''https://b.example'']"
  by (simp_all add: origin_allowed_def sample_upgrade_def plain_lib_def eq_ignore_ascii_case_def to_ascii_lowercase_def
      ascii_lower_def char_of_def bit_0)


text \<open>
  An \<open>--allowed-origin\<close> without a value is dropped silently, and with it the protection: the proxy
  then accepts every origin, as the sample request shows, which a list with any other value refuses.
\<close>

theorem proxy_dangling_origin_fails_open:
  "\<exists>px. parse_args (\<lambda>_. True) [''127.0.0.1:1'', ''up:2'', ''--allowed-origin''] = Some px \<and> px_allowed_origins px = None
     \<and> (\<exists>resp. handle plain_lib sample_upgrade px = Ok (resp, True))"
proof -
  have "accept_with_options plain_lib sample_upgrade (\<lambda>_. None) accept_options_default =
      Ok (switching_response plain_lib (accept_key plain_lib (as_bytes ''abc'')) (Some ''H2TS''))"
    using accept_sample by (simp add: accept_def accept_with_def)
  then show ?thesis
    by (simp add: parse_args_def handle_def accept_options_default_def Let_def)
qed

text \<open>
  Keepalive is on unless it is turned off, except that an interval that is not a number turns it
  off too: \<open>30s\<close> is read as no keepalive, where the usage text names only \<open>0\<close> and \<open>--no-keepalive\<close>.
\<close>

theorem proxy_malformed_keepalive_turns_off:
  "proxy_keepalive False None = Some keep_alive_default \<and> proxy_keepalive False (Some ''30'') = Some (keep_alive_new 30 30)
     \<and> proxy_keepalive False (Some ''0'') = None \<and> proxy_keepalive False (Some ''30s'') = None"
  by (simp add: proxy_keepalive_def parse_unsigned_def digit_value_def u64_max_def Let_def)

subsection \<open>An unreachable upstream\<close>

text \<open>
  When the upstream cannot be reached, the client is told so: the bridge that the proxy starts over
  an empty peer ends, as soon as the peer's end of file is seen and the socket takes the frame, with a
  close of its own of code 1014, and the bytes on the wire are what wslay produces for that close.
\<close>

theorem proxy_unreachable_upstream_closes_1014:
  assumes "bridge_start lib bad_gateway_config now = Ok b"
  shows "open_tunnel True False px = BadGateway bad_gateway_config \<and>
    (\<exists>n. let b' = bridge_steps lib bad_gateway_config [PeerBytes [], WsWrote n] b in
      bd_end b' = Some (Inr (LocalClose \<lparr>cf_code = 1014, cf_reason = ''bad gateway''\<rparr>))
      \<and> bd_ws_written b' = concat (fst (wl_event_send lib (wl_queue_close lib 1014 (as_bytes ''bad gateway'') (bd_wslay b)))))"
proof -
  have b: "bd_peer b = PeerReading" "bd_end b = None" "bd_lock b = []" "bd_ws_written b = []"
    using assms by (auto simp: bridge_start_def split: option.splits)
  have out: "sh_outbound (bd_shared b) = []" by (rule bridge_ok_outbound [OF bridge_start_ok [OF assms]])
  have q: "queue_close lib bad_gateway = wl_queue_close lib 1014 (as_bytes ''bad gateway'')"
    by (simp add: queue_close_def bad_gateway_def fun_eq_iff)
  have cfg: "bc_close bad_gateway_config = bad_gateway" by (simp add: bad_gateway_config_def)
  define out' where "out' = sent lib (queue_close lib bad_gateway) b"
  have "bridge_step lib bad_gateway_config (PeerBytes []) b = peer_ended lib bad_gateway b"
    using b cfg by (simp add: bridge_step_def bridge_event_step_def)
  then have "let b' = bridge_steps lib bad_gateway_config [PeerBytes [], WsWrote (length out')] b in
      bd_end b' = Some (Inr (LocalClose bad_gateway)) \<and> bd_ws_written b' = out'"
    using b out by (simp add: peer_ended_def flush_section_eq lock_write_def finish_def bridge_step_def bridge_event_step_def
      lock_done_def Let_def out'_def)
  then have "\<exists>n. let b' = bridge_steps lib bad_gateway_config [PeerBytes [], WsWrote n] b in
      bd_end b' = Some (Inr (LocalClose bad_gateway)) \<and> bd_ws_written b' = out'" by blast
  then show ?thesis by (simp only: out'_def sent_def q) (simp add: open_tunnel_def bad_gateway_def)
qed

theorem proxy_unreachable_upstream_closes_1014_witness:
  "\<exists>b n. bridge_start plain_wslay bad_gateway_config 0 = Ok b \<and>
     bd_ws_written (bridge_steps plain_wslay bad_gateway_config [PeerBytes [], WsWrote n] b) = 8 # as_bytes ''bad gateway''"
proof -
  obtain b where b: "bridge_start plain_wslay bad_gateway_config 0 = Ok b" "bd_wslay b = []"
    by (simp add: bridge_start_def plain_wslay_def)
  from proxy_unreachable_upstream_closes_1014 [OF b(1)] b show ?thesis by (auto simp: plain_wslay_def Let_def)
qed

end
