(* ===== verification/Example_Server.thy ===== *)
theory Example_Server
  imports Serve Proxy Client
begin

text \<open>
  \<open>h2ts-server/examples/h2-server.rs\<close>: an in-process HTTP/2 service behind the WebSocket handshake.
  hyper is outside the model: a request of the service is its method, path, headers and the
  result of collecting its body, a response what \<open>Response::builder\<close> was given.  That builder refuses
  header values that are not legal (\<open>hl_value_ok\<close>); \<open>bad_value\<close> is the text of its error.
\<close>

subsection \<open>The listener\<close>

text \<open>The example listens as the proxy does: an error of \<open>accept\<close> costs 50 milliseconds and nothing else.\<close>

definition example_listen :: "(string + 'socket) list \<Rightarrow> 'socket list \<times> nat" where
  "example_listen rs = listen_loop rs"

subsection \<open>The upgrade\<close>

text \<open>The response, and the configuration with which the tunnel is served if the upgrade succeeds.\<close>

definition on_request :: "http_lib \<Rightarrow> http_request \<Rightarrow> (unit, http_response \<times> serve_config option) result" where
  "on_request lib rq =
     (case accept lib rq of
        Ok response \<Rightarrow> Ok (response, Some serve_h2)
      | Err err \<Rightarrow> Ok (rejection_response err, None)
      | Panic \<Rightarrow> Panic)"

subsection \<open>The service\<close>

record app_request =
  aq_method :: string
  aq_path :: string
  aq_header :: "string \<Rightarrow> string option"
  aq_body :: "string + bytes"

record app_response =
  ap_status :: nat
  ap_headers :: "(string \<times> string) list"
  ap_body :: bytes

definition build :: "http_lib \<Rightarrow> string \<Rightarrow> nat \<Rightarrow> string \<Rightarrow> (string \<times> string) list \<Rightarrow> bytes \<Rightarrow> string + app_response" where
  "build lib bad_value status content_type extra body =
     (let headers = (''content-type'', content_type) # extra in
      if list_all (\<lambda>(n, v). hl_value_ok lib v) headers
      then Inr \<lparr>ap_status = status, ap_headers = headers, ap_body = body\<rparr> else Inl bad_value)"

definition text_response :: "http_lib \<Rightarrow> string \<Rightarrow> string \<Rightarrow> string + app_response" where
  "text_response lib bad_value body = build lib bad_value 200 ''text/plain; charset=utf-8'' [] (as_bytes body)"

definition hello_text :: string where
  "hello_text = ''hello from in-process Rust h2 server over websocket!'' @ [CHR 0x0A]"

definition json_text :: "string \<Rightarrow> string \<Rightarrow> string" where
  "json_text method' path =
     ''{'' @ [CHR 0x22] @ ''ok'' @ [CHR 0x22] @ '':true,'' @ [CHR 0x22] @ ''method'' @ [CHR 0x22] @ '':'' @ [CHR 0x22] @ method'
     @ [CHR 0x22] @ '','' @ [CHR 0x22] @ ''path'' @ [CHR 0x22] @ '':'' @ [CHR 0x22] @ path @ [CHR 0x22] @ '','' @ [CHR 0x22] @ ''ts''
     @ [CHR 0x22] @ '':1234567890}''"

definition BIG_SIZE :: nat where
  "BIG_SIZE = 256 * 1024"

definition route :: "http_lib \<Rightarrow> string \<Rightarrow> app_request \<Rightarrow> string + app_response" where
  "route lib bad_value rq =
     (if aq_path rq = ''/hello'' then text_response lib bad_value hello_text
      else if aq_path rq = ''/json'' then
        build lib bad_value 200 ''application/json'' [] (as_bytes (json_text (aq_method rq) (aq_path rq)))
      else if aq_path rq = ''/big'' then
        build lib bad_value 200 ''application/octet-stream'' [(''x-size'', show_nat BIG_SIZE)] (replicate BIG_SIZE 0x78)
      else if aq_path rq = ''/echo'' then
        (case aq_body rq of
           Inl err \<Rightarrow> Inl err
         | Inr body \<Rightarrow> build lib bad_value 200 ''application/octet-stream'' [(''x-echo-bytes'', show_nat (length body))] body)
      else if aq_path rq = ''/headers'' then
        build lib bad_value 200 ''text/plain'' [(''x-saw-custom'', unwrap_or (aq_header rq ''x-custom'') [])] (as_bytes ''ok'')
      else Inr \<lparr>ap_status = 404, ap_headers = [], ap_body = as_bytes (''not found'' @ [CHR 0x0A])\<rparr>)"

definition app :: "http_lib \<Rightarrow> string \<Rightarrow> app_request \<Rightarrow> app_response" where
  "app lib bad_value rq =
     (case route lib bad_value rq of
        Inr response \<Rightarrow> response
      | Inl err \<Rightarrow> \<lparr>ap_status = 500, ap_headers = [], ap_body = as_bytes (''error: '' @ err @ [CHR 0x0A])\<rparr>)"

text \<open>Visible ASCII and blanks: what \<open>HeaderValue\<close> accepts at least, and all that \<open>to_str\<close> returns.\<close>

definition visible :: "string \<Rightarrow> bool" where
  "visible s \<longleftrightarrow> list_all (\<lambda>c. 32 \<le> (of_char c :: nat) \<and> (of_char c :: nat) < 127) s"

lemma visible_show_nat: "visible (show_nat n)"
proof (induction n rule: show_nat.induct)
  case (1 n)
  then show ?case by (cases "n < 10") (simp_all add: visible_def show_nat.simps [of n])
qed

text \<open>
  Every response of the example is the echo of its request or a fixed one, and no body, header or path
  makes the service fail: with a builder that accepts visible values, a request whose body arrives is
  answered with 200 or 404, and \<open>/echo\<close> returns the body unchanged with its length.
\<close>

theorem app_answers:
  assumes "\<And>v. visible v \<Longrightarrow> hl_value_ok lib v" and "aq_body rq = Inr body"
    and "\<And>v. aq_header rq ''x-custom'' = Some v \<Longrightarrow> visible v"
  shows "ap_status (app lib bad_value rq) = (if aq_path rq \<in> {''/hello'', ''/json'', ''/big'', ''/echo'', ''/headers''} then 200 else 404)
    \<and> (aq_path rq = ''/echo'' \<longrightarrow> ap_body (app lib bad_value rq) = body
         \<and> (''x-echo-bytes'', show_nat (length body)) \<in> set (ap_headers (app lib bad_value rq)))"
proof -
  have "visible (unwrap_or (aq_header rq ''x-custom'') [])"
    using assms(3) by (cases "aq_header rq ''x-custom''") (simp_all add: unwrap_or_def visible_def)
  moreover have "visible ''text/plain; charset=utf-8''" "visible ''application/json''" "visible ''application/octet-stream''"
      "visible ''text/plain''"
    by (simp_all add: visible_def)
  ultimately show ?thesis
    using assms(1,2) visible_show_nat by (simp add: app_def route_def text_response_def build_def)
qed

theorem app_answers_witness:
  "ap_body (app plain_lib ''bad'' \<lparr>aq_method = ''POST'', aq_path = ''/echo'', aq_header = (\<lambda>_. None), aq_body = Inr [1, 2]\<rparr>) = [1, 2]"
  using app_answers [of plain_lib "\<lparr>aq_method = ''POST'', aq_path = ''/echo'', aq_header = (\<lambda>_. None), aq_body = Inr [1, 2]\<rparr>" "[1, 2]" "''bad''"]
  by (simp add: plain_lib_def)

end
