(* ===== verification/Battery.thy ===== *)
theory Battery
  imports Example_Server Response
begin

text \<open>
  The conformance drivers \<open>h2ts-conformance/src/main.rs\<close> (native) and
  \<open>h2ts-wasm-conformance/src/lib.rs\<close> (browser): a battery of checks on the answers of whatever gateway they
  are pointed at.  The gateway is a parameter: \<open>ask\<close> is what a request resolves to and \<open>pong\<close> what
  \<open>conn.ping()\<close> does; \<open>to_lowercase\<close> is Rust's Unicode lower-casing and \<open>fmt_rtt\<close> the formatting of a round-trip
  time.  \<open>ck_out\<close> is what is printed; \<open>ck_lines\<close>, the names of the checks with their outcomes, is kept beside it
  for the statements.
\<close>

subsection \<open>Answers\<close>

record answer =
  an_status :: nat
  an_headers :: "string \<rightharpoonup> string"
  an_chunks :: "(h2error + bytes) list"
  an_trailers :: "(string \<rightharpoonup> string) option"

text \<open>\<open>bytes\<close> over the items of the body stream; \<open>unwrap_or_default\<close> of it and of \<open>text\<close>.\<close>

fun collect_chunks :: "(h2error + bytes) list \<Rightarrow> h2error + bytes" where
  "collect_chunks [] = Inr []"
| "collect_chunks (Inl e # rs) = Inl e"
| "collect_chunks (Inr b # rs) = (case collect_chunks rs of Inr bs \<Rightarrow> Inr (b @ bs) | Inl e \<Rightarrow> Inl e)"

definition bytes_or_default :: "answer \<Rightarrow> bytes" where
  "bytes_or_default r = (case collect_chunks (an_chunks r) of Inr b \<Rightarrow> b | Inl _ \<Rightarrow> [])"

definition text_or_default :: "answer \<Rightarrow> string" where
  "text_or_default r = (case collect_chunks (an_chunks r) of Inr b \<Rightarrow> decode_utf8 b | Inl _ \<Rightarrow> [])"

definition header_or_default :: "string \<Rightarrow> answer \<Rightarrow> string" where
  "header_or_default n r = unwrap_or (an_headers r n) []"

fun starts_with :: "string \<Rightarrow> string \<Rightarrow> bool" where
  "starts_with [] s = True"
| "starts_with (p # ps) [] = False"
| "starts_with (p # ps) (c # cs) = (p = c \<and> starts_with ps cs)"

fun contains :: "string \<Rightarrow> string \<Rightarrow> bool" where
  "contains p [] = (p = [])"
| "contains p (c # cs) = (starts_with p (c # cs) \<or> contains p cs)"

subsection \<open>Bookkeeping\<close>

record checks =
  ck_failures :: u32
  ck_lines :: "(string \<times> bool) list"
  ck_out :: "string list"

definition checks_new :: checks where
  "checks_new = \<lparr>ck_failures = 0, ck_lines = [], ck_out = []\<rparr>"

definition check :: "string \<Rightarrow> bool \<Rightarrow> string \<Rightarrow> checks \<Rightarrow> checks" where
  "check n cond extra c =
     (let c = (if \<not> cond then c\<lparr>ck_failures := ck_failures c + 1\<rparr> else c);
          status = (if cond then ''ok  '' else ''FAIL'')
      in c\<lparr>ck_lines := ck_lines c @ [(n, cond)],
           ck_out := ck_out c @ [if extra = [] then ''['' @ status @ ''] '' @ n
             else ''['' @ status @ ''] '' @ n @ ''  ('' @ extra @ '')'']\<rparr>)"

lemma check_counts:
  "ck_failures (check n cond extra c) = (if cond then ck_failures c else ck_failures c + 1)"
  "ck_lines (check n cond extra c) = ck_lines c @ [(n, cond)]"
  by (simp_all add: check_def Let_def)

definition AUTH :: string where
  "AUTH = ''127.0.0.1:8000''"

definition get_init :: "string \<Rightarrow> request_init" where
  "get_init path = \<lparr>ri_method = None, ri_path = Some path, ri_authority = Some AUTH, ri_scheme = None, ri_headers = [],
     ri_body = EmptyBody\<rparr>"

definition post_init :: "request_body \<Rightarrow> request_init" where
  "post_init body = \<lparr>ri_method = Some ''POST'', ri_path = Some ''/echo'', ri_authority = Some AUTH, ri_scheme = None,
     ri_headers = [], ri_body = body\<rparr>"

type_synonym gateway = "request_init \<Rightarrow> h2error + answer"

text \<open>\<open>match conn.request(init).await { Ok(r) => ..., Err(e) => c.check(name, false, ..) }\<close>\<close>

definition on_answer :: "gateway \<Rightarrow> request_init \<Rightarrow> string \<Rightarrow> (answer \<Rightarrow> checks \<Rightarrow> checks) \<Rightarrow> checks \<Rightarrow> checks" where
  "on_answer ask init n f c = (case ask init of Inr r \<Rightarrow> f r c | Inl e \<Rightarrow> check n False (h2error_display e) c)"

definition ok_true :: string where
  "ok_true = [CHR 0x22] @ ''ok'' @ [CHR 0x22] @ '':true''"

definition path_json :: string where
  "path_json = [CHR 0x22] @ ''path'' @ [CHR 0x22] @ '':'' @ [CHR 0x22] @ ''/json'' @ [CHR 0x22]"

definition upload_payload :: bytes where
  "upload_payload = map (\<lambda>i. word_of_nat (i mod 256)) [0..<512 * 1024]"

subsection \<open>The native driver\<close>

definition check_hello :: "(string \<Rightarrow> string) \<Rightarrow> gateway \<Rightarrow> checks \<Rightarrow> checks" where
  "check_hello to_lowercase ask = on_answer ask (get_init ''/hello'') ''GET /hello'' (\<lambda>r c.
     check ''GET /hello body'' (contains ''hello'' (to_lowercase (text_or_default r))) []
       (check ''GET /hello -> 200'' (an_status r = 200) (''status='' @ show_nat (an_status r)) c))"

definition check_json :: "gateway \<Rightarrow> checks \<Rightarrow> checks" where
  "check_json ask = on_answer ask (get_init ''/json'') ''GET /json'' (\<lambda>r c.
     check ''GET /json parsed'' (contains ok_true (text_or_default r) \<and> contains path_json (text_or_default r)) []
       (check ''GET /json content-type'' (header_or_default ''content-type'' r = ''application/json'') (header_or_default ''content-type'' r) c))"

definition check_echo :: "gateway \<Rightarrow> checks \<Rightarrow> checks" where
  "check_echo ask = on_answer ask (post_init (body_from_string ''ping-pong'')) ''POST /echo'' (\<lambda>r c.
     check ''POST /echo echoes body'' (text_or_default r = ''ping-pong'') []
       (check ''POST /echo -> 200'' (an_status r = 200) [] c))"

definition check_big :: "gateway \<Rightarrow> checks \<Rightarrow> checks" where
  "check_big ask = on_answer ask (get_init ''/big'') ''GET /big'' (\<lambda>r c.
     check ''GET /big size'' (length (bytes_or_default r) = 256 * 1024) (''got '' @ show_nat (length (bytes_or_default r)))
       (check ''GET /big x-size header'' (header_or_default ''x-size'' r = show_nat (256 * 1024)) (header_or_default ''x-size'' r) c))"

definition check_concurrent :: "gateway \<Rightarrow> checks \<Rightarrow> checks" where
  "check_concurrent ask c =
     (let many = map (\<lambda>_. ask (get_init ''/json'')) [0..<8 :: nat];
          flat = concat (map (\<lambda>r. case r of Inr a \<Rightarrow> [a] | Inl _ \<Rightarrow> []) many);
          ok_count = length (filter (\<lambda>r. contains ok_true (text_or_default r)) flat)
      in check ''8 concurrent streams'' (ok_count = 8) (''ok='' @ show_nat ok_count @ ''/8'') c)"

definition check_upload :: "gateway \<Rightarrow> checks \<Rightarrow> checks" where
  "check_upload ask = on_answer ask (post_init (body_from_vec upload_payload)) ''512KiB upload'' (\<lambda>r c.
     check ''512KiB upload echo content'' (bytes_or_default r = upload_payload) []
       (check ''512KiB upload echo size'' (length (bytes_or_default r) = length upload_payload) (''got '' @ show_nat (length (bytes_or_default r)))
         (check ''echo x-echo-bytes header'' (header_or_default ''x-echo-bytes'' r = show_nat (length upload_payload)) (header_or_default ''x-echo-bytes'' r) c)))"

definition check_header :: "gateway \<Rightarrow> checks \<Rightarrow> checks" where
  "check_header ask = on_answer ask ((get_init ''/headers'')\<lparr>ri_headers := [(''x-custom'', ''h2ts-rocks'')]\<rparr>) ''custom header'' (\<lambda>r c.
     check ''custom header reflected'' (header_or_default ''x-saw-custom'' r = ''h2ts-rocks'') (header_or_default ''x-saw-custom'' r) c)"

definition check_ping :: "(int \<Rightarrow> string) \<Rightarrow> (h2error + int) \<Rightarrow> checks \<Rightarrow> checks" where
  "check_ping fmt_rtt pong c =
     (case pong of Inr rtt \<Rightarrow> check ''ping rtt >= 0'' (0 \<le> rtt) (''rtt='' @ fmt_rtt rtt @ ''ms'') c | Inl e \<Rightarrow> check ''ping'' False (h2error_display e) c)"

definition streamed :: "answer \<Rightarrow> nat" where
  "streamed r = sum_list (map (\<lambda>x. case x of Inr b \<Rightarrow> length b | Inl _ \<Rightarrow> 0) (an_chunks r))"

definition check_stream :: "gateway \<Rightarrow> checks \<Rightarrow> checks" where
  "check_stream ask = on_answer ask (get_init ''/big'') ''streamed /big'' (\<lambda>r c.
     check ''streamed /big size'' (streamed r = 256 * 1024) (''got '' @ show_nat (streamed r)) c)"

definition check_not_found :: "gateway \<Rightarrow> checks \<Rightarrow> checks" where
  "check_not_found ask = on_answer ask (get_init ''/nope'') ''GET /nope'' (\<lambda>r c.
     check ''GET /nope -> 404'' (an_status r = 404) (''status='' @ show_nat (an_status r)) c)"

definition check_trailers :: "gateway \<Rightarrow> checks \<Rightarrow> checks" where
  "check_trailers ask = on_answer ask (get_init ''/trailers'') ''trailers'' (\<lambda>r c.
     check ''trailers: x-trailer'' (unwrap_or (Option.bind (an_trailers r) (\<lambda>m. m ''x-trailer'')) [] = ''after-body'') (unwrap_or (Option.bind (an_trailers r) (\<lambda>m. m ''x-trailer'')) [])
       (check ''trailers: body'' (text_or_default r = ''trailer-body'') (text_or_default r) c))"

definition check_early_hints :: "gateway \<Rightarrow> checks \<Rightarrow> checks" where
  "check_early_hints ask = on_answer ask (get_init ''/early-hints'') ''1xx interim'' (\<lambda>r c.
     check ''1xx: final body'' (text_or_default r = ''final-body'') (text_or_default r)
       (check ''1xx: final status 200'' (an_status r = 200) (''status='' @ show_nat (an_status r)) c))"

definition native_battery :: "(string \<Rightarrow> string) \<Rightarrow> (int \<Rightarrow> string) \<Rightarrow> gateway \<Rightarrow> (h2error + int) \<Rightarrow> checks" where
  "native_battery to_lowercase fmt_rtt ask pong =
     check_early_hints ask (check_trailers ask (check_not_found ask (check_stream ask (check_ping fmt_rtt pong
       (check_header ask (check_upload ask (check_concurrent ask (check_big ask (check_echo ask (check_json ask
         (check_hello to_lowercase ask checks_new)))))))))))"

text \<open>
  What the process prints, the negotiated subprotocol first and the verdict last, and its exit status.  The check mark
  and the cross are their UTF-8 encodings.
\<close>

definition native_verdict :: "checks \<Rightarrow> string" where
  "native_verdict c =
     (if ck_failures c = 0 then [CHR 0x0A, CHR 0xE2, CHR 0x9C, CHR 0x85] @ '' ALL E2E PASSED (rust client)''
      else [CHR 0x0A, CHR 0xE2, CHR 0x9D, CHR 0x8C] @ '' '' @ show_nat (unat (ck_failures c)) @ '' E2E FAILURE(S) (rust client)'')"

definition native_output :: "string option \<Rightarrow> checks \<Rightarrow> string list" where
  "native_output protocol c = [''connected (protocol='' @ unwrap_or protocol [] @ '')'' @ [CHR 0x0A]] @ ck_out c @ [native_verdict c]"

definition run_exit :: "checks \<Rightarrow> int" where
  "run_exit c = (if ck_failures c \<noteq> 0 then 1 else 0)"

subsection \<open>The browser driver\<close>

text \<open>The loop \<open>for r in many { if let Ok(mut r) = r { .. } }\<close>.\<close>

fun count_ok :: "(h2error + answer) list \<Rightarrow> nat \<Rightarrow> nat" where
  "count_ok [] ok_count = ok_count"
| "count_ok (r # rs) ok_count =
     count_ok rs (case r of Inr a \<Rightarrow> if contains ok_true (text_or_default a) then ok_count + 1 else ok_count | Inl _ \<Rightarrow> ok_count)"

definition wasm_checks_1_6 :: "(string \<Rightarrow> string) \<Rightarrow> gateway \<Rightarrow> checks \<Rightarrow> checks" where
  "wasm_checks_1_6 to_lowercase ask c =
     (let c = (case ask (get_init ''/hello'') of
                 Inr r \<Rightarrow>
                   let c = check ''GET /hello -> 200'' (an_status r = 200) (''status='' @ show_nat (an_status r)) c in
                   check ''GET /hello body'' (contains ''hello'' (to_lowercase (text_or_default r))) [] c
               | Inl e \<Rightarrow> check ''GET /hello'' False (h2error_display e) c);
          c = (case ask (get_init ''/json'') of
                 Inr r \<Rightarrow>
                   let c = check ''GET /json content-type'' (header_or_default ''content-type'' r = ''application/json'') (header_or_default ''content-type'' r) c;
                       body = text_or_default r
                   in check ''GET /json parsed'' (contains ok_true body \<and> contains path_json body) [] c
               | Inl e \<Rightarrow> check ''GET /json'' False (h2error_display e) c);
          c = (case ask (post_init (body_from_string ''ping-pong'')) of
                 Inr r \<Rightarrow>
                   let c = check ''POST /echo -> 200'' (an_status r = 200) [] c in
                   check ''POST /echo echoes body'' (text_or_default r = ''ping-pong'') [] c
               | Inl e \<Rightarrow> check ''POST /echo'' False (h2error_display e) c);
          c = (case ask (get_init ''/big'') of
                 Inr r \<Rightarrow>
                   let c = check ''GET /big x-size header'' (header_or_default ''x-size'' r = show_nat (256 * 1024)) (header_or_default ''x-size'' r) c;
                       big = bytes_or_default r
                   in check ''GET /big size'' (length big = 256 * 1024) (''got '' @ show_nat (length big)) c
               | Inl e \<Rightarrow> check ''GET /big'' False (h2error_display e) c);
          ok_count = count_ok (map (\<lambda>_. ask (get_init ''/json'')) [0..<8 :: nat]) 0;
          c = check ''8 concurrent streams'' (ok_count = 8) (''ok='' @ show_nat ok_count @ ''/8'') c
      in case ask (post_init (body_from_vec upload_payload)) of
           Inr r \<Rightarrow>
             let c = check ''echo x-echo-bytes header'' (header_or_default ''x-echo-bytes'' r = show_nat (length upload_payload)) (header_or_default ''x-echo-bytes'' r) c;
                 echoed = bytes_or_default r;
                 c = check ''512KiB upload echo size'' (length echoed = length upload_payload) (''got '' @ show_nat (length echoed)) c
             in check ''512KiB upload echo content'' (echoed = upload_payload) [] c
         | Inl e \<Rightarrow> check ''512KiB upload'' False (h2error_display e) c)"

definition wasm_checks_7_12 :: "(int \<Rightarrow> string) \<Rightarrow> gateway \<Rightarrow> (h2error + int) \<Rightarrow> checks \<Rightarrow> checks" where
  "wasm_checks_7_12 fmt_rtt ask pong c =
     (let c = (case ask ((get_init ''/headers'')\<lparr>ri_headers := [(''x-custom'', ''h2ts-rocks'')]\<rparr>) of
                 Inr r \<Rightarrow> check ''custom header reflected'' (header_or_default ''x-saw-custom'' r = ''h2ts-rocks'') (header_or_default ''x-saw-custom'' r) c
               | Inl e \<Rightarrow> check ''custom header'' False (h2error_display e) c);
          c = (case pong of Inr rtt \<Rightarrow> check ''ping rtt >= 0'' (0 \<le> rtt) (''rtt='' @ fmt_rtt rtt @ ''ms'') c | Inl e \<Rightarrow> check ''ping'' False (h2error_display e) c);
          c = (case ask (get_init ''/big'') of
                 Inr r \<Rightarrow> check ''streamed /big size'' (streamed r = 256 * 1024) (''got '' @ show_nat (streamed r)) c
               | Inl e \<Rightarrow> check ''streamed /big'' False (h2error_display e) c);
          c = (case ask (get_init ''/nope'') of
                 Inr r \<Rightarrow> check ''GET /nope -> 404'' (an_status r = 404) (''status='' @ show_nat (an_status r)) c
               | Inl e \<Rightarrow> check ''GET /nope'' False (h2error_display e) c);
          c = (case ask (get_init ''/trailers'') of
                 Inr r \<Rightarrow>
                   let c = check ''trailers: body'' (text_or_default r = ''trailer-body'') (text_or_default r) c in
                   check ''trailers: x-trailer'' (unwrap_or (Option.bind (an_trailers r) (\<lambda>m. m ''x-trailer'')) [] = ''after-body'') (unwrap_or (Option.bind (an_trailers r) (\<lambda>m. m ''x-trailer'')) []) c
               | Inl e \<Rightarrow> check ''trailers'' False (h2error_display e) c)
      in case ask (get_init ''/early-hints'') of
           Inr r \<Rightarrow>
             let c = check ''1xx: final status 200'' (an_status r = 200) (''status='' @ show_nat (an_status r)) c in
             check ''1xx: final body'' (text_or_default r = ''final-body'') (text_or_default r) c
         | Inl e \<Rightarrow> check ''1xx interim'' False (h2error_display e) c)"

definition wasm_battery :: "(string \<Rightarrow> string) \<Rightarrow> (int \<Rightarrow> string) \<Rightarrow> gateway \<Rightarrow> (h2error + int) \<Rightarrow> checks" where
  "wasm_battery to_lowercase fmt_rtt ask pong = wasm_checks_7_12 fmt_rtt ask pong (wasm_checks_1_6 to_lowercase ask checks_new)"

text \<open>What it logs, once it is connected.\<close>

definition wasm_verdict :: "checks \<Rightarrow> string" where
  "wasm_verdict c =
     (if ck_failures c = 0 then [CHR 0x0A, CHR 0xE2, CHR 0x9C, CHR 0x85] @ '' ALL E2E PASSED (rust wasm client)''
      else [CHR 0x0A, CHR 0xE2, CHR 0x9D, CHR 0x8C] @ '' E2E FAILURE(S) (rust wasm client)'')"

definition wasm_output :: "checks \<Rightarrow> string list" where
  "wasm_output c = [''connected (wasm / real WebSocket)'' @ [CHR 0x0A]] @ ck_out c @ [wasm_verdict c]"

text \<open>The promise of the exported function, given what \<open>connect_websocket\<close> resolved to.\<close>

definition run_battery ::
  "(string, 'conn) result \<Rightarrow> (string \<Rightarrow> string) \<Rightarrow> (int \<Rightarrow> string) \<Rightarrow> gateway \<Rightarrow> (h2error + int) \<Rightarrow> (string, u32) result" where
  "run_battery connected to_lowercase fmt_rtt ask pong =
     rbind connected (\<lambda>conn. Ok (ck_failures (wasm_battery to_lowercase fmt_rtt ask pong)))"

subsection \<open>The two drivers agree\<close>

lemma count_ok_filter:
  "count_ok rs n = n + length (filter (\<lambda>r. contains ok_true (text_or_default r)) (concat (map (\<lambda>r. case r of Inr a \<Rightarrow> [a] | Inl _ \<Rightarrow> []) rs)))"
  by (induction rs arbitrary: n) (auto split: sum.split)

lemmas native_checks = check_hello_def check_json_def check_echo_def check_big_def check_concurrent_def check_upload_def
  check_header_def check_ping_def check_stream_def check_not_found_def check_trailers_def check_early_hints_def

lemma wasm_battery_native: "wasm_battery to_lowercase fmt_rtt ask pong = native_battery to_lowercase fmt_rtt ask pong"
  unfolding wasm_battery_def native_battery_def wasm_checks_1_6_def wasm_checks_7_12_def native_checks on_answer_def Let_def
    count_ok_filter add_0 by (rule refl)

text \<open>
  The two Rust drivers run the same battery: on every gateway they print, between their greeting and their verdict, the
  same lines in the same order and count the same failures; the browser driver reports that count once it is connected, and the native
  one exits with 0 exactly if the browser driver reports 0.
\<close>

theorem drivers_agree:
  "wasm_battery to_lowercase fmt_rtt ask pong = native_battery to_lowercase fmt_rtt ask pong
    \<and> butlast (tl (wasm_output (wasm_battery to_lowercase fmt_rtt ask pong)))
      = butlast (tl (native_output protocol (native_battery to_lowercase fmt_rtt ask pong)))
    \<and> run_battery (Ok conn) to_lowercase fmt_rtt ask pong = Ok (ck_failures (native_battery to_lowercase fmt_rtt ask pong))
    \<and> (run_exit (native_battery to_lowercase fmt_rtt ask pong) = 0 \<longleftrightarrow> run_battery (Ok conn) to_lowercase fmt_rtt ask pong = Ok 0)"
  by (simp add: run_battery_def run_exit_def wasm_battery_native wasm_output_def native_output_def)

subsection \<open>The example server under the battery\<close>

lemma decode_ascii: "list_all (\<lambda>c. (of_char c :: nat) < 128) s \<Longrightarrow> decode_utf8 (as_bytes s) = s"
proof (rule decode_utf8_valid, induction s)
  case (Cons c s)
  have "of_char c < (0x80 :: u8)" using Cons.prems by (simp add: word_less_nat_alt unat_of_char)
  then show ?case
    using Cons by (simp add: as_bytes_def valid_utf8.simps [of "of_char c # _"] utf8_next_def utf8_chunk_def byte_or_zero_def)
qed (simp add: as_bytes_def)

lemma streamed_collected: "collect_chunks (an_chunks r) = Inr b \<Longrightarrow> streamed r = length b"
proof -
  have "collect_chunks cs = Inr b \<Longrightarrow> sum_list (map (\<lambda>x. case x of Inr b \<Rightarrow> length b | Inl _ \<Rightarrow> 0) cs) = length b" for cs :: "(h2error + bytes) list"
    by (induction cs arbitrary: b rule: collect_chunks.induct) (auto split: sum.splits)
  then show "collect_chunks (an_chunks r) = Inr b \<Longrightarrow> streamed r = length b" by (simp add: streamed_def)
qed

text \<open>The request of the service that a request of the client becomes.\<close>

fun body_bytes :: "request_body \<Rightarrow> bytes" where
  "body_bytes EmptyBody = []"
| "body_bytes (BytesBody b) = b"
| "body_bytes (StreamBody chunks) = concat chunks"

definition received :: "request_init \<Rightarrow> app_request" where
  "received init = \<lparr>aq_method = unwrap_or (ri_method init) ''GET'', aq_path = unwrap_or (ri_path init) ''/'',
     aq_header = map_of (ri_headers init), aq_body = Inr (body_bytes (ri_body init))\<rparr>"

text \<open>
  A gateway that serves the example: every request is answered with the status, the headers and the body
  of the service's response (HTTP servers add headers of their own) and without trailers.
\<close>

definition serves_example :: "http_lib \<Rightarrow> string \<Rightarrow> gateway \<Rightarrow> bool" where
  "serves_example lib bad_value ask \<longleftrightarrow> (\<forall>init. \<exists>a. ask init = Inr a
     \<and> an_status a = ap_status (app lib bad_value (received init))
     \<and> collect_chunks (an_chunks a) = Inr (ap_body (app lib bad_value (received init)))
     \<and> list_all (\<lambda>(n, v). an_headers a n = Some v) (ap_headers (app lib bad_value (received init)))
     \<and> an_trailers a = None)"

lemma serves_exampleD:
  assumes "serves_example lib bad_value ask" "app lib bad_value (received init) = p"
  obtains a where "ask init = Inr a" "an_status a = ap_status p" "bytes_or_default a = ap_body p"
    "text_or_default a = decode_utf8 (ap_body p)" "streamed a = length (ap_body p)"
    "list_all (\<lambda>(n, v). an_headers a n = Some v) (ap_headers p)" "an_trailers a = None"
proof -
  obtain a where a: "ask init = Inr a" "an_status a = ap_status p" "collect_chunks (an_chunks a) = Inr (ap_body p)"
      "list_all (\<lambda>(n, v). an_headers a n = Some v) (ap_headers p)" "an_trailers a = None"
    using assms unfolding serves_example_def by blast
  show thesis
    by (rule that [OF a(1,2) _ _ streamed_collected [OF a(3)] a(4,5)])
      (simp_all add: bytes_or_default_def text_or_default_def a(3))
qed

lemmas example_response = app_def route_def text_response_def build_def received_def get_init_def post_init_def unwrap_or_def
  body_from_string_def body_from_vec_def

locale example_gateway =
  fixes lib :: http_lib and bad_value :: string and ask :: gateway and to_lowercase :: "string \<Rightarrow> string"
  assumes value_ok: "visible v \<Longrightarrow> hl_value_ok lib v"
    and serves: "serves_example lib bad_value ask"
    and lowercase_ascii: "list_all (\<lambda>c. (of_char c :: nat) < 128) s \<Longrightarrow> to_lowercase s = to_ascii_lowercase s"
begin

lemma types_ok [simp]:
  "hl_value_ok lib ''text/plain; charset=utf-8''" "hl_value_ok lib ''application/json''"
  "hl_value_ok lib ''application/octet-stream''" "hl_value_ok lib ''text/plain''" "hl_value_ok lib ''h2ts-rocks''"
  "hl_value_ok lib (show_nat n)"
  by (simp_all add: value_ok visible_show_nat) (simp_all add: value_ok visible_def)

lemma hello_ok: "check_hello to_lowercase ask c = check ''GET /hello body'' True [] (check ''GET /hello -> 200'' True (''status='' @ show_nat 200) c)"
proof -
  have ascii: "list_all (\<lambda>c. (of_char c :: nat) < 128) hello_text" by (simp add: hello_text_def)
  have found: "contains ''hello'' (to_ascii_lowercase hello_text)"
    by (simp add: hello_text_def to_ascii_lowercase_def ascii_lower_def)
  have "app lib bad_value (received (get_init ''/hello'')) = \<lparr>ap_status = 200,
      ap_headers = [(''content-type'', ''text/plain; charset=utf-8'')], ap_body = as_bytes hello_text\<rparr>"
    by (simp add: example_response)
  then obtain a where "ask (get_init ''/hello'') = Inr a" "an_status a = 200" "text_or_default a = decode_utf8 (as_bytes hello_text)"
    by (rule serves_exampleD [OF serves]) simp
  then show ?thesis
    using found by (simp add: check_hello_def on_answer_def decode_ascii [OF ascii] lowercase_ascii [OF ascii])
qed

lemma json_answer:
  obtains a where "ask (get_init ''/json'') = Inr a" "header_or_default ''content-type'' a = ''application/json''"
    "contains ok_true (text_or_default a)" "contains path_json (text_or_default a)"
proof -
  have ascii: "list_all (\<lambda>c. (of_char c :: nat) < 128) (json_text ''GET'' ''/json'')" by (simp add: json_text_def)
  have found: "contains ok_true (json_text ''GET'' ''/json'')" "contains path_json (json_text ''GET'' ''/json'')"
    by (simp_all add: json_text_def ok_true_def path_json_def)
  have "app lib bad_value (received (get_init ''/json'')) = \<lparr>ap_status = 200,
      ap_headers = [(''content-type'', ''application/json'')], ap_body = as_bytes (json_text ''GET'' ''/json'')\<rparr>"
    by (simp add: example_response)
  then obtain a where "ask (get_init ''/json'') = Inr a" "an_headers a ''content-type'' = Some ''application/json''"
      "text_or_default a = decode_utf8 (as_bytes (json_text ''GET'' ''/json''))"
    by (rule serves_exampleD [OF serves]) simp
  then show thesis using found by (intro that [of a]) (simp_all add: header_or_default_def unwrap_or_def decode_ascii [OF ascii])
qed

lemma json_ok:
  "check_json ask c = check ''GET /json parsed'' True [] (check ''GET /json content-type'' True ''application/json'' c)"
  "check_concurrent ask c = check ''8 concurrent streams'' True (''ok='' @ show_nat 8 @ ''/8'') c"
proof -
  obtain a where a: "ask (get_init ''/json'') = Inr a" "header_or_default ''content-type'' a = ''application/json''"
    "contains ok_true (text_or_default a)" "contains path_json (text_or_default a)"
    by (rule json_answer)
  then show "check_json ask c = check ''GET /json parsed'' True [] (check ''GET /json content-type'' True ''application/json'' c)"
    by (simp add: check_json_def on_answer_def)
  have "[0..<8 :: nat] = [0, 1, 2, 3, 4, 5, 6, 7]" by (simp add: upt_rec)
  then show "check_concurrent ask c = check ''8 concurrent streams'' True (''ok='' @ show_nat 8 @ ''/8'') c"
    using a by (simp add: check_concurrent_def eval_nat_numeral)
qed

lemma echo_answer:
  obtains a where "ask (post_init (BytesBody b)) = Inr a" "an_status a = 200" "bytes_or_default a = b"
    "text_or_default a = decode_utf8 b" "header_or_default ''x-echo-bytes'' a = show_nat (length b)"
proof -
  have "app lib bad_value (received (post_init (BytesBody b))) = \<lparr>ap_status = 200,
      ap_headers = [(''content-type'', ''application/octet-stream''), (''x-echo-bytes'', show_nat (length b))], ap_body = b\<rparr>"
    by (simp add: example_response)
  then obtain a where "ask (post_init (BytesBody b)) = Inr a" "an_status a = 200" "bytes_or_default a = b"
      "text_or_default a = decode_utf8 b" "an_headers a ''x-echo-bytes'' = Some (show_nat (length b))"
    by (rule serves_exampleD [OF serves]) simp
  then show thesis by (intro that [of a]) (simp_all add: header_or_default_def unwrap_or_def)
qed

lemma echo_ok:
  "check_echo ask c = check ''POST /echo echoes body'' True [] (check ''POST /echo -> 200'' True [] c)"
  "check_upload ask c = check ''512KiB upload echo content'' True [] (check ''512KiB upload echo size'' True (''got '' @ show_nat (length upload_payload))
     (check ''echo x-echo-bytes header'' True (show_nat (length upload_payload)) c))"
proof -
  have "decode_utf8 (as_bytes ''ping-pong'') = ''ping-pong''" by (rule decode_ascii) simp
  moreover obtain a where "ask (post_init (BytesBody (as_bytes ''ping-pong''))) = Inr a" "an_status a = 200"
      "text_or_default a = decode_utf8 (as_bytes ''ping-pong'')"
    by (rule echo_answer)
  ultimately show "check_echo ask c = check ''POST /echo echoes body'' True [] (check ''POST /echo -> 200'' True [] c)"
    by (simp add: check_echo_def on_answer_def body_from_string_def)
  obtain a where "ask (post_init (BytesBody upload_payload)) = Inr a" "bytes_or_default a = upload_payload"
      "header_or_default ''x-echo-bytes'' a = show_nat (length upload_payload)"
    by (rule echo_answer)
  then show "check_upload ask c = check ''512KiB upload echo content'' True [] (check ''512KiB upload echo size'' True (''got '' @ show_nat (length upload_payload))
     (check ''echo x-echo-bytes header'' True (show_nat (length upload_payload)) c))"
    by (simp add: check_upload_def on_answer_def body_from_vec_def)
qed

lemma big_ok:
  "check_big ask c = check ''GET /big size'' True (''got '' @ show_nat (256 * 1024)) (check ''GET /big x-size header'' True (show_nat (256 * 1024)) c)"
  "check_stream ask c = check ''streamed /big size'' True (''got '' @ show_nat (256 * 1024)) c"
proof -
  have "app lib bad_value (received (get_init ''/big'')) = \<lparr>ap_status = 200, ap_headers =
      [(''content-type'', ''application/octet-stream''), (''x-size'', show_nat BIG_SIZE)], ap_body = replicate BIG_SIZE 0x78\<rparr>"
    by (simp add: example_response)
  then obtain a where "ask (get_init ''/big'') = Inr a" "length (bytes_or_default a) = BIG_SIZE" "streamed a = BIG_SIZE"
      "header_or_default ''x-size'' a = show_nat BIG_SIZE"
    by (rule serves_exampleD [OF serves]) (simp add: header_or_default_def unwrap_or_def)
  then show "check_big ask c = check ''GET /big size'' True (''got '' @ show_nat (256 * 1024)) (check ''GET /big x-size header'' True (show_nat (256 * 1024)) c)"
      "check_stream ask c = check ''streamed /big size'' True (''got '' @ show_nat (256 * 1024)) c"
    unfolding BIG_SIZE_def by (simp_all add: check_big_def check_stream_def on_answer_def)
qed

lemma header_ok: "check_header ask c = check ''custom header reflected'' True ''h2ts-rocks'' c"
proof -
  let ?init = "(get_init ''/headers'')\<lparr>ri_headers := [(''x-custom'', ''h2ts-rocks'')]\<rparr>"
  have "app lib bad_value (received ?init) = \<lparr>ap_status = 200, ap_headers =
      [(''content-type'', ''text/plain''), (''x-saw-custom'', ''h2ts-rocks'')], ap_body = as_bytes ''ok''\<rparr>"
    by (simp add: example_response)
  then obtain a where "ask ?init = Inr a" "an_headers a ''x-saw-custom'' = Some ''h2ts-rocks''"
    by (rule serves_exampleD [OF serves]) simp
  then show ?thesis by (simp add: check_header_def on_answer_def header_or_default_def unwrap_or_def)
qed

lemma unknown_path:
  assumes "path \<notin> {''/hello'', ''/json'', ''/big'', ''/echo'', ''/headers''}"
  obtains a where "ask (get_init path) = Inr a" "an_status a = 404" "text_or_default a = ''not found'' @ [CHR 0x0A]" "an_trailers a = None"
proof -
  have "app lib bad_value (received (get_init path)) = \<lparr>ap_status = 404, ap_headers = [], ap_body = as_bytes (''not found'' @ [CHR 0x0A])\<rparr>"
    using assms by (simp add: example_response)
  moreover have "decode_utf8 (as_bytes (''not found'' @ [CHR 0x0A])) = ''not found'' @ [CHR 0x0A]" by (rule decode_ascii) simp
  ultimately show thesis using that by (elim serves_exampleD [OF serves]) simp
qed

lemma unknown_checks:
  "check_not_found ask c = check ''GET /nope -> 404'' True (''status='' @ show_nat 404) c"
  "check_trailers ask c = check ''trailers: x-trailer'' False [] (check ''trailers: body'' False (''not found'' @ [CHR 0x0A]) c)"
  "check_early_hints ask c = check ''1xx: final body'' False (''not found'' @ [CHR 0x0A]) (check ''1xx: final status 200'' False (''status='' @ show_nat 404) c)"
proof -
  show "check_not_found ask c = check ''GET /nope -> 404'' True (''status='' @ show_nat 404) c"
    by (rule unknown_path [of "''/nope''"]) (simp_all add: check_not_found_def on_answer_def)
  show "check_trailers ask c = check ''trailers: x-trailer'' False [] (check ''trailers: body'' False (''not found'' @ [CHR 0x0A]) c)"
    by (rule unknown_path [of "''/trailers''"]) (simp_all add: check_trailers_def on_answer_def unwrap_or_def)
  show "check_early_hints ask c = check ''1xx: final body'' False (''not found'' @ [CHR 0x0A]) (check ''1xx: final status 200'' False (''status='' @ show_nat 404) c)"
    by (rule unknown_path [of "''/early-hints''"]) (simp_all add: check_early_hints_def on_answer_def)
qed

lemma battery_result:
  assumes "0 \<le> rtt"
  shows "ck_failures (native_battery to_lowercase fmt_rtt ask (Inr rtt)) = 4"
    and "map fst (filter (\<lambda>l. \<not> snd l) (ck_lines (native_battery to_lowercase fmt_rtt ask (Inr rtt)))) =
      [''trailers: body'', ''trailers: x-trailer'', ''1xx: final status 200'', ''1xx: final body'']"
  using assms
  by (simp_all add: native_battery_def hello_ok json_ok echo_ok big_ok header_ok unknown_checks check_ping_def check_counts checks_new_def)

end

text \<open>The example called without a tunnel: an instance of a gateway.\<close>

definition direct_ask :: "http_lib \<Rightarrow> string \<Rightarrow> gateway" where
  "direct_ask lib bad_value init =
     (let p = app lib bad_value (received init) in
      Inr \<lparr>an_status = ap_status p, an_headers = map_of (ap_headers p), an_chunks = [Inr (ap_body p)], an_trailers = None\<rparr>)"

lemma direct_serves: "serves_example lib bad_value (direct_ask lib bad_value)"
proof -
  have "distinct (map fst (ap_headers (app lib bad_value rq)))" for rq
    by (auto simp: app_def route_def text_response_def build_def Let_def split: sum.splits)
  then show ?thesis by (auto simp: serves_example_def direct_ask_def Let_def list_all_iff map_of_is_SomeI)
qed

interpretation direct: example_gateway plain_lib "''bad''" "direct_ask plain_lib ''bad''" to_ascii_lowercase
  by unfold_locales (simp_all add: plain_lib_def direct_serves)



end
