(* ===== verification/Native_Transport.thy ===== *)
theory Native_Transport
  imports Example_Server Reading
begin

text \<open>
  The native WebSocket transport of \<open>h2ts-conformance/src/main.rs\<close>: the client's side of the handshake and
  the two tasks between fastwebsockets and the client's \<open>Transport\<close>.  fastwebsockets is outside the model:
  what \<open>read_frame\<close> returns and whether \<open>write_frame\<close> succeeds are inputs.
\<close>

subsection \<open>Opening\<close>

definition strip_ws :: "string \<Rightarrow> string" where
  "strip_ws url = (if take 5 url = ''ws://'' then drop 5 url else url)"

definition hostport_of :: "string \<Rightarrow> string" where
  "hostport_of url = hd (split_on (CHR ''/'') (strip_ws url))"

text \<open>The headers of the upgrade request; \<open>key\<close> is the random key fastwebsockets generates.\<close>

definition open_ws_headers :: "string \<Rightarrow> string \<Rightarrow> string list \<Rightarrow> (string \<times> string) list" where
  "open_ws_headers hostport key offer =
     [(''host'', hostport), (''upgrade'', ''websocket''), (''connection'', ''upgrade''), (''sec-websocket-key'', key),
      (''sec-websocket-version'', ''13'')]
     @ (if offer \<noteq> [] then [(''sec-websocket-protocol'', join '', '' offer)] else [])"

definition open_ws_request :: "string \<Rightarrow> string \<Rightarrow> string list \<Rightarrow> http_request" where
  "open_ws_request hostport key offer =
     \<lparr>hq_get = map_option as_bytes \<circ> map_of (open_ws_headers hostport key offer)\<rparr>"

definition negotiated :: "http_response \<Rightarrow> string option" where
  "negotiated resp = map_of (hr_headers resp) ''sec-websocket-protocol''"

subsection \<open>The transport\<close>

datatype ws_opcode = OpBinary | OpText | OpContinuation | OpClose | OpPing | OpPong

text \<open>
  The inbound task over the results of \<open>read_frame\<close>; \<open>left\<close> is the number of messages the client still
  takes before it drops its reader.
\<close>

fun ws_inbound :: "nat \<Rightarrow> (string + ws_opcode \<times> bytes) list \<Rightarrow> bytes list" where
  "ws_inbound left [] = []"
| "ws_inbound left (Inl err # rs) = []"
| "ws_inbound left (Inr (opcode, payload) # rs) =
     (case opcode of
        OpClose \<Rightarrow> []
      | OpPing \<Rightarrow> ws_inbound left rs
      | OpPong \<Rightarrow> ws_inbound left rs
      | _ \<Rightarrow> if payload = [] then ws_inbound left rs
             else if left = 0 then [] else payload # ws_inbound (left - 1) rs)"

text \<open>The outbound task: the frames it wrote, given which writes succeed.\<close>

fun ws_outbound :: "bool list \<Rightarrow> bytes list \<Rightarrow> (ws_opcode \<times> bytes) list" where
  "ws_outbound oks [] = []"
| "ws_outbound [] (b # bs) = []"
| "ws_outbound (ok # oks) (b # bs) = (if ok then (OpBinary, b) # ws_outbound oks bs else [])"

subsection \<open>The handshake succeeds\<close>

lemma join_render: "join '', '' ps = render_list 1 ps"
  by (induction "1 :: nat" ps rule: render_list.induct) simp_all

lemma visible_simps [simp]: "visible []" "visible (a @ b) \<longleftrightarrow> visible a \<and> visible b"
  by (auto simp: visible_def)

lemma visible_join: "list_all visible ps \<Longrightarrow> visible (join '', '' ps)"
proof (induction "'', ''" ps rule: join.induct)
  case (3 s s' ss)
  then show ?case by (simp add: visible_def)
qed simp_all

lemma open_ws_lookup:
  "hq_get (open_ws_request hostport key offer) ''upgrade'' = Some (as_bytes ''websocket'')"
  "hq_get (open_ws_request hostport key offer) ''connection'' = Some (as_bytes ''upgrade'')"
  "hq_get (open_ws_request hostport key offer) ''sec-websocket-key'' = Some (as_bytes key)"
  "offer \<noteq> [] \<Longrightarrow> hq_get (open_ws_request hostport key offer) ''sec-websocket-protocol'' = Some (as_bytes (join '', '' offer))"
  by (simp_all add: open_ws_request_def open_ws_headers_def)

text \<open>
  The native client and the server agree on the tunnel's subprotocol.  For any offer of tokens that has
  \<open>h2ts\<close> in some case, the server accepts the upgrade request the client writes, with status 101, and the
  client reads back as negotiated the first token of its offer that is \<open>h2ts\<close>.
\<close>

theorem native_client_is_accepted:
  assumes to_str: "\<And>s. visible s \<Longrightarrow> hl_to_str lib (as_bytes s) = Some s"
    and value_ok: "\<And>v. visible v \<Longrightarrow> hl_value_ok lib v" and base64: "\<And>b. visible (hl_base64 lib b)"
    and offer: "list_all (\<lambda>p. token p \<and> visible p) offer" and h2ts: "find (\<lambda>p. eq_ignore_ascii_case p ''h2ts'') offer = Some p"
  shows "\<exists>resp. accept lib (open_ws_request hostport key offer) = Ok resp \<and> hr_status resp = 101 \<and> negotiated resp = Some p"
proof -
  let ?rq = "open_ws_request hostport key offer"
  have ne: "offer \<noteq> []" using h2ts by auto
  have vis: "visible ''websocket''" "visible ''upgrade''" by (simp_all add: visible_def)
  have lists: "header_lists lib ?rq ''upgrade'' ''websocket''" "header_lists lib ?rq ''connection'' ''upgrade''"
    using to_str [OF vis(1)] to_str [OF vis(2)]
    by (simp_all add: header_lists_def open_ws_lookup trim_def is_space_def)
  have toks: "list_all token offer" "list_all visible offer" using offer by (simp_all add: list_all_iff)
  have "Option.bind (hq_get ?rq ''sec-websocket-protocol'') (hl_to_str lib) = Some (render_list 1 offer)"
    using to_str [OF visible_join [OF toks(2)]] by (simp add: open_ws_lookup(4) [OF ne] join_render)
  moreover have "map trim (split_on (CHR '','') (render_list 1 offer)) = offer" using split_render [OF toks(1) ne, of 0 1] by simp
  moreover have "filter (\<lambda>s. s \<noteq> []) offer = offer" using toks(1) by (auto simp: filter_id_conv list_all_iff token_def)
  ultimately have offered: "offered_protocols lib ?rq = offer" by (simp add: offered_protocols_def)
  have decision: "subprotocol_decision (\<lambda>_. None) offer False = FbAccept (Some p)"
    using h2ts by (simp add: subprotocol_decision_def fallback_subprotocol_def DEFAULT_SUBPROTOCOL_def)
  have "hl_value_ok lib p" using find_offered [OF h2ts] toks(2) value_ok by (auto simp: list_all_iff)
  moreover have "hl_value_ok lib (accept_key lib (as_bytes key))" by (simp add: accept_key_def value_ok base64)
  ultimately show ?thesis
    using lists by (simp add: accept_def accept_with_def accept_with_options_def accept_options_default_def is_upgrade_request_def
        open_ws_lookup offered decision switching_response_def negotiated_def)
qed

theorem native_client_is_accepted_witness:
  "\<exists>resp. accept (plain_lib\<lparr>hl_base64 := (\<lambda>b. ''key'')\<rparr>) (open_ws_request ''h:1'' ''abc'' [''h2ts'']) = Ok resp \<and> hr_status resp = 101
     \<and> negotiated resp = Some ''h2ts''"
  by (rule native_client_is_accepted [of "plain_lib\<lparr>hl_base64 := (\<lambda>b. ''key'')\<rparr>" "[''h2ts'']" "''h2ts''" "''h:1''" "''abc''"])
    (simp_all add: plain_lib_def visible_def token_def is_space_def)

subsection \<open>Frames cross the transport\<close>

text \<open>The payloads the inbound task passes on.\<close>

fun data_payload :: "ws_opcode \<times> bytes \<Rightarrow> bytes" where
  "data_payload (OpBinary, b) = b"
| "data_payload (OpText, b) = b"
| "data_payload (OpContinuation, b) = b"
| "data_payload (_, b) = []"

lemma ws_inbound_payload:
  "list_all (\<lambda>f. fst f \<noteq> OpClose) frames \<Longrightarrow> length frames \<le> left \<Longrightarrow>
   concat (ws_inbound left (map Inr frames)) = concat (map data_payload frames)"
proof (induction frames arbitrary: left)
  case (Cons f frames)
  obtain opcode payload where f: "f = (opcode, payload)" by (cases f)
  have "length frames \<le> left - 1" using Cons.prems(2) by simp
  then show ?case using Cons f by (cases opcode) simp_all
qed simp

lemma ws_outbound_all: "list_all id oks \<Longrightarrow> length chunks \<le> length oks \<Longrightarrow> ws_outbound oks chunks = map (Pair OpBinary) chunks"
  by (induction oks chunks rule: ws_outbound.induct) simp_all

text \<open>
  HTTP/2 frames cross the native transport.  Whatever WebSocket messages carry the serialized frames,
  with pings and pongs in between and cut at any byte, the client's frame decoder reads exactly the
  frames that were sent, in order, as long as no Close comes first and the client is reading; and in the
  other direction the messages written carry exactly the bytes the client sent.
\<close>

theorem native_frames_arrive:
  assumes "\<forall>f \<in> set fs. wf_frame m f" and "concat (map data_payload frames) = concat (map serialize_frame fs)"
    and "list_all (\<lambda>f. fst f \<noteq> OpClose) frames" and "length frames \<le> left"
    and "list_all id oks" and "length chunks \<le> length oks"
  shows "feed_all fd_push (ws_inbound left (map Inr frames)) (fd_new m) = Ok (fs, fd_new m)
    \<and> concat (map data_payload (ws_outbound oks chunks)) = concat chunks"
proof -
  have "concat (ws_inbound left (map Inr frames)) = concat (map serialize_frame fs)"
    using ws_inbound_payload [OF assms(3,4)] assms(2) by simp
  from feed_serialized [OF assms(1) this] show ?thesis
    using ws_outbound_all [OF assms(5,6)] by (simp add: o_def)
qed

theorem native_frames_arrive_witness:
  "feed_all fd_push (ws_inbound 3 (map Inr [(OpBinary, take 4 (serialize_frame (WindowUpdate 0 256))), (OpPing, [7]),
       (OpBinary, drop 4 (serialize_frame (WindowUpdate 0 256)))])) (fd_new 16384) = Ok ([WindowUpdate 0 256], fd_new 16384)"
proof -
  have wf: "\<forall>f \<in> set [WindowUpdate 0 256]. wf_frame 16384 f" by (simp add: wf_frame_def payload_length_def)
  show ?thesis
    using native_frames_arrive [OF wf, of "[(OpBinary, take 4 (serialize_frame (WindowUpdate 0 256))), (OpPing, [7]),
        (OpBinary, drop 4 (serialize_frame (WindowUpdate 0 256)))]" 3 "[]" "[]"]
    by (simp del: feed_all.simps ws_inbound.simps)
qed

end
