(* ===== verification/Spec2Isabelle.thy ===== *)
theory Spec2Isabelle
  imports Exchange Wire Web Byte_Stream Lifecycle Battery Native_Transport
begin

text \<open>
  A verification development of the Rust half of h2ts: HTTP/2 with prior knowledge, carried as a byte
  stream inside a WebSocket.  Paths below are relative to \<open>rust/crates/\<close>.

  \<^bold>\<open>The program.\<close>  The crate \<open>h2ts-client\<close> is an HTTP/2 client for wasm32 without I/O of its own: a frame
  codec, HPACK, flow-control windows, and a connection engine that is driven by a task which feeds it the
  chunks of the transport and writes what it queues; a pool opens several connections when one is
  saturated.  The crate \<open>h2ts-server\<close> accepts the WebSocket handshake, bridges the WebSocket to a byte
  stream (framing by the C library wslay), serves HTTP/2 over it with hyper and reaps idle
  connections; the binary \<open>h2ts-proxy\<close> forwards the stream to an upstream.  The example \<open>h2-server\<close> serves a
  small application in process, and two conformance drivers, native and browser, run a battery of
  requests against any gateway.

  \<^bold>\<open>Theories and sources.\<close>
  \<^item> \<open>Prelude\<close>: outcomes (\<open>Ok\<close>, \<open>Err\<close> and \<open>Panic\<close>, so that the absence of panics is proved), checked
    indexing, strings as their UTF-8 bytes, number parsing, incremental processing of chunks.
  \<^item> \<open>Errors\<close>, \<open>Bytes\<close>, \<open>Utf8\<close>: \<open>errors.rs\<close> and \<open>bytes.rs\<close>.
  \<^item> \<open>Frames\<close>, \<open>Frame_Decoder\<close>: \<open>frames.rs\<close>.  \<open>encode_body\<close>, \<open>serialize_frame\<close> and \<open>parse_payload\<close> for
    all frame types; \<open>fd_push\<close> is the buffering decoder with its offset loop, which is shown to compute a
    reference decoding, to be insensitive to chunking, and to invert serialization.
  \<^item> \<open>Flow\<close>: \<open>flow.rs\<close>, \<open>SendWindow\<close> with its waker; the locale \<open>wakeup\<close> states what it is to lose no wakeup.
  \<^item> \<open>Huffman_Table\<close>, \<open>Huffman\<close>, \<open>Static_Table\<close>, \<open>Hpack\<close>: \<open>hpack/\<close>.  The Huffman decoder accepts exactly
    the encodings; the dynamic table keeps the longest prefix that fits; decoding inverts encoding.
  \<^item> \<open>Stream_State\<close>, \<open>Connection\<close>, \<open>Client\<close>: \<open>connection.rs\<close>.  \<open>Stream_State\<close> has \<open>StreamState\<close> and the
    buffer shared with a response body, \<open>Connection\<close> has \<open>ConnState\<close> with one definition per frame type
    under \<open>dispatch\<close>, \<open>Client\<close> has the handle (\<open>request\<close>, \<open>ping\<close>, \<open>close\<close>), bodies, upload pumps,
    \<open>connect\<close> and the driver: \<open>sys_step\<close> is one event of any interleaving.
  \<^item> \<open>Connection_Inv\<close>, \<open>Client_Inv\<close>: the invariant of the connection and of the whole system, kept by
    every operation; no reachable state panics.  \<open>Sending\<close>, \<open>Ledger\<close>, \<open>Teardown\<close>, \<open>Slots\<close>, \<open>Credit\<close>,
    \<open>Silence\<close>: what is sent (header blocks, uploads, flow control), what teardown and GOAWAY do, that
    parked requests are woken, that buffers are bounded by the credit granted, that a closed connection
    writes nothing.  \<open>Lifecycle\<close> refines the stream state machine of RFC 7540: every event moves each stream along its
    edges.  The locale \<open>conn_steps\<close> of \<open>Conn_Steps\<close> lifts a relation that the elementary steps of
    the connection keep to all inbound bytes; several of these theories and \<open>Wire\<close> interpret it.
  \<^item> \<open>Reading\<close>, \<open>Response\<close>, \<open>Upload\<close>, \<open>Exchange\<close>, \<open>Wire\<close>: whole runs of the same file.  \<open>read_loop\<close> is the read
    half of \<open>drive\<close> over a sequence of chunks and refines frame dispatch; \<open>response\<close> is the value a request resolves to
    with \<open>bytes\<close>, \<open>text\<close> and the trailers; \<open>pump_poll\<close> runs an upload until it ends or waits, and always
    returns.  \<open>Exchange\<close> composes them: a request reaches the peer's decoder, and a response with its body and trailers
    the caller; it also shows two defects, of abandoned requests and of exhausted stream numbers.  \<open>Wire\<close> shows
    that what the transport accepts is the preface and then frames a client may send.
  \<^item> \<open>Pool\<close>: \<open>pool.rs\<close>.  The trait \<open>PoolConnection\<close> is a record of its methods, its contract the locale
    \<open>pool_connection\<close>, interpreted on the connection of \<open>Client\<close>.
  \<^item> \<open>Web\<close>: \<open>web.rs\<close>, how the callbacks of the browser's WebSocket resolve the open and become the chunks
    that the frame decoder reads, the sink and the pool's factory; the WebSocket object itself is a parameter.
  \<^item> \<open>Handshake\<close>: \<open>h2ts-server/src/handshake.rs\<close>.  \<open>Bridge\<close>, \<open>Bridge_Inv\<close>, \<open>Downstream\<close>: \<open>wslay.rs\<close>, its
    callbacks, its four directions as phases between awaits, the lock on the socket and keepalive; the locale
    \<open>callback_invariant\<close> lifts what the callbacks keep to a call of the library.  \<open>Downstream\<close> follows the bytes of the
    peer to the socket.  \<open>Idle\<close>: \<open>idle.rs\<close>.
    \<open>Serve\<close>, \<open>Byte_Stream\<close>: the serving functions of \<open>lib.rs\<close> and \<open>WsByteStream\<close>, which joins the application to the
    bridge's task through a duplex; the stream is transparent, and the WebSocket closes behind the last byte.  \<open>Proxy\<close>: \<open>bin/h2ts-proxy.rs\<close>, which composes the command
    line and the accept loop with the handshake and the bridge.
  \<^item> \<open>Example_Server\<close>: \<open>h2ts-server/examples/h2-server.rs\<close>, the upgrade and every route.  \<open>Native_Transport\<close>: the
    WebSocket transport of \<open>h2ts-conformance/src/main.rs\<close>; its upgrade request is one the server accepts, and frames cross it
    intact.  \<open>Battery\<close>: the checks of \<open>h2ts-conformance\<close> and of \<open>h2ts-wasm-conformance/src/lib.rs\<close>, which agree on every
    gateway, with all they print; against the example exactly the checks on trailers and early hints fail.  The locale \<open>example_gateway\<close>
    states what the drivers need of a gateway that serves the example.
  \<^item> This theory joins the client and the bridge: what the upstream, or a service in process, is given through the tunnel, and
    how a response comes back to the caller.

  \<^bold>\<open>How state and time are modelled.\<close>  Shared \<open>Rc\<close> state is a store: a stream refers to its cell by
  address, the pool to its connections.  An async function is cut at its awaits; each section is one
  step and any other step may come between.  Wakers are task numbers, and waking is reported as the list
  of tasks.  Iteration over a hash map is over an association list in some order.  Clock readings are
  arguments or a counter.  Where both branches of \<open>select!\<close> are ready the choice is an argument.

  \<^bold>\<open>Integers.\<close>  Wire fields are words of their width; \<open>usize\<close> in HPACK has a width parameter, since wasm32
  and the host differ, with the wrap-around of release builds written out; windows are integers with a
  theorem that they stay within 64 bits.

  \<^bold>\<open>Termination and bounds.\<close>  All definitions but one are total, by structural recursion or a measure; the loop
  that splits a header block is cut off for a maximum frame size of zero, which the settings exclude.
  Nothing uses fuel.  The upload of a body is a step function, and its completion a statement about its
  final step; the poll of an upload, the exception, is a \<open>partial_function\<close> into \<open>option\<close>, shown to return from every state that
  keeps the invariant.

  \<^bold>\<open>Parameters.\<close>  \<open>str::to_uppercase\<close> of the request method, the crates \<open>http\<close>, \<open>sha1\<close> and \<open>base64\<close>, the
  library wslay, tokio's in-memory duplex, whether a listen address is well formed, the pool's factory, and the gateway
  the conformance drivers talk to with the formatting of a round-trip time.  What a theorem needs
  of them it states as a hypothesis, and its witness has an instance.

  \<^bold>\<open>Not modelled.\<close>  \<open>transport.rs\<close> and \<open>h2ts-client/src/lib.rs\<close> hold types and re-exports; hyper, tokio,
  fastwebsockets and the sockets are I/O and appear as events or inputs; the methods of \<open>GuardedBody\<close> only delegate to the body it
  guards; \<open>wslay-sys\<close> is generated bindings to vendored C; the TypeScript and Go implementations are separate programs.
\<close>

section \<open>Through the tunnel\<close>

text \<open>Any beginning of what a client wrote is a beginning of frames, and decodes to a beginning of them.\<close>

definition client_bytes :: "bytes \<Rightarrow> frame list \<Rightarrow> bool" where
  "client_bytes x fs \<longleftrightarrow> prefix x (CONNECTION_PREFACE @ concat (map serialize_frame fs))
    \<and> (\<forall>m chunks. (\<forall>f \<in> set fs. wf_frame m f) \<and> x = CONNECTION_PREFACE @ concat chunks \<longrightarrow>
         (\<exists>gs d. feed_all fd_push chunks (fd_new m) = Ok (gs, d) \<and> prefix gs fs))"

lemma client_bytes_written:
  assumes "reachable W up options evs sy" and "prefix x (concat (sy_written sy))"
  obtains s fs where "client_bytes x (SettingsF False s # fs)" "list_all client_frame fs"
proof -
  obtain s fs where w: "prefix (sy_written sy) (CONNECTION_PREFACE # map serialize_frame (SettingsF False s # fs))"
      and cf: "list_all client_frame fs"
    using reachable_wire [OF assms(1)] by (auto simp: wire_inv_def wire_ok_def)
  have "prefix (concat (sy_written sy)) (CONNECTION_PREFACE @ concat (map serialize_frame (SettingsF False s # fs)))"
    using w by (auto simp: prefix_def) (metis concat_append append_assoc concat.simps(2))
  then have p: "prefix x (CONNECTION_PREFACE @ concat (map serialize_frame (SettingsF False s # fs)))"
    using assms(2) prefix_order.trans by blast
  have "\<exists>gs d. feed_all fd_push chunks (fd_new m) = Ok (gs, d) \<and> prefix gs (SettingsF False s # fs)"
    if "\<forall>f \<in> set (SettingsF False s # fs). wf_frame m f" "x = CONNECTION_PREFACE @ concat chunks" for m chunks
    by (rule feed_prefix [OF that(1)]) (use p that(2) in simp)
  then have "client_bytes x (SettingsF False s # fs)" using p unfolding client_bytes_def by blast
  then show thesis using cf by (rule that)
qed







end
